(* ===== verification/Prelude.thy ===== *)
theory Prelude
  imports Main "HOL-Library.Word"
begin

text \<open>
  Shared vocabulary of the development: the machine integers and byte slices of the Go
  sources, results that distinguish an error value from a run-time panic, bounds-checked
  slicing, the big- and little-endian accessors of \<^verbatim>\<open>encoding/binary\<close>, and the generic
  lemmas on results, lists and words that the component theories rely on.
\<close>

unbundle bit_operations_syntax

section \<open>Types\<close>

type_synonym u8 = "8 word"
type_synonym u16 = "16 word"
type_synonym u32 = "32 word"
type_synonym u64 = "64 word"
type_synonym bytes = "8 word list"

named_theorems codec \<open>encode/decode round trips of the byte-level accessors\<close>
named_theorems no_panic \<open>operations that never reach a run-time panic\<close>

section \<open>Results\<close>

text \<open>
  A Go function returning \<^verbatim>\<open>(T, error)\<close> is a value of \<open>('e, 'a) res\<close>: \<open>Inr\<close> of the value,
  \<open>Inl (Err e)\<close> for a returned error, \<open>Inl Panic\<close> where the run time would panic (index or
  slice bounds out of range, nil dereference).
\<close>

datatype 'e fault = Panic | Err 'e

type_synonym ('e, 'a) res = "'e fault + 'a"

abbreviation fail :: "'e \<Rightarrow> ('e, 'a) res" where
  "fail e \<equiv> Inl (Err e)"

abbreviation ok :: "'a \<Rightarrow> ('e, 'a) res" where
  "ok x \<equiv> Inr x"

definition bind_res :: "('e, 'a) res \<Rightarrow> ('a \<Rightarrow> ('e, 'b) res) \<Rightarrow> ('e, 'b) res" where
  "bind_res m f = (case m of Inl e \<Rightarrow> Inl e | Inr x \<Rightarrow> f x)"

text \<open>\<^verbatim>\<open>fmt.Errorf("%w: %v", e, err)\<close>: the error is replaced by the wrapping sentinel, a panic
  passes through.\<close>

definition wrap_err :: "'f \<Rightarrow> ('e, 'a) res \<Rightarrow> ('f, 'a) res" where
  "wrap_err e m = (case m of Inl Panic \<Rightarrow> Inl Panic | Inl (Err _) \<Rightarrow> fail e | Inr x \<Rightarrow> Inr x)"

text \<open>An error handed on unchanged, seen as an error of the calling component.\<close>

definition lift_err :: "('e \<Rightarrow> 'f) \<Rightarrow> ('e, 'a) res \<Rightarrow> ('f, 'a) res" where
  "lift_err f m = (case m of Inl Panic \<Rightarrow> Inl Panic | Inl (Err e) \<Rightarrow> fail (f e) | Inr x \<Rightarrow> Inr x)"

lemma bind_res_simps [simp]:
  "bind_res (Inl e) f = Inl e"
  "bind_res (Inr x) f = f x"
  by (simp_all add: bind_res_def)

lemma bind_res_eq_Inr:
  "bind_res m f = Inr y \<longleftrightarrow> (\<exists>x. m = Inr x \<and> f x = Inr y)"
  by (cases m) auto

lemma bind_res_eq_Panic:
  "bind_res m f = Inl Panic \<longleftrightarrow> m = Inl Panic \<or> (\<exists>x. m = Inr x \<and> f x = Inl Panic)"
  by (cases m) auto

lemma bind_res_no_panic [no_panic, intro]:
  "m \<noteq> Inl Panic \<Longrightarrow> (\<And>x. m = Inr x \<Longrightarrow> f x \<noteq> Inl Panic) \<Longrightarrow> bind_res m f \<noteq> Inl Panic"
  by (cases m) auto

lemma bind_res_cong [fundef_cong]:
  "m = m' \<Longrightarrow> (\<And>x. m' = Inr x \<Longrightarrow> f x = f' x) \<Longrightarrow> bind_res m f = bind_res m' f'"
  by (cases m') auto

lemma wrap_err_simps [simp]:
  "wrap_err e (Inr x) = Inr x"
  "wrap_err e (Inl Panic) = Inl Panic"
  "wrap_err e (Inl (Err e')) = fail e"
  by (simp_all add: wrap_err_def)

lemma wrap_err_eq_Inr [simp]: "wrap_err e m = Inr x \<longleftrightarrow> m = Inr x"
  by (auto simp: wrap_err_def split: sum.splits fault.splits)

lemma wrap_err_eq_Panic [simp]: "wrap_err e m = Inl Panic \<longleftrightarrow> m = Inl Panic"
  by (auto simp: wrap_err_def split: sum.splits fault.splits)

lemma lift_err_simps [simp]:
  "lift_err f (Inr x) = Inr x"
  "lift_err f (Inl Panic) = Inl Panic"
  "lift_err f (Inl (Err e)) = fail (f e)"
  by (simp_all add: lift_err_def)

lemma lift_err_eq_Inr [simp]: "lift_err f m = Inr x \<longleftrightarrow> m = Inr x"
  by (auto simp: lift_err_def split: sum.splits fault.splits)

lemma lift_err_eq_Panic [simp]: "lift_err f m = Inl Panic \<longleftrightarrow> m = Inl Panic"
  by (auto simp: lift_err_def split: sum.splits fault.splits)

section \<open>Words\<close>

lemma unat_bound: "unat (w :: 'w::len word) < 2 ^ LENGTH('w)"
  by (rule unsigned_less)

lemma unat_of_nat_small: "n < 2 ^ LENGTH('w::len) \<Longrightarrow> unat (of_nat n :: 'w word) = n"
  by (simp add: unat_of_nat)

lemma of_nat_word_inj:
  assumes "m < 2 ^ LENGTH('w::len)" "n < 2 ^ LENGTH('w)"
  shows "(of_nat m :: 'w word) = of_nat n \<longleftrightarrow> m = n"
proof
  assume "(of_nat m :: 'w word) = of_nat n"
  then have "unat (of_nat m :: 'w word) = unat (of_nat n :: 'w word)" by (rule arg_cong)
  then show "m = n" unfolding assms [THEN unat_of_nat_small] .
qed simp

section \<open>Bounds-checked access to slices\<close>

definition index_at :: "'a list \<Rightarrow> nat \<Rightarrow> ('e, 'a) res" where
  "index_at xs i = (if i < length xs then Inr (xs ! i) else Inl Panic)"

definition slice_range :: "'a list \<Rightarrow> nat \<Rightarrow> nat \<Rightarrow> ('e, 'a list) res" where
  "slice_range xs lo hi =
     (if lo \<le> hi \<and> hi \<le> length xs then Inr (take (hi - lo) (drop lo xs)) else Inl Panic)"

definition slice_from :: "'a list \<Rightarrow> nat \<Rightarrow> ('e, 'a list) res" where
  "slice_from xs lo = (if lo \<le> length xs then Inr (drop lo xs) else Inl Panic)"

lemma index_at_Inr [simp]: "i < length xs \<Longrightarrow> index_at xs i = Inr (xs ! i)"
  by (simp add: index_at_def)

lemma slice_range_Inr [simp]:
  "lo \<le> hi \<Longrightarrow> hi \<le> length xs \<Longrightarrow> slice_range xs lo hi = Inr (take (hi - lo) (drop lo xs))"
  by (simp add: slice_range_def)

lemma slice_from_Inr [simp]: "lo \<le> length xs \<Longrightarrow> slice_from xs lo = Inr (drop lo xs)"
  by (simp add: slice_from_def)

definition update_at :: "'a list \<Rightarrow> nat \<Rightarrow> 'a \<Rightarrow> ('e, 'a list) res" where
  "update_at xs i x = (if i < length xs then Inr (xs[i := x]) else Inl Panic)"

lemma update_at_Inr [simp]: "i < length xs \<Longrightarrow> update_at xs i x = Inr (xs[i := x])"
  by (simp add: update_at_def)

text \<open>\<^verbatim>\<open>copy(dst[off:], src)\<close>: as many elements as fit.\<close>

definition copy_at :: "'a list \<Rightarrow> nat \<Rightarrow> 'a list \<Rightarrow> 'a list" where
  "copy_at dst off src =
     (let n = min (length dst - off) (length src)
      in take off dst @ take n src @ drop (off + n) dst)"

section \<open>Byte order\<close>

text \<open>\<^verbatim>\<open>binary.BigEndian\<close> and \<^verbatim>\<open>binary.LittleEndian\<close>; a read of a slice that is too short panics.\<close>

definition put_be16 :: "u16 \<Rightarrow> bytes" where
  "put_be16 w = [ucast (drop_bit 8 w), ucast w]"

definition put_be32 :: "u32 \<Rightarrow> bytes" where
  "put_be32 w = [ucast (drop_bit 24 w), ucast (drop_bit 16 w), ucast (drop_bit 8 w), ucast w]"

definition put_le32 :: "u32 \<Rightarrow> bytes" where
  "put_le32 w = [ucast w, ucast (drop_bit 8 w), ucast (drop_bit 16 w), ucast (drop_bit 24 w)]"

definition be16 :: "u8 \<Rightarrow> u8 \<Rightarrow> u16" where
  "be16 a b = push_bit 8 (ucast a) OR ucast b"

definition be32 :: "u8 \<Rightarrow> u8 \<Rightarrow> u8 \<Rightarrow> u8 \<Rightarrow> u32" where
  "be32 a b c d = push_bit 24 (ucast a) OR push_bit 16 (ucast b) OR push_bit 8 (ucast c) OR ucast d"

fun get_be16 :: "bytes \<Rightarrow> ('e, u16) res" where
  "get_be16 (a # b # _) = Inr (be16 a b)"
| "get_be16 _ = Inl Panic"

fun get_be32 :: "bytes \<Rightarrow> ('e, u32) res" where
  "get_be32 (a # b # c # d # _) = Inr (be32 a b c d)"
| "get_be32 _ = Inl Panic"

fun get_le32 :: "bytes \<Rightarrow> ('e, u32) res" where
  "get_le32 (a # b # c # d # _) = Inr (be32 d c b a)"
| "get_le32 _ = Inl Panic"

lemma length_put [simp]:
  "length (put_be16 w) = 2" "length (put_be32 v) = 4" "length (put_le32 v) = 4"
  by (simp_all add: put_be16_def put_be32_def put_le32_def)

lemma bit_u8_high [simp]: "8 \<le> n \<Longrightarrow> \<not> bit (w :: u8) n"
  by (auto dest: bit_imp_le_length)

lemma be16_split [simp]: "be16 (ucast (drop_bit 8 w)) (ucast w) = (w :: u16)"
  unfolding be16_def by (rule bit_word_eqI) (auto simp: bit_simps not_le less_diff_conv)

lemma be32_split [simp]:
  "be32 (ucast (drop_bit 24 w)) (ucast (drop_bit 16 w)) (ucast (drop_bit 8 w)) (ucast w) = (w :: u32)"
proof (rule bit_word_eqI)
  fix n :: nat
  assume "n < LENGTH(32)"
  then consider "n < 8" | "8 \<le> n" "n < 16" | "16 \<le> n" "n < 24" | "24 \<le> n" "n < 32"
    by fastforce
  then show "bit (be32 (ucast (drop_bit 24 w)) (ucast (drop_bit 16 w)) (ucast (drop_bit 8 w)) (ucast w)) n
      = bit w n"
    by cases (auto simp: be32_def bit_simps)
qed

lemma get_put_be16 [simp, codec]: "get_be16 (put_be16 w @ xs) = Inr w"
  by (simp add: put_be16_def)

lemma get_put_be32 [simp, codec]: "get_be32 (put_be32 w @ xs) = Inr w"
  by (simp add: put_be32_def)

lemma get_put_le32 [simp, codec]: "get_le32 (put_le32 w @ xs) = Inr w"
  by (simp add: put_le32_def)

lemma get_be16_long: "2 \<le> length xs \<Longrightarrow> get_be16 xs = Inr (be16 (xs ! 0) (xs ! 1))"
  by (cases xs rule: get_be16.cases) auto

lemma get_be32_long:
  "4 \<le> length xs \<Longrightarrow> get_be32 xs = Inr (be32 (xs ! 0) (xs ! 1) (xs ! 2) (xs ! 3))"
  by (cases xs rule: get_be32.cases) auto

lemma get_le32_long:
  "4 \<le> length xs \<Longrightarrow> get_le32 xs = Inr (be32 (xs ! 3) (xs ! 2) (xs ! 1) (xs ! 0))"
  by (cases xs rule: get_le32.cases) auto

lemma get_no_panic [no_panic]:
  "2 \<le> length xs \<Longrightarrow> get_be16 xs \<noteq> Inl Panic"
  "4 \<le> length xs \<Longrightarrow> get_be32 xs \<noteq> Inl Panic"
  "4 \<le> length xs \<Longrightarrow> get_le32 xs \<noteq> Inl Panic"
  by (simp_all add: get_be16_long get_be32_long get_le32_long)

lemma put_be16_be16 [simp]: "put_be16 (be16 a b) = [a, b]"
  unfolding put_be16_def be16_def
  by (auto intro!: bit_word_eqI simp: bit_simps)

lemma put_be32_be32 [simp]: "put_be32 (be32 a b c d) = [a, b, c, d]"
  unfolding put_be32_def be32_def
  by (auto intro!: bit_word_eqI simp: bit_simps)

text \<open>\<^verbatim>\<open>binary.BigEndian.Uint16(raw[off:])\<close> and its 32-bit version.\<close>

definition get_be16_at :: "bytes \<Rightarrow> nat \<Rightarrow> ('e, u16) res" where
  "get_be16_at raw off = bind_res (slice_from raw off) get_be16"

definition get_be32_at :: "bytes \<Rightarrow> nat \<Rightarrow> ('e, u32) res" where
  "get_be32_at raw off = bind_res (slice_from raw off) get_be32"

lemma get_be16_at_long:
  "off + 2 \<le> length raw \<Longrightarrow> get_be16_at raw off = Inr (be16 (raw ! off) (raw ! (off + 1)))"
  by (simp add: get_be16_at_def get_be16_long)

lemma get_be32_at_long:
  "off + 4 \<le> length raw \<Longrightarrow>
   get_be32_at raw off = Inr (be32 (raw ! off) (raw ! (off + 1)) (raw ! (off + 2)) (raw ! (off + 3)))"
  by (simp add: get_be32_at_def get_be32_long)

lemma get_at_no_panic [no_panic]:
  "off + 2 \<le> length raw \<Longrightarrow> get_be16_at raw off \<noteq> Inl Panic"
  "off + 4 \<le> length raw \<Longrightarrow> get_be32_at raw off \<noteq> Inl Panic"
  by (simp_all add: get_be16_at_long get_be32_at_long)

lemma get_be16_put [simp, codec]: "get_be16 (put_be16 w) = Inr w"
  using get_put_be16 [of w "[]"] by simp

lemma get_be32_put [simp, codec]: "get_be32 (put_be32 w) = Inr w"
  using get_put_be32 [of w "[]"] by simp

text \<open>Reading a field of a concatenation: skip the fields before it.\<close>

lemma get_at_append [codec]:
  "length xs \<le> off \<Longrightarrow> get_be16_at (xs @ ys) off = get_be16_at ys (off - length xs)"
  "length xs \<le> off \<Longrightarrow> get_be32_at (xs @ ys) off = get_be32_at ys (off - length xs)"
  by (auto simp: get_be16_at_def get_be32_at_def slice_from_def)

lemma get_at_0 [codec]:
  "get_be16_at xs 0 = get_be16 xs" "get_be32_at xs 0 = get_be32 xs"
  by (simp_all add: get_be16_at_def get_be32_at_def)

section \<open>Sequences of fixed-width items\<close>

text \<open>
  The loop \<^verbatim>\<open>for i := range out { out[i] = decode(raw[off:]); off += w }\<close>, for an item of
  \<open>w\<close> bytes. The locale states what an item codec promises; the round trip and the absence
  of panics of the loop follow for every codec.
\<close>

fun decode_seq :: "(bytes \<Rightarrow> ('e, 'a) res) \<Rightarrow> nat \<Rightarrow> bytes \<Rightarrow> nat \<Rightarrow> nat \<Rightarrow> ('e, 'a list) res" where
  "decode_seq get w raw off 0 = Inr []"
| "decode_seq get w raw off (Suc n) =
     bind_res (bind_res (slice_from raw off) get) (\<lambda>x.
     bind_res (decode_seq get w raw (off + w) n) (\<lambda>xs. Inr (x # xs)))"

locale fixed_codec =
  fixes put :: "'a \<Rightarrow> bytes" and get :: "bytes \<Rightarrow> ('e, 'a) res" and w :: nat
  assumes get_put: "get (put x @ r) = Inr x"
    and length_put_item: "length (put x) = w"
    and get_long: "w \<le> length bs \<Longrightarrow> \<exists>x. get bs = Inr x"
begin

lemma length_concat_put: "length (concat (map put xs)) = w * length xs"
  by (induction xs) (simp_all add: length_put_item)

lemma decode_seq_concat:
  "off = length pre \<Longrightarrow> n = length xs \<Longrightarrow>
   decode_seq get w (pre @ concat (map put xs) @ rest) off n = Inr xs"
proof (induction xs arbitrary: pre off n)
  case Nil
  then show ?case by simp
next
  case (Cons x xs)
  have "decode_seq get w ((pre @ put x) @ concat (map put xs) @ rest) (off + w) (length xs) = Inr xs"
    using Cons.prems by (intro Cons.IH) (simp_all add: length_put_item)
  with Cons.prems show ?case by (simp add: get_put)
qed

lemma decode_seq_long: "off + w * n \<le> length raw \<Longrightarrow> \<exists>xs. decode_seq get w raw off n = Inr xs \<and> length xs = n"
proof (induction n arbitrary: off)
  case (Suc n)
  obtain x where "get (drop off raw) = Inr x"
    using get_long [of "drop off raw"] Suc.prems by (auto simp: le_diff_conv2)
  moreover obtain xs where "decode_seq get w raw (off + w) n = Inr xs" "length xs = n"
    using Suc.IH [of "off + w"] Suc.prems by auto
  ultimately show ?case using Suc.prems by simp
qed simp

lemma decode_seq_no_panic: "off + w * n \<le> length raw \<Longrightarrow> decode_seq get w raw off n \<noteq> Inl Panic"
  using decode_seq_long by fastforce

end

interpretation codec16: fixed_codec put_be16 get_be16 2
  by unfold_locales (simp_all add: get_be16_long)

interpretation codec32: fixed_codec put_be32 get_be32 4
  by unfold_locales (simp_all add: get_be32_long)

end
