(* ===== verification/Sctp_Util.thy ===== *)
theory Sctp_Util
  imports Prelude
begin

text \<open>
  \<^verbatim>\<open>sctp/util.go\<close>: padding and serial number arithmetic (RFC 1982). The comparisons are
  characterised by the modular distance between their arguments; the laws are proved once in
  the locale \<open>serial_arith\<close> and interpreted for the 32-bit (TSN) and 16-bit (SSN) versions.
\<close>

section \<open>Padding\<close>

definition paddingMultiple :: nat where
  "paddingMultiple = 4"

definition getPadding :: "nat \<Rightarrow> nat" where
  "getPadding l = (paddingMultiple - (l mod paddingMultiple)) mod paddingMultiple"

definition padByte :: "bytes \<Rightarrow> int \<Rightarrow> bytes" where
  "padByte xs cnt = (let cnt = (if cnt < 0 then 0 else cnt) in xs @ replicate (nat cnt) 0)"

section \<open>Serial number arithmetic\<close>

definition sna32LT :: "u32 \<Rightarrow> u32 \<Rightarrow> bool" where
  "sna32LT i1 i2 \<longleftrightarrow> (i1 < i2 \<and> i2 - i1 < push_bit 31 1) \<or> (i1 > i2 \<and> i1 - i2 > push_bit 31 1)"

definition sna32LTE :: "u32 \<Rightarrow> u32 \<Rightarrow> bool" where
  "sna32LTE i1 i2 \<longleftrightarrow> i1 = i2 \<or> sna32LT i1 i2"

definition sna32GT :: "u32 \<Rightarrow> u32 \<Rightarrow> bool" where
  "sna32GT i1 i2 \<longleftrightarrow> (i1 < i2 \<and> i2 - i1 \<ge> push_bit 31 1) \<or> (i1 > i2 \<and> i1 - i2 \<le> push_bit 31 1)"

definition sna32GTE :: "u32 \<Rightarrow> u32 \<Rightarrow> bool" where
  "sna32GTE i1 i2 \<longleftrightarrow> i1 = i2 \<or> sna32GT i1 i2"

definition sna32EQ :: "u32 \<Rightarrow> u32 \<Rightarrow> bool" where
  "sna32EQ i1 i2 \<longleftrightarrow> i1 = i2"

definition sna16LT :: "u16 \<Rightarrow> u16 \<Rightarrow> bool" where
  "sna16LT i1 i2 \<longleftrightarrow> (i1 < i2 \<and> i2 - i1 < push_bit 15 1) \<or> (i1 > i2 \<and> i1 - i2 > push_bit 15 1)"

definition sna16LTE :: "u16 \<Rightarrow> u16 \<Rightarrow> bool" where
  "sna16LTE i1 i2 \<longleftrightarrow> i1 = i2 \<or> sna16LT i1 i2"

definition sna16GT :: "u16 \<Rightarrow> u16 \<Rightarrow> bool" where
  "sna16GT i1 i2 \<longleftrightarrow> (i1 < i2 \<and> i2 - i1 \<ge> push_bit 15 1) \<or> (i1 > i2 \<and> i1 - i2 \<le> push_bit 15 1)"

definition sna16GTE :: "u16 \<Rightarrow> u16 \<Rightarrow> bool" where
  "sna16GTE i1 i2 \<longleftrightarrow> i1 = i2 \<or> sna16GT i1 i2"

definition sna16EQ :: "u16 \<Rightarrow> u16 \<Rightarrow> bool" where
  "sna16EQ i1 i2 \<longleftrightarrow> i1 = i2"

section \<open>Padding lemmas\<close>

lemma getPadding_simps:
  "l mod 4 = 0 \<Longrightarrow> getPadding l = 0"
  "l mod 4 = 1 \<Longrightarrow> getPadding l = 3"
  "l mod 4 = 2 \<Longrightarrow> getPadding l = 2"
  "l mod 4 = 3 \<Longrightarrow> getPadding l = 1"
  by (simp_all add: getPadding_def paddingMultiple_def)

lemma getPadding_less [simp]: "getPadding l < 4"
  by (simp add: getPadding_def paddingMultiple_def)

lemma mod4_cases:
  obtains "l mod 4 = (0::nat)" | "l mod 4 = 1" | "l mod 4 = 2" | "l mod 4 = 3"
  by linarith

lemma getPadding_aligned [simp]: "(l + getPadding l) mod 4 = 0"
  by (cases l rule: mod4_cases) (simp_all add: getPadding_simps, presburger+)

lemma getPadding_dvd [simp]: "4 dvd (l + getPadding l)"
  by (simp add: dvd_eq_mod_eq_0)

lemma getPadding_add_mult: "k mod 4 = 0 \<Longrightarrow> getPadding (k + l) = getPadding l"
  by (simp add: getPadding_def paddingMultiple_def mod_add_left_eq [of k, symmetric])

lemma getPadding_0_iff: "getPadding l = 0 \<longleftrightarrow> l mod 4 = 0"
  by (cases l rule: mod4_cases) (simp_all add: getPadding_simps)

lemma padByte_of_nat [simp]: "padByte xs (int n) = xs @ replicate n 0"
  by (simp add: padByte_def)

section \<open>Laws of serial number arithmetic\<close>

lemma unat_diff_swap:
  fixes a b :: "'w::len word"
  assumes "a \<noteq> b"
  shows "unat (a - b) = 2 ^ LENGTH('w) - unat (b - a)"
proof -
  define N :: nat where "N = 2 ^ LENGTH('w)"
  have "unat a \<noteq> unat b" using assms by (simp add: word_unat_eq_iff)
  moreover have "unat a < N" "unat b < N" by (simp_all add: N_def)
  moreover have "unat (a - b) = (if unat b \<le> unat a then unat a - unat b else unat a + N - unat b)"
    "unat (b - a) = (if unat a \<le> unat b then unat b - unat a else unat b + N - unat a)"
    by (simp_all only: unat_sub_if' N_def)
  ultimately show ?thesis unfolding N_def [symmetric] by (auto split: if_splits)
qed

lemma unat_window:
  fixes c :: "'w::len word"
  assumes "m \<le> n" "n - m < 2 ^ LENGTH('w)"
  shows "unat ((c + of_nat n) - (c + of_nat m)) = n - m"
proof -
  have "(c + of_nat n) - (c + of_nat m) = (of_nat (n - m) :: 'w word)"
    using assms(1) by (simp add: of_nat_diff)
  then show ?thesis using assms(2) by (simp add: unat_of_nat_small)
qed

text \<open>
  What a client relies on: each comparison is a statement about the modular distance, with
  half of the number space as the horizon.
\<close>

locale serial_arith =
  fixes lt lte gt gte :: "'w::len word \<Rightarrow> 'w word \<Rightarrow> bool"
  assumes lt_dist: "lt a b \<longleftrightarrow> 0 < unat (b - a) \<and> unat (b - a) < 2 ^ (LENGTH('w) - 1)"
    and gt_dist: "gt a b \<longleftrightarrow> 0 < unat (a - b) \<and> unat (a - b) \<le> 2 ^ (LENGTH('w) - 1)"
    and lte_iff: "lte a b \<longleftrightarrow> a = b \<or> lt a b"
    and gte_iff: "gte a b \<longleftrightarrow> a = b \<or> gt a b"
begin

lemma lte_dist: "lte a b \<longleftrightarrow> unat (b - a) < 2 ^ (LENGTH('w) - 1)"
proof (cases "a = b")
  case True
  then show ?thesis by (simp add: lte_iff)
next
  case False
  then have "0 < unat (b - a)" by (simp add: unat_gt_0)
  with False show ?thesis by (simp add: lte_iff lt_dist)
qed

lemma half: "(2::nat) ^ LENGTH('w) = 2 * 2 ^ (LENGTH('w) - 1)"
  using power_eq_if [of "2::nat" "LENGTH('w)"] by simp

lemma gt_iff_not_lte: "gt a b \<longleftrightarrow> \<not> lte a b"
proof (cases "a = b")
  case False
  have "unat (b - a) < 2 * 2 ^ (LENGTH('w) - 1)"
    unfolding half [symmetric] by (rule unat_bound)
  moreover have "unat (a - b) = 2 * 2 ^ (LENGTH('w) - 1) - unat (b - a)"
    using unat_diff_swap [OF False] half by simp
  ultimately show ?thesis unfolding gt_dist lte_dist by linarith
qed (simp add: gt_dist lte_iff)

lemma gte_iff_not_lt: "gte a b \<longleftrightarrow> \<not> lt a b"
  by (auto simp: gte_iff gt_iff_not_lte lte_iff lt_dist)

lemma lt_irrefl [simp]: "\<not> lt a a"
  by (simp add: lt_dist)

lemma lte_refl [simp]: "lte a a"
  by (simp add: lte_iff)

lemma lt_imp_gt: "lt a b \<Longrightarrow> gt b a"
  by (simp add: lt_dist gt_dist)

lemma lt_asym: "lt a b \<Longrightarrow> \<not> lt b a"
  by (meson gt_iff_not_lte lt_imp_gt lte_iff)

lemma lte_antisym: "lte a b \<Longrightarrow> lte b a \<Longrightarrow> a = b"
  unfolding lte_iff by (auto dest: lt_asym)

text \<open>Numbers counted from a common base, less than half of the space apart.\<close>

lemma lt_window:
  assumes "m < 2 ^ (LENGTH('w) - 1)" "n < 2 ^ (LENGTH('w) - 1)"
  shows "lt (c + of_nat m) (c + of_nat n) \<longleftrightarrow> m < n"
proof (cases "m < n")
  case True
  then have e: "unat ((c + of_nat n) - (c + of_nat m)) = n - m"
    using assms half by (intro unat_window) linarith+
  show ?thesis unfolding lt_dist e using True assms by linarith
next
  case False
  then have e: "unat ((c + of_nat m) - (c + of_nat n)) = m - n"
    using assms half by (intro unat_window) linarith+
  have "lte (c + of_nat n) (c + of_nat m)"
    unfolding lte_dist e using False assms by linarith
  with False show ?thesis using lt_asym lte_iff lt_irrefl by metis
qed

lemma lte_window:
  assumes "m < 2 ^ (LENGTH('w) - 1)" "n < 2 ^ (LENGTH('w) - 1)"
  shows "lte (c + of_nat m) (c + of_nat n) \<longleftrightarrow> m \<le> n"
proof -
  have "m < 2 ^ LENGTH('w)" "n < 2 ^ LENGTH('w)" using assms half by linarith+
  then have "(c + of_nat m = c + of_nat n) \<longleftrightarrow> m = n"
    unfolding add_left_cancel by (rule of_nat_word_inj)
  then show ?thesis unfolding lte_iff lt_window [OF assms] by linarith
qed

lemma gt_window:
  assumes "m < 2 ^ (LENGTH('w) - 1)" "n < 2 ^ (LENGTH('w) - 1)"
  shows "gt (c + of_nat m) (c + of_nat n) \<longleftrightarrow> n < m"
  using assms by (auto simp: gt_iff_not_lte lte_window)

end

lemma push_bit_31: "(push_bit 31 1 :: u32) = 2147483648"
  by simp

lemma sna32LT_dist: "sna32LT a b \<longleftrightarrow> 0 < unat (b - a) \<and> unat (b - a) < 2 ^ 31"
  unfolding sna32LT_def push_bit_31
  using unat_bound [of a] unat_bound [of b]
  by (auto simp: word_less_nat_alt word_le_nat_alt unat_sub_if' not_le)

lemma sna32GT_dist: "sna32GT a b \<longleftrightarrow> 0 < unat (a - b) \<and> unat (a - b) \<le> 2 ^ 31"
  unfolding sna32GT_def push_bit_31
  using unat_bound [of a] unat_bound [of b]
  by (auto simp: word_less_nat_alt word_le_nat_alt unat_sub_if' not_le)

lemma push_bit_15: "(push_bit 15 1 :: u16) = 32768"
  by simp

lemma sna16LT_dist: "sna16LT a b \<longleftrightarrow> 0 < unat (b - a) \<and> unat (b - a) < 2 ^ 15"
  unfolding sna16LT_def push_bit_15
  using unat_bound [of a] unat_bound [of b]
  by (auto simp: word_less_nat_alt word_le_nat_alt unat_sub_if' not_le)

lemma sna16GT_dist: "sna16GT a b \<longleftrightarrow> 0 < unat (a - b) \<and> unat (a - b) \<le> 2 ^ 15"
  unfolding sna16GT_def push_bit_15
  using unat_bound [of a] unat_bound [of b]
  by (auto simp: word_less_nat_alt word_le_nat_alt unat_sub_if' not_le)

lemma length_pred_numerals: "LENGTH(32) - 1 = 31" "LENGTH(16) - 1 = 15"
  by simp_all

interpretation sna32: serial_arith sna32LT sna32LTE sna32GT sna32GTE
  by (unfold_locales, unfold length_pred_numerals)
    (rule sna32LT_dist sna32GT_dist sna32LTE_def sna32GTE_def)+

interpretation sna16: serial_arith sna16LT sna16LTE sna16GT sna16GTE
  by (unfold_locales, unfold length_pred_numerals)
    (rule sna16LT_dist sna16GT_dist sna16LTE_def sna16GTE_def)+

section \<open>Properties\<close>

text \<open>C15: inside any window of half the number space the TSN comparisons are the order of the
  transmission: for numbers counted from a common base, across the wrap-around too, \<^verbatim>\<open>sna32LT\<close>,
  \<^verbatim>\<open>sna32LTE\<close>, \<^verbatim>\<open>sna32GT\<close> and \<^verbatim>\<open>sna32GTE\<close> compare the counts.\<close>

theorem sna32_orders_window:
  assumes "m < 2 ^ 31" "n < 2 ^ 31"
  shows "(sna32LT (c + of_nat m) (c + of_nat n) \<longleftrightarrow> m < n) \<and>
    (sna32LTE (c + of_nat m) (c + of_nat n) \<longleftrightarrow> m \<le> n) \<and>
    (sna32GT (c + of_nat m) (c + of_nat n) \<longleftrightarrow> m > n) \<and>
    (sna32GTE (c + of_nat m) (c + of_nat n) \<longleftrightarrow> m \<ge> n)"
proof -
  have *: "m < 2 ^ (LENGTH(32) - 1)" "n < 2 ^ (LENGTH(32) - 1)" using assms by simp_all
  show ?thesis
    unfolding sna32.lt_window [OF *] sna32.lte_window [OF *] sna32.gt_window [OF *]
      sna32.gte_iff_not_lt not_less by simp
qed

theorem sna32_orders_window_witness:
  "sna32LT (0xfffffff0 + of_nat 3) (0xfffffff0 + of_nat 40) \<and>
   sna32GT (0xfffffff0 + of_nat 40) (0xfffffff0 + of_nat 3)"
  using sna32_orders_window [of 3 40 "0xfffffff0"] sna32_orders_window [of 40 3 "0xfffffff0"] by simp

end
