(* ===== verification/Sctp_Errors.thy ===== *)
theory Sctp_Errors
  imports Prelude
begin

text \<open>
  The sentinel errors of package \<^verbatim>\<open>sctp\<close>, one constructor per
  \<^verbatim>\<open>errors.New\<close> variable, grouped by the files that declare them. A wrapped error
  (\<^verbatim>\<open>fmt.Errorf("%w: ...", Err...)\<close>) is its sentinel.
\<close>

text \<open>Errors of paramheader.go, paramtype.go and param*.go.\<close>

datatype (plugins only: code) param_err =
    ErrParamHeaderTooShort
  | ErrParamHeaderSelfReportedLengthShorter
  | ErrParamHeaderSelfReportedLengthLonger
  | ErrParamHeaderParseFailed
  | ErrParamPacketTooShort
  | ErrParamTypeUnhandled
  | ErrSSNResetRequestParamTooShort
  | ErrReconfigRespParamTooShort
  | ErrInvalidAlgorithmType
  | ErrInvalidChunkLength
  | ErrZeroChecksumParamTooShort

text \<open>Errors of error_cause*.go.\<close>

datatype (plugins only: code) cause_err =
    ErrBuildErrorCaseHandle
  | ErrInvalidSCTPChunk
  | ErrProtocolViolationUnmarshal

text \<open>Errors of chunk_init_common.go, chunk_init.go and chunk_init_ack.go.\<close>

datatype (plugins only: code) init_err =
    ErrInitChunkParseParamTypeFailed
  | ErrInitAckMarshalParam
  | ErrChunkTypeNotTypeInit
  | ErrChunkValueNotLongEnough
  | ErrChunkTypeInitFlagZero
  | ErrChunkTypeInitUnmarshalFailed
  | ErrChunkTypeInitMarshalFailed
  | ErrChunkTypeInitInitateTagZero
  | ErrInitInboundStreamRequestZero
  | ErrInitOutboundStreamRequestZero
  | ErrInitAdvertisedReceiver1500
  | ErrInitUnknownParam
  | ErrChunkTypeNotInitAck
  | ErrChunkNotLongEnoughForParams
  | ErrChunkTypeInitAckFlagZero
  | ErrInitAckUnmarshalFailed
  | ErrInitCommonDataMarshalFailed
  | ErrChunkTypeInitAckInitateTagZero
  | ErrInitAckInboundStreamRequestZero
  | ErrInitAckOutboundStreamRequestZero
  | ErrInitAckAdvertisedReceiver1500

text \<open>Errors of chunkheader.go and packet.go.\<close>

datatype (plugins only: code) header_err =
    ErrChunkHeaderTooSmall
  | ErrChunkHeaderNotEnoughSpace
  | ErrChunkHeaderPaddingNonZero
  | ErrPacketRawTooSmall
  | ErrParseSCTPChunkNotEnoughData
  | ErrUnmarshalUnknownChunkType
  | ErrChecksumMismatch

text \<open>Errors of the chunks that carry no user data.\<close>

datatype (plugins only: code) control_err =
    ErrChunkTypeNotAbort
  | ErrBuildAbortChunkFailed
  | ErrChunkTypeNotCtError
  | ErrBuildErrorChunkFailed
  | ErrChunkTypeNotHeartbeat
  | ErrHeartbeatNotLongEnoughInfo
  | ErrParseParamTypeFailed
  | ErrHeartbeatParam
  | ErrHeartbeatChunkUnmarshal
  | ErrUnimplemented
  | ErrHeartbeatAckParams
  | ErrHeartbeatAckNotHeartbeatInfo
  | ErrHeartbeatAckMarshalParam
  | ErrChunkTypeNotCookieEcho
  | ErrChunkTypeNotCookieAck
  | ErrInvalidChunkSize
  | ErrChunkTypeNotShutdown
  | ErrChunkTypeNotShutdownAck
  | ErrChunkTypeNotShutdownComplete

text \<open>Errors of chunk_payload_data.go, chunk_selective_ack.go, chunk_forward_tsn.go and chunk_reconfig.go.\<close>

datatype (plugins only: code) transfer_err =
    ErrChunkPayloadSmall
  | ErrChunkTypeNotSack
  | ErrSackSizeNotLargeEnoughInfo
  | ErrSackSizeNotMatchPredicted
  | ErrMarshalStreamFailed
  | ErrChunkTooShort
  | ErrChunkParseParamTypeFailed
  | ErrChunkMarshalParamAReconfigFailed
  | ErrChunkMarshalParamBReconfigFailed

text \<open>Errors of pending_queue.go, reassembly_queue.go, stream.go and association.go.\<close>

datatype (plugins only: code) assoc_err =
    ErrUnexpectedChuckPoppedUnordered
  | ErrUnexpectedChuckPoppedOrdered
  | ErrUnexpectedQState
  | ErrTryAgain
  | ErrShortBuffer
  | ErrEOF
  | ErrOutboundPacketTooLarge
  | ErrStreamClosed
  | ErrReadDeadlineExceeded
  | ErrChunk
  | ErrShutdownNonEstablished
  | ErrAssociationClosedBeforeConn
  | ErrAssociationClosed
  | ErrSilentlyDiscard
  | ErrInitNotStoredToSend
  | ErrCookieEchoNotStoredToSend
  | ErrSCTPPacketSourcePortZero
  | ErrSCTPPacketDestinationPortZero
  | ErrInitChunkBundled
  | ErrInitChunkVerifyTagNotZero
  | ErrHandleInitState
  | ErrInitAckNoCookie
  | ErrInflightQueueTSNPop
  | ErrTSNRequestNotExist
  | ErrResetPacketInStateNotExist
  | ErrParamterType
  | ErrPayloadDataStateNotExist
  | ErrChunkTypeUnhandled
  | ErrHandshakeInitAck
  | ErrHandshakeCookieEcho
  | ErrTooManyReconfigRequests

text \<open>\<open>ConnE\<close> is an error of the underlying \<^verbatim>\<open>net.Conn\<close> or of a context, with its text.\<close>

datatype (plugins only: code) sctp_err =
    ParamE param_err
  | CauseE cause_err
  | InitE init_err
  | HeaderE header_err
  | ControlE control_err
  | TransferE transfer_err
  | AssocE assoc_err
  | ConnE string

end
