(* ===== verification/Sctp_Param.thy ===== *)
theory Sctp_Param
  imports Sctp_Util Sctp_Errors
begin

text \<open>
  Variable-length parameters of package \<^verbatim>\<open>sctp\<close>: \<^verbatim>\<open>paramtype.go\<close>, \<^verbatim>\<open>paramheader.go\<close>,
  \<^verbatim>\<open>param.go\<close> and the eleven \<^verbatim>\<open>param_*.go\<close> files. A Go parameter struct embeds a
  \<^verbatim>\<open>paramHeader\<close> and adds its own fields; here it is a header paired with a body.
\<close>

section \<open>Parameter types\<close>

definition heartbeatInfo :: u16 where "heartbeatInfo = 1"
definition stateCookie :: u16 where "stateCookie = 7"
definition outSSNResetReq :: u16 where "outSSNResetReq = 13"
definition reconfigResp :: u16 where "reconfigResp = 16"
definition ecnCapable :: u16 where "ecnCapable = 32768"
definition zeroChecksumAcceptable :: u16 where "zeroChecksumAcceptable = 32769"
definition random :: u16 where "random = 32770"
definition chunkList :: u16 where "chunkList = 32771"
definition reqHMACAlgo :: u16 where "reqHMACAlgo = 32772"
definition supportedExt :: u16 where "supportedExt = 32776"
definition forwardTSNSupp :: u16 where "forwardTSNSupp = 49152"

lemmas paramType_defs = heartbeatInfo_def stateCookie_def outSSNResetReq_def reconfigResp_def
  ecnCapable_def zeroChecksumAcceptable_def random_def chunkList_def reqHMACAlgo_def
  supportedExt_def forwardTSNSupp_def

definition parseParamType :: "bytes \<Rightarrow> (param_err, u16) res" where
  "parseParamType raw = (if length raw < 2 then fail ErrParamPacketTooShort else get_be16 raw)"

section \<open>The parameter header\<close>

record paramHeader =
  ph_typ :: u16
  ph_unrecognizedAction :: u8
  ph_len :: nat
  ph_raw :: bytes

definition paramHeaderLength :: nat where "paramHeaderLength = 4"
definition paramHeaderUnrecognizedActionMask :: u8 where "paramHeaderUnrecognizedActionMask = 0b11000000"
definition paramHeaderUnrecognizedActionStop :: u8 where "paramHeaderUnrecognizedActionStop = 0b00000000"
definition paramHeaderUnrecognizedActionStopAndReport :: u8 where
  "paramHeaderUnrecognizedActionStopAndReport = 0b01000000"

definition paramHeader_marshal :: "u16 \<Rightarrow> bytes \<Rightarrow> (param_err, bytes) res" where
  "paramHeader_marshal typ raw =
     (let paramLengthPlusHeader = paramHeaderLength + length raw
      in ok (put_be16 typ @ put_be16 (of_nat paramLengthPlusHeader) @ raw))"

definition paramHeader_unmarshal :: "bytes \<Rightarrow> (param_err, paramHeader) res" where
  "paramHeader_unmarshal raw =
     (if length raw < paramHeaderLength then fail ErrParamHeaderTooShort
      else bind_res (get_be16_at raw 2) (\<lambda>paramLengthPlusHeader.
        if unat paramLengthPlusHeader < paramHeaderLength
        then fail ErrParamHeaderSelfReportedLengthShorter
        else if length raw < unat paramLengthPlusHeader
        then fail ErrParamHeaderSelfReportedLengthLonger
        else bind_res (wrap_err ErrParamHeaderParseFailed (parseParamType raw)) (\<lambda>typ.
          bind_res (index_at raw 0) (\<lambda>b0.
          bind_res (slice_range raw paramHeaderLength (unat paramLengthPlusHeader)) (\<lambda>v.
            ok \<lparr>ph_typ = typ,
                ph_unrecognizedAction = b0 AND paramHeaderUnrecognizedActionMask,
                ph_len = unat paramLengthPlusHeader,
                ph_raw = v\<rparr>)))))"

section \<open>The parameters\<close>

definition hmacSHA128 :: u16 where "hmacSHA128 = 1"
definition hmacSHA256 :: u16 where "hmacSHA256 = 3"

datatype param_body =
    ParamForwardTSNSupported
  | ParamSupportedExtensions "u8 list"
  | ParamECNCapable
  | ParamRandom bytes
  | ParamRequestedHMACAlgorithm "u16 list"
  | ParamChunkList "u8 list"
  | ParamStateCookie bytes
  | ParamHeartbeatInfo bytes
  | ParamOutgoingResetRequest u32 u32 u32 "u16 list"
  | ParamReconfigResponse u32 u32
  | ParamZeroChecksumAcceptable u32

type_synonym param = "paramHeader \<times> param_body"

abbreviation param_length :: "param \<Rightarrow> nat" where
  "param_length p \<equiv> ph_len (fst p)"

text \<open>The type and the value bytes that the \<^verbatim>\<open>marshal\<close> methods put in the header.\<close>

fun param_typ :: "param_body \<Rightarrow> u16" where
  "param_typ ParamForwardTSNSupported = forwardTSNSupp"
| "param_typ (ParamSupportedExtensions _) = supportedExt"
| "param_typ ParamECNCapable = ecnCapable"
| "param_typ (ParamRandom _) = random"
| "param_typ (ParamRequestedHMACAlgorithm _) = reqHMACAlgo"
| "param_typ (ParamChunkList _) = chunkList"
| "param_typ (ParamStateCookie _) = stateCookie"
| "param_typ (ParamHeartbeatInfo _) = heartbeatInfo"
| "param_typ (ParamOutgoingResetRequest _ _ _ _) = outSSNResetReq"
| "param_typ (ParamReconfigResponse _ _) = reconfigResp"
| "param_typ (ParamZeroChecksumAcceptable _) = zeroChecksumAcceptable"

definition paramOutgoingResetRequest_raw :: "u32 \<Rightarrow> u32 \<Rightarrow> u32 \<Rightarrow> u16 list \<Rightarrow> bytes" where
  "paramOutgoingResetRequest_raw req resp lastTSN sids =
     put_be32 req @ put_be32 resp @ put_be32 lastTSN @ concat (map put_be16 sids)"

fun param_raw :: "param_body \<Rightarrow> bytes" where
  "param_raw ParamForwardTSNSupported = []"
| "param_raw (ParamSupportedExtensions ts) = ts"
| "param_raw ParamECNCapable = []"
| "param_raw (ParamRandom d) = d"
| "param_raw (ParamRequestedHMACAlgorithm as) = concat (map put_be16 as)"
| "param_raw (ParamChunkList ts) = ts"
| "param_raw (ParamStateCookie c) = c"
| "param_raw (ParamHeartbeatInfo h) = h"
| "param_raw (ParamOutgoingResetRequest req resp lastTSN sids) =
     paramOutgoingResetRequest_raw req resp lastTSN sids"
| "param_raw (ParamReconfigResponse sn result) = put_be32 sn @ put_be32 result"
| "param_raw (ParamZeroChecksumAcceptable edmid) = put_be32 edmid"

definition param_marshal :: "param_body \<Rightarrow> (param_err, bytes) res" where
  "param_marshal p = paramHeader_marshal (param_typ p) (param_raw p)"

definition paramForwardTSNSupported_unmarshal :: "bytes \<Rightarrow> (param_err, param) res" where
  "paramForwardTSNSupported_unmarshal raw =
     bind_res (paramHeader_unmarshal raw) (\<lambda>h. ok (h, ParamForwardTSNSupported))"

definition paramSupportedExtensions_unmarshal :: "bytes \<Rightarrow> (param_err, param) res" where
  "paramSupportedExtensions_unmarshal raw =
     bind_res (paramHeader_unmarshal raw) (\<lambda>h. ok (h, ParamSupportedExtensions (ph_raw h)))"

definition paramECNCapable_unmarshal :: "bytes \<Rightarrow> (param_err, param) res" where
  "paramECNCapable_unmarshal raw =
     bind_res (paramHeader_unmarshal raw) (\<lambda>h. ok (h, ParamECNCapable))"

definition paramRandom_unmarshal :: "bytes \<Rightarrow> (param_err, param) res" where
  "paramRandom_unmarshal raw =
     bind_res (paramHeader_unmarshal raw) (\<lambda>h. ok (h, ParamRandom (ph_raw h)))"

text \<open>The loop of \<^verbatim>\<open>paramRequestedHMACAlgorithm.unmarshal\<close>, two bytes per round.\<close>

fun hmacAlgorithms :: "bytes \<Rightarrow> (param_err, u16 list) res" where
  "hmacAlgorithms (a # b # rest) =
     (let alg = be16 a b
      in if alg = hmacSHA128 \<or> alg = hmacSHA256
         then bind_res (hmacAlgorithms rest) (\<lambda>as. ok (alg # as))
         else fail ErrInvalidAlgorithmType)"
| "hmacAlgorithms [_] = Inl Panic"
| "hmacAlgorithms [] = ok []"

definition paramRequestedHMACAlgorithm_unmarshal :: "bytes \<Rightarrow> (param_err, param) res" where
  "paramRequestedHMACAlgorithm_unmarshal raw =
     bind_res (paramHeader_unmarshal raw) (\<lambda>h.
       if length (ph_raw h) mod 2 = 1 then fail ErrInvalidChunkLength
       else bind_res (hmacAlgorithms (ph_raw h)) (\<lambda>as. ok (h, ParamRequestedHMACAlgorithm as)))"

definition paramChunkList_unmarshal :: "bytes \<Rightarrow> (param_err, param) res" where
  "paramChunkList_unmarshal raw =
     bind_res (paramHeader_unmarshal raw) (\<lambda>h. ok (h, ParamChunkList (ph_raw h)))"

definition paramStateCookie_unmarshal :: "bytes \<Rightarrow> (param_err, param) res" where
  "paramStateCookie_unmarshal raw =
     bind_res (paramHeader_unmarshal raw) (\<lambda>h. ok (h, ParamStateCookie (ph_raw h)))"

definition paramHeartbeatInfo_unmarshal :: "bytes \<Rightarrow> (param_err, param) res" where
  "paramHeartbeatInfo_unmarshal raw =
     bind_res (paramHeader_unmarshal raw) (\<lambda>h. ok (h, ParamHeartbeatInfo (ph_raw h)))"

definition paramOutgoingResetRequestStreamIdentifiersOffset :: nat where
  "paramOutgoingResetRequestStreamIdentifiersOffset = 12"

definition paramOutgoingResetRequest_unmarshal :: "bytes \<Rightarrow> (param_err, param) res" where
  "paramOutgoingResetRequest_unmarshal raw =
     bind_res (paramHeader_unmarshal raw) (\<lambda>h.
       if length (ph_raw h) < paramOutgoingResetRequestStreamIdentifiersOffset
       then fail ErrSSNResetRequestParamTooShort
       else bind_res (get_be32_at (ph_raw h) 0) (\<lambda>req.
            bind_res (get_be32_at (ph_raw h) 4) (\<lambda>resp.
            bind_res (get_be32_at (ph_raw h) 8) (\<lambda>lastTSN.
              let lim = (length (ph_raw h) - paramOutgoingResetRequestStreamIdentifiersOffset) div 2
              in bind_res (decode_seq get_be16 2 (ph_raw h)
                             paramOutgoingResetRequestStreamIdentifiersOffset lim) (\<lambda>sids.
                   ok (h, ParamOutgoingResetRequest req resp lastTSN sids))))))"

definition paramReconfigResponse_unmarshal :: "bytes \<Rightarrow> (param_err, param) res" where
  "paramReconfigResponse_unmarshal raw =
     bind_res (paramHeader_unmarshal raw) (\<lambda>h.
       if length (ph_raw h) < 8 then fail ErrReconfigRespParamTooShort
       else bind_res (get_be32_at (ph_raw h) 0) (\<lambda>sn.
            bind_res (get_be32_at (ph_raw h) 4) (\<lambda>result.
              ok (h, ParamReconfigResponse sn result))))"

definition paramZeroChecksumAcceptable_unmarshal :: "bytes \<Rightarrow> (param_err, param) res" where
  "paramZeroChecksumAcceptable_unmarshal raw =
     bind_res (paramHeader_unmarshal raw) (\<lambda>h.
       if length (ph_raw h) < 4 then fail ErrZeroChecksumParamTooShort
       else bind_res (get_be32_at (ph_raw h) 0) (\<lambda>edmid.
              ok (h, ParamZeroChecksumAcceptable edmid)))"

definition buildParam :: "u16 \<Rightarrow> bytes \<Rightarrow> (param_err, param) res" where
  "buildParam typeParam rawParam =
     (if typeParam = forwardTSNSupp then paramForwardTSNSupported_unmarshal rawParam
      else if typeParam = supportedExt then paramSupportedExtensions_unmarshal rawParam
      else if typeParam = ecnCapable then paramECNCapable_unmarshal rawParam
      else if typeParam = random then paramRandom_unmarshal rawParam
      else if typeParam = reqHMACAlgo then paramRequestedHMACAlgorithm_unmarshal rawParam
      else if typeParam = chunkList then paramChunkList_unmarshal rawParam
      else if typeParam = stateCookie then paramStateCookie_unmarshal rawParam
      else if typeParam = heartbeatInfo then paramHeartbeatInfo_unmarshal rawParam
      else if typeParam = outSSNResetReq then paramOutgoingResetRequest_unmarshal rawParam
      else if typeParam = reconfigResp then paramReconfigResponse_unmarshal rawParam
      else if typeParam = zeroChecksumAcceptable then paramZeroChecksumAcceptable_unmarshal rawParam
      else fail ErrParamTypeUnhandled)"

lemmas param_unmarshal_defs =
  paramForwardTSNSupported_unmarshal_def paramSupportedExtensions_unmarshal_def
  paramECNCapable_unmarshal_def paramRandom_unmarshal_def
  paramRequestedHMACAlgorithm_unmarshal_def paramChunkList_unmarshal_def
  paramStateCookie_unmarshal_def paramHeartbeatInfo_unmarshal_def
  paramOutgoingResetRequest_unmarshal_def paramReconfigResponse_unmarshal_def
  paramZeroChecksumAcceptable_unmarshal_def

section \<open>The header round trip\<close>

text \<open>The header a receiver reconstructs for a parameter that was marshalled.\<close>

definition param_header_of :: "param_body \<Rightarrow> paramHeader" where
  "param_header_of p =
     \<lparr>ph_typ = param_typ p,
      ph_unrecognizedAction = ucast (drop_bit 8 (param_typ p)) AND paramHeaderUnrecognizedActionMask,
      ph_len = paramHeaderLength + length (param_raw p),
      ph_raw = param_raw p\<rparr>"

text \<open>The bodies that a \<^verbatim>\<open>uint16\<close> length field and the accepted algorithms can represent.\<close>

fun wf_param :: "param_body \<Rightarrow> bool" where
  "wf_param (ParamRequestedHMACAlgorithm as) \<longleftrightarrow>
     set as \<subseteq> {hmacSHA128, hmacSHA256} \<and> 4 + 2 * length as < 2 ^ 16"
| "wf_param p \<longleftrightarrow> 4 + length (param_raw p) < 2 ^ 16"

lemma wf_param_length: "wf_param p \<Longrightarrow> 4 + length (param_raw p) < 2 ^ 16"
  by (cases p) (simp_all add: codec16.length_concat_put)

lemma paramHeader_roundtrip:
  assumes "4 + length raw < 2 ^ 16"
  shows "paramHeader_unmarshal (put_be16 typ @ put_be16 (of_nat (4 + length raw)) @ raw @ rest) =
    ok \<lparr>ph_typ = typ,
        ph_unrecognizedAction = ucast (drop_bit 8 typ) AND paramHeaderUnrecognizedActionMask,
        ph_len = 4 + length raw, ph_raw = raw\<rparr>"
proof -
  have len: "unat (of_nat (4 + length raw) :: u16) = 4 + length raw"
    using assms by (intro unat_of_nat_small) simp
  define l :: u16 where "l = of_nat (4 + length raw)"
  have "unat l = 4 + length raw" using len by (simp only: l_def)
  then have "paramHeader_unmarshal (put_be16 typ @ put_be16 l @ raw @ rest) =
    ok \<lparr>ph_typ = typ,
        ph_unrecognizedAction = ucast (drop_bit 8 typ) AND paramHeaderUnrecognizedActionMask,
        ph_len = 4 + length raw, ph_raw = raw\<rparr>"
    by (simp add: paramHeader_unmarshal_def paramHeaderLength_def parseParamType_def codec
        index_at_def nth_append) (simp add: put_be16_def)
  then show ?thesis by (simp only: l_def)
qed

lemma paramHeader_unmarshal_Inr:
  assumes "paramHeader_unmarshal raw = Inr h"
  shows "4 \<le> ph_len h" "ph_len h \<le> length raw" "length (ph_raw h) = ph_len h - 4"
  using assms
  by (auto simp: paramHeader_unmarshal_def paramHeaderLength_def bind_res_eq_Inr
      slice_range_def split: if_splits)

lemma paramHeader_unmarshal_no_panic [no_panic]: "paramHeader_unmarshal raw \<noteq> Inl Panic"
  by (auto simp: paramHeader_unmarshal_def paramHeaderLength_def parseParamType_def
      get_be16_at_long get_be16_long index_at_def split: if_splits)

section \<open>The parameters round trip\<close>

lemma hmacAlgorithms_roundtrip:
  "set as \<subseteq> {hmacSHA128, hmacSHA256} \<Longrightarrow> hmacAlgorithms (concat (map put_be16 as)) = ok as"
  by (induction as) (simp_all add: put_be16_def)

lemma outgoing_sids_roundtrip:
  "decode_seq get_be16 2 (paramOutgoingResetRequest_raw req resp lastTSN sids) 12 (length sids) = ok sids"
  using codec16.decode_seq_concat [of 12 "put_be32 req @ put_be32 resp @ put_be32 lastTSN"
      "length sids" sids "[]"]
  by (simp add: paramOutgoingResetRequest_raw_def)

lemma param_header_roundtrip:
  assumes "wf_param p" "param_marshal p = ok bs"
  shows "paramHeader_unmarshal (bs @ rest) = ok (param_header_of p)"
  using paramHeader_roundtrip [OF wf_param_length [OF assms(1)], of "param_typ p" rest] assms(2)
  by (auto simp: param_marshal_def paramHeader_marshal_def paramHeaderLength_def param_header_of_def)

lemma buildParam_marshal:
  assumes "wf_param p" "param_marshal p = ok bs"
  shows "buildParam (param_typ p) (bs @ rest) = ok (param_header_of p, p)"
proof -
  have raw: "ph_raw (param_header_of p) = param_raw p"
    by (simp add: param_header_of_def)
  show ?thesis
    using param_header_roundtrip [OF assms, of rest] assms(1) raw
    by (cases p)
      (simp_all add: buildParam_def param_unmarshal_defs paramType_defs hmacAlgorithms_roundtrip
        codec16.length_concat_put outgoing_sids_roundtrip codec
        paramOutgoingResetRequestStreamIdentifiersOffset_def,
       simp_all add: paramOutgoingResetRequest_raw_def codec16.length_concat_put codec
        outgoing_sids_roundtrip [unfolded paramOutgoingResetRequest_raw_def])
qed

lemma hmacAlgorithms_no_panic [no_panic]: "even (length bs) \<Longrightarrow> hmacAlgorithms bs \<noteq> Inl Panic"
  by (induction bs rule: hmacAlgorithms.induct) (auto simp: bind_res_eq_Panic Let_def)

lemma outgoing_sids_no_panic:
  "\<not> length bs < 12 \<Longrightarrow> decode_seq get_be16 2 bs 12 ((length bs - 12) div 2) \<noteq> Inl Panic"
  by (intro codec16.decode_seq_no_panic) linarith

lemma param_unmarshal_no_panic [no_panic]:
  "paramOutgoingResetRequest_unmarshal raw \<noteq> Inl Panic"
  "paramReconfigResponse_unmarshal raw \<noteq> Inl Panic"
  "paramZeroChecksumAcceptable_unmarshal raw \<noteq> Inl Panic"
  "paramRequestedHMACAlgorithm_unmarshal raw \<noteq> Inl Panic"
  by (auto simp: param_unmarshal_defs bind_res_eq_Panic get_be32_at_long Let_def
      paramOutgoingResetRequestStreamIdentifiersOffset_def paramHeader_unmarshal_no_panic
      outgoing_sids_no_panic hmacAlgorithms_no_panic even_iff_mod_2_eq_zero)

lemma buildParam_no_panic [no_panic]: "buildParam t raw \<noteq> Inl Panic"
  by (simp add: buildParam_def no_panic)
    (simp add: param_unmarshal_defs bind_res_eq_Panic paramHeader_unmarshal_no_panic)

lemma buildParam_Inr_header:
  "buildParam t raw = Inr (h, b) \<Longrightarrow> paramHeader_unmarshal raw = Inr h"
  by (auto simp: buildParam_def param_unmarshal_defs bind_res_eq_Inr Let_def split: if_splits)

section \<open>Properties\<close>

text \<open>C16: every representable parameter survives its encoding: \<^verbatim>\<open>marshal\<close> succeeds and \<^verbatim>\<open>buildParam\<close>, given
  the type and the encoded bytes followed by anything, returns the parameter with the header that
  was written.\<close>

theorem param_roundtrip:
  assumes "wf_param p"
  shows "\<exists>bs. param_marshal p = ok bs \<and>
    (\<forall>rest. parseParamType (bs @ rest) = ok (param_typ p) \<and>
       buildParam (param_typ p) (bs @ rest) = ok (param_header_of p, p))"
proof -
  obtain bs where bs: "param_marshal p = ok bs"
    by (auto simp: param_marshal_def paramHeader_marshal_def)
  moreover have "parseParamType (bs @ rest) = ok (param_typ p)" for rest
    using bs by (auto simp: param_marshal_def paramHeader_marshal_def parseParamType_def)
  ultimately show ?thesis using buildParam_marshal [OF assms bs] by blast
qed

theorem param_roundtrip_witness:
  "\<exists>bs. param_marshal (ParamOutgoingResetRequest 1 2 3 [4, 5]) = ok bs \<and>
    (\<forall>rest. parseParamType (bs @ rest) = ok (param_typ (ParamOutgoingResetRequest 1 2 3 [4, 5])) \<and>
       buildParam (param_typ (ParamOutgoingResetRequest 1 2 3 [4, 5])) (bs @ rest) =
         ok (param_header_of (ParamOutgoingResetRequest 1 2 3 [4, 5]), ParamOutgoingResetRequest 1 2 3 [4, 5]))"
  by (rule param_roundtrip) (simp add: paramOutgoingResetRequest_raw_def)

end
