(* ===== verification/Sctp_ErrorCause.thy ===== *)
theory Sctp_ErrorCause
  imports Sctp_Util Sctp_Errors
begin

text \<open>
  Error causes carried by ABORT and ERROR chunks: \<^verbatim>\<open>error_cause.go\<close>,
  \<^verbatim>\<open>error_cause_header.go\<close> and the four cause files of package \<^verbatim>\<open>sctp\<close>. As with the
  parameters, a Go struct that embeds \<^verbatim>\<open>errorCauseHeader\<close> is a header paired with a body.
\<close>

section \<open>The shared header\<close>

record errorCauseHeader =
  ec_code :: u16
  ec_len :: u16
  ec_raw :: bytes

definition errorCauseHeaderLength :: nat where "errorCauseHeaderLength = 4"

definition unrecognizedChunkType :: u16 where "unrecognizedChunkType = 6"
definition invalidMandatoryParameter :: u16 where "invalidMandatoryParameter = 7"
definition userInitiatedAbort :: u16 where "userInitiatedAbort = 12"
definition protocolViolation :: u16 where "protocolViolation = 13"

lemmas cause_code_defs = unrecognizedChunkType_def invalidMandatoryParameter_def
  userInitiatedAbort_def protocolViolation_def

text \<open>The length field is a \<^verbatim>\<open>uint16\<close> sum, and the buffer is allocated with the wrapped length.\<close>

definition errorCauseHeader_marshal :: "u16 \<Rightarrow> bytes \<Rightarrow> (cause_err, bytes) res" where
  "errorCauseHeader_marshal code raw =
     (let len = of_nat (length raw) + (of_nat errorCauseHeaderLength :: u16)
      in if unat len < errorCauseHeaderLength then Inl Panic
         else ok (put_be16 code @ put_be16 len
                  @ take (unat len - errorCauseHeaderLength) raw))"

definition errorCauseHeader_unmarshal :: "bytes \<Rightarrow> (cause_err, errorCauseHeader) res" where
  "errorCauseHeader_unmarshal raw =
     bind_res (get_be16_at raw 0) (\<lambda>code.
     bind_res (get_be16_at raw 2) (\<lambda>len.
       if unat len < errorCauseHeaderLength \<or> unat len > length raw then fail ErrInvalidSCTPChunk
       else let valueLength = unat len - errorCauseHeaderLength
            in bind_res (slice_range raw errorCauseHeaderLength (errorCauseHeaderLength + valueLength)) (\<lambda>v.
                 ok \<lparr>ec_code = code, ec_len = len, ec_raw = v\<rparr>)))"

section \<open>The causes\<close>

datatype error_cause_body =
    InvalidMandatoryParameter
  | UnrecognizedChunkType bytes
  | ProtocolViolation bytes
  | UserInitiatedAbort bytes

type_synonym errorCause = "errorCauseHeader \<times> error_cause_body"

abbreviation errorCause_length :: "errorCause \<Rightarrow> nat" where
  "errorCause_length e \<equiv> unat (ec_len (fst e))"

fun errorCause_marshal :: "errorCause \<Rightarrow> (cause_err, bytes) res" where
  "errorCause_marshal (h, InvalidMandatoryParameter) = errorCauseHeader_marshal (ec_code h) (ec_raw h)"
| "errorCause_marshal (h, UnrecognizedChunkType c) = errorCauseHeader_marshal unrecognizedChunkType c"
| "errorCause_marshal (h, ProtocolViolation info) = errorCauseHeader_marshal (ec_code h) info"
| "errorCause_marshal (h, UserInitiatedAbort r) = errorCauseHeader_marshal userInitiatedAbort r"

definition buildErrorCause :: "bytes \<Rightarrow> (cause_err, errorCause) res" where
  "buildErrorCause raw =
     bind_res (get_be16_at raw 0) (\<lambda>c.
       if c = invalidMandatoryParameter then
         bind_res (errorCauseHeader_unmarshal raw) (\<lambda>h. ok (h, InvalidMandatoryParameter))
       else if c = unrecognizedChunkType then
         bind_res (errorCauseHeader_unmarshal raw) (\<lambda>h. ok (h, UnrecognizedChunkType (ec_raw h)))
       else if c = protocolViolation then
         bind_res (wrap_err ErrProtocolViolationUnmarshal (errorCauseHeader_unmarshal raw)) (\<lambda>h.
           ok (h, ProtocolViolation (ec_raw h)))
       else if c = userInitiatedAbort then
         bind_res (errorCauseHeader_unmarshal raw) (\<lambda>h. ok (h, UserInitiatedAbort (ec_raw h)))
       else fail ErrBuildErrorCaseHandle)"

section \<open>Round trip and bounds\<close>

text \<open>The value bytes and the code a cause is marshalled with.\<close>

fun cause_value :: "errorCause \<Rightarrow> bytes" where
  "cause_value (h, InvalidMandatoryParameter) = ec_raw h"
| "cause_value (h, UnrecognizedChunkType c) = c"
| "cause_value (h, ProtocolViolation info) = info"
| "cause_value (h, UserInitiatedAbort r) = r"

fun cause_code :: "errorCause \<Rightarrow> u16" where
  "cause_code (h, InvalidMandatoryParameter) = ec_code h"
| "cause_code (h, UnrecognizedChunkType c) = unrecognizedChunkType"
| "cause_code (h, ProtocolViolation info) = ec_code h"
| "cause_code (h, UserInitiatedAbort r) = userInitiatedAbort"

text \<open>A cause that a decoder maps back to the same kind: the two kinds whose \<^verbatim>\<open>marshal\<close> takes
  the code from the header need that header filled in.\<close>

fun wf_cause :: "errorCause \<Rightarrow> bool" where
  "wf_cause (h, InvalidMandatoryParameter) \<longleftrightarrow>
     ec_code h = invalidMandatoryParameter \<and> 4 + length (ec_raw h) < 2 ^ 16"
| "wf_cause (h, ProtocolViolation info) \<longleftrightarrow>
     ec_code h = protocolViolation \<and> 4 + length info < 2 ^ 16"
| "wf_cause e \<longleftrightarrow> 4 + length (cause_value e) < 2 ^ 16"

definition cause_header_of :: "errorCause \<Rightarrow> errorCauseHeader" where
  "cause_header_of e =
     \<lparr>ec_code = cause_code e, ec_len = of_nat (4 + length (cause_value e)), ec_raw = cause_value e\<rparr>"

lemma errorCauseHeader_roundtrip:
  assumes "4 + length raw < 2 ^ 16"
  shows "\<exists>bs. errorCauseHeader_marshal code raw = ok bs \<and> length bs = 4 + length raw \<and>
    (\<forall>rest. get_be16_at (bs @ rest) 0 = (ok code :: (cause_err, u16) res) \<and>
       errorCauseHeader_unmarshal (bs @ rest) =
         ok \<lparr>ec_code = code, ec_len = of_nat (4 + length raw), ec_raw = raw\<rparr>)"
proof -
  define l :: u16 where "l = of_nat (4 + length raw)"
  have l: "unat l = 4 + length raw"
    unfolding l_def using assms by (intro unat_of_nat_small) simp
  have sum: "of_nat (length raw) + (of_nat 4 :: u16) = l"
    by (simp add: l_def)
  show ?thesis
    unfolding l_def [symmetric]
    using l sum
    by (intro exI [of _ "put_be16 code @ put_be16 l @ raw"])
      (simp add: errorCauseHeader_marshal_def errorCauseHeader_unmarshal_def
        errorCauseHeaderLength_def codec)
qed

lemma errorCause_marshal_eq:
  "errorCause_marshal e = errorCauseHeader_marshal (cause_code e) (cause_value e)"
  by (cases e rule: errorCause_marshal.cases) simp_all

lemma wf_cause_length: "wf_cause e \<Longrightarrow> 4 + length (cause_value e) < 2 ^ 16"
  by (cases e rule: wf_cause.cases) simp_all

lemma errorCause_marshal_build:
  assumes "wf_cause e"
  shows "\<exists>bs. errorCause_marshal e = ok bs \<and> length bs = 4 + length (cause_value e) \<and>
    (\<forall>rest. buildErrorCause (bs @ rest) = ok (cause_header_of e, snd e))"
proof -
  from errorCauseHeader_roundtrip [OF wf_cause_length [OF assms], of "cause_code e"]
  obtain bs where "errorCauseHeader_marshal (cause_code e) (cause_value e) = ok bs"
    and "length bs = 4 + length (cause_value e)"
    and rt: "\<And>rest. get_be16_at (bs @ rest) 0 = (ok (cause_code e) :: (cause_err, u16) res)"
      "\<And>rest. errorCauseHeader_unmarshal (bs @ rest) = ok (cause_header_of e)"
    by (auto simp: cause_header_of_def)
  moreover have "buildErrorCause (bs @ rest) = ok (cause_header_of e, snd e)" for rest
    using assms rt
    by (cases e rule: wf_cause.cases)
      (simp_all add: buildErrorCause_def cause_code_defs, simp_all add: cause_header_of_def)
  ultimately show ?thesis by (auto simp: errorCause_marshal_eq)
qed

lemma errorCauseHeader_unmarshal_no_panic [no_panic]:
  "4 \<le> length raw \<Longrightarrow> errorCauseHeader_unmarshal raw \<noteq> Inl Panic"
  by (auto simp: errorCauseHeader_unmarshal_def get_be16_at_long errorCauseHeaderLength_def)

lemma buildErrorCause_no_panic [no_panic]: "4 \<le> length raw \<Longrightarrow> buildErrorCause raw \<noteq> Inl Panic"
  by (auto simp: buildErrorCause_def get_be16_at_long bind_res_eq_Panic no_panic)

lemma buildErrorCause_Inr_length:
  assumes "buildErrorCause raw = Inr e"
  shows "4 \<le> errorCause_length e" "errorCause_length e \<le> length raw"
  using assms
  by (auto simp: buildErrorCause_def errorCauseHeader_unmarshal_def errorCauseHeaderLength_def
      bind_res_eq_Inr Let_def split: if_splits)

end
