(* ===== verification/Sctp_Chunk.thy ===== *)
theory Sctp_Chunk
  imports Sctp_Param Sctp_ErrorCause
begin

text \<open>
  The chunks of package \<^verbatim>\<open>sctp\<close>: \<^verbatim>\<open>chunktype.go\<close>, \<^verbatim>\<open>chunkheader.go\<close>, \<^verbatim>\<open>chunk.go\<close> and the
  \<^verbatim>\<open>chunk_*.go\<close> files, with \<^verbatim>\<open>unmarshal\<close>, \<^verbatim>\<open>marshal\<close> and \<^verbatim>\<open>check\<close> of each. A chunk struct embeds
  a \<^verbatim>\<open>chunkHeader\<close>: it is a header paired with a body. The \<^verbatim>\<open>marshal\<close> methods also cache the
  type and the value bytes in the embedded header; every use of that cache is a \<^verbatim>\<open>marshal\<close>
  that writes it first, so the model returns the bytes only.
\<close>

section \<open>Chunk types and the chunk header\<close>

definition ctPayloadData :: u8 where "ctPayloadData = 0"
definition ctInit :: u8 where "ctInit = 1"
definition ctInitAck :: u8 where "ctInitAck = 2"
definition ctSack :: u8 where "ctSack = 3"
definition ctHeartbeat :: u8 where "ctHeartbeat = 4"
definition ctHeartbeatAck :: u8 where "ctHeartbeatAck = 5"
definition ctAbort :: u8 where "ctAbort = 6"
definition ctShutdown :: u8 where "ctShutdown = 7"
definition ctShutdownAck :: u8 where "ctShutdownAck = 8"
definition ctError :: u8 where "ctError = 9"
definition ctCookieEcho :: u8 where "ctCookieEcho = 10"
definition ctCookieAck :: u8 where "ctCookieAck = 11"
definition ctShutdownComplete :: u8 where "ctShutdownComplete = 14"
definition ctReconfig :: u8 where "ctReconfig = 130"
definition ctForwardTSN :: u8 where "ctForwardTSN = 192"

lemmas chunkType_defs = ctPayloadData_def ctInit_def ctInitAck_def ctSack_def ctHeartbeat_def
  ctHeartbeatAck_def ctAbort_def ctShutdown_def ctShutdownAck_def ctError_def ctCookieEcho_def
  ctCookieAck_def ctShutdownComplete_def ctReconfig_def ctForwardTSN_def

record chunkHeader =
  ch_typ :: u8
  ch_flags :: u8
  ch_raw :: bytes

definition chunkHeaderSize :: nat where "chunkHeaderSize = 4"

text \<open>The padding loop, from the last padding byte to the first.\<close>

fun check_padding :: "bytes \<Rightarrow> nat \<Rightarrow> nat \<Rightarrow> (sctp_err, unit) res" where
  "check_padding raw base 0 = ok ()"
| "check_padding raw base (Suc i) =
     bind_res (index_at raw (base + i)) (\<lambda>b.
       if b \<noteq> 0 then fail (HeaderE ErrChunkHeaderPaddingNonZero) else check_padding raw base i)"

definition chunkHeader_unmarshal :: "bytes \<Rightarrow> (sctp_err, chunkHeader) res" where
  "chunkHeader_unmarshal raw =
     (if length raw < chunkHeaderSize then fail (HeaderE ErrChunkHeaderTooSmall)
      else bind_res (index_at raw 0) (\<lambda>typ.
        bind_res (index_at raw 1) (\<lambda>flags.
        bind_res (get_be16_at raw 2) (\<lambda>len.
          let valueLength = unat (len - of_nat chunkHeaderSize);
              lengthAfterValue = int (length raw) - int (chunkHeaderSize + valueLength)
          in if lengthAfterValue < 0 then fail (HeaderE ErrChunkHeaderNotEnoughSpace)
             else bind_res
               (if lengthAfterValue < 4
                then check_padding raw (chunkHeaderSize + valueLength) (nat lengthAfterValue)
                else ok ())
               (\<lambda>_. bind_res (slice_range raw chunkHeaderSize (chunkHeaderSize + valueLength)) (\<lambda>v.
                  ok \<lparr>ch_typ = typ, ch_flags = flags, ch_raw = v\<rparr>))))))"

definition chunkHeader_marshal :: "u8 \<Rightarrow> u8 \<Rightarrow> bytes \<Rightarrow> (sctp_err, bytes) res" where
  "chunkHeader_marshal typ flags raw =
     ok ([typ, flags] @ put_be16 (of_nat (length raw + chunkHeaderSize)) @ raw)"

section \<open>The chunk bodies\<close>

text \<open>Pointers to chunks of the sender: addresses of a store, 0 being \<^verbatim>\<open>nil\<close>.\<close>

type_synonym addr = nat

abbreviation (input) nil :: addr where "nil \<equiv> 0"

text \<open>
  \<^verbatim>\<open>chunkPayloadData\<close>: the wire fields and the sender's bookkeeping. \<open>pd_head\<close> is the
  address of the first fragment of the message in the sender's store (\<^verbatim>\<open>nil\<close> for a first
  fragment and for every received chunk); \<open>pd_since\<close> is a time in milliseconds.
\<close>

record chunkPayloadData =
  pd_unordered :: bool
  pd_beginningFragment :: bool
  pd_endingFragment :: bool
  pd_immediateSack :: bool
  pd_tsn :: u32
  pd_streamIdentifier :: u16
  pd_streamSequenceNumber :: u16
  pd_payloadType :: u32
  pd_userData :: bytes
  pd_acked :: bool
  pd_missIndicator :: u32
  pd_since :: nat
  pd_nSent :: u32
  pd_abandoned :: bool
  pd_allInflight :: bool
  pd_retransmit :: bool
  pd_head :: addr

text \<open>\<^verbatim>\<open>&chunkPayloadData{}\<close>: every field its zero value.\<close>

definition zero_payload :: chunkPayloadData where
  "zero_payload =
     \<lparr>pd_unordered = False, pd_beginningFragment = False, pd_endingFragment = False,
      pd_immediateSack = False, pd_tsn = 0, pd_streamIdentifier = 0,
      pd_streamSequenceNumber = 0, pd_payloadType = 0, pd_userData = [], pd_acked = False,
      pd_missIndicator = 0, pd_since = 0, pd_nSent = 0, pd_abandoned = False,
      pd_allInflight = False, pd_retransmit = False, pd_head = nil\<rparr>"

record chunkInitCommon =
  ic_initiateTag :: u32
  ic_advertisedReceiverWindowCredit :: u32
  ic_numOutboundStreams :: u16
  ic_numInboundStreams :: u16
  ic_initialTSN :: u32
  ic_params :: "param_body list"
  ic_unrecognizedParams :: "paramHeader list"

type_synonym gapAckBlock = "u16 \<times> u16"

record chunkSelectiveAck =
  sa_cumulativeTSNAck :: u32
  sa_advertisedReceiverWindowCredit :: u32
  sa_gapAckBlocks :: "gapAckBlock list"
  sa_duplicateTSN :: "u32 list"

text \<open>A skipped stream of a FORWARD-TSN chunk: identifier and sequence number.\<close>

type_synonym chunkForwardTSNStream = "u16 \<times> u16"

datatype chunk_body =
    ChunkPayloadData chunkPayloadData
  | ChunkInit chunkInitCommon
  | ChunkInitAck chunkInitCommon
  | ChunkSelectiveAck chunkSelectiveAck
  | ChunkHeartbeat "param_body list"
  | ChunkHeartbeatAck "param_body list"
  | ChunkAbort "errorCause list"
  | ChunkShutdown u32
  | ChunkShutdownAck
  | ChunkError "errorCause list"
  | ChunkCookieEcho bytes
  | ChunkCookieAck
  | ChunkShutdownComplete
  | ChunkReconfig param_body "param_body option"
  | ChunkForwardTSN u32 "chunkForwardTSNStream list"

type_synonym chunk = "chunkHeader \<times> chunk_body"

definition zero_header :: chunkHeader where
  "zero_header = \<lparr>ch_typ = 0, ch_flags = 0, ch_raw = []\<rparr>"

text \<open>A chunk the program builds itself: \<^verbatim>\<open>&chunkX{...}\<close> leaves the embedded header zero.\<close>

abbreviation new_chunk :: "chunk_body \<Rightarrow> chunk" where
  "new_chunk b \<equiv> (zero_header, b)"

abbreviation valueLength :: "chunk \<Rightarrow> nat" where
  "valueLength c \<equiv> length (ch_raw (fst c))"

subsection \<open>DATA\<close>

definition payloadDataHeaderSize :: nat where "payloadDataHeaderSize = 12"

definition chunkPayloadData_unmarshal :: "bytes \<Rightarrow> (sctp_err, chunk) res" where
  "chunkPayloadData_unmarshal raw =
     bind_res (chunkHeader_unmarshal raw) (\<lambda>h.
       if length (ch_raw h) < payloadDataHeaderSize then fail (TransferE ErrChunkPayloadSmall)
       else bind_res (get_be32_at (ch_raw h) 0) (\<lambda>tsn.
         bind_res (get_be16_at (ch_raw h) 4) (\<lambda>si.
         bind_res (get_be16_at (ch_raw h) 6) (\<lambda>ssn.
         bind_res (get_be32_at (ch_raw h) 8) (\<lambda>ppi.
         bind_res (slice_from (ch_raw h) payloadDataHeaderSize) (\<lambda>ud.
           ok (h, ChunkPayloadData
             (zero_payload\<lparr>pd_immediateSack := ch_flags h AND 8 \<noteq> 0,
                pd_unordered := ch_flags h AND 4 \<noteq> 0,
                pd_beginningFragment := ch_flags h AND 2 \<noteq> 0,
                pd_endingFragment := ch_flags h AND 1 \<noteq> 0,
                pd_tsn := tsn, pd_streamIdentifier := si, pd_streamSequenceNumber := ssn,
                pd_payloadType := ppi, pd_userData := ud\<rparr>))))))))"

definition payload_flags :: "chunkPayloadData \<Rightarrow> u8" where
  "payload_flags p =
     (let f0 = (if pd_endingFragment p then 1 else 0);
          f1 = (if pd_beginningFragment p then f0 OR push_bit 1 1 else f0);
          f2 = (if pd_unordered p then f1 OR push_bit 2 1 else f1);
          f3 = (if pd_immediateSack p then f2 OR push_bit 3 1 else f2)
      in f3)"

definition chunkPayloadData_marshal :: "chunkPayloadData \<Rightarrow> (sctp_err, bytes) res" where
  "chunkPayloadData_marshal p =
     chunkHeader_marshal ctPayloadData (payload_flags p)
       (put_be32 (pd_tsn p) @ put_be16 (pd_streamIdentifier p) @ put_be16 (pd_streamSequenceNumber p)
        @ put_be32 (pd_payloadType p) @ pd_userData p)"

definition isFragmented :: "chunkPayloadData \<Rightarrow> bool" where
  "isFragmented p \<longleftrightarrow> \<not> (pd_head p = nil \<and> pd_beginningFragment p \<and> pd_endingFragment p)"

subsection \<open>INIT and INIT ACK\<close>

definition initChunkMinLength :: nat where "initChunkMinLength = 16"
definition initOptionalVarHeaderLength :: nat where "initOptionalVarHeaderLength = 4"

text \<open>
  The parameter loop of \<^verbatim>\<open>chunkInitCommon.unmarshal\<close>; \<open>remaining\<close> is the number of bytes after
  \<open>offset\<close>, negative when the last parameter's padding is missing.
\<close>

function initParams ::
  "bytes \<Rightarrow> nat \<Rightarrow> param_body list \<Rightarrow> paramHeader list \<Rightarrow> (init_err, param_body list \<times> paramHeader list) res" where
  "initParams raw offset ps us =
     (let remaining = int (length raw) - int offset
      in if remaining > 0 then
           if remaining > int initOptionalVarHeaderLength then
             bind_res (slice_from raw offset) (\<lambda>r.
             bind_res (wrap_err ErrInitChunkParseParamTypeFailed (paramHeader_unmarshal r)) (\<lambda>h.
               let next = offset + ph_len h + getPadding (ph_len h)
               in case buildParam (ph_typ h) r of
                    Inl Panic \<Rightarrow> Inl Panic
                  | Inl (Err _) \<Rightarrow> initParams raw next ps (us @ [h])
                  | Inr p \<Rightarrow> initParams raw next (ps @ [snd p]) us))
           else ok (ps, us)
         else ok (ps, us))"
  by pat_completeness auto
termination
  by (relation "measure (\<lambda>(raw, offset, ps, us). length raw - offset)")
    (auto dest: paramHeader_unmarshal_Inr)

declare initParams.simps [simp del]

definition chunkInitCommon_unmarshal :: "bytes \<Rightarrow> (init_err, chunkInitCommon) res" where
  "chunkInitCommon_unmarshal raw =
     bind_res (get_be32_at raw 0) (\<lambda>tag.
     bind_res (get_be32_at raw 4) (\<lambda>arwnd.
     bind_res (get_be16_at raw 8) (\<lambda>nout.
     bind_res (get_be16_at raw 10) (\<lambda>nin.
     bind_res (get_be32_at raw 12) (\<lambda>tsn.
     bind_res (initParams raw initChunkMinLength [] []) (\<lambda>(ps, us).
       ok \<lparr>ic_initiateTag = tag, ic_advertisedReceiverWindowCredit = arwnd,
           ic_numOutboundStreams = nout, ic_numInboundStreams = nin, ic_initialTSN = tsn,
           ic_params = ps, ic_unrecognizedParams = us\<rparr>))))))"

text \<open>The marshalling loop: every parameter but the last is padded.\<close>

fun initParams_marshal :: "param_body list \<Rightarrow> (init_err, bytes) res" where
  "initParams_marshal [] = ok []"
| "initParams_marshal (p # ps) =
     bind_res (wrap_err ErrInitAckMarshalParam (param_marshal p)) (\<lambda>pp.
     bind_res (initParams_marshal ps) (\<lambda>rest.
       ok ((if ps \<noteq> [] then padByte pp (int (getPadding (length pp))) else pp) @ rest)))"

definition chunkInitCommon_marshal :: "chunkInitCommon \<Rightarrow> (init_err, bytes) res" where
  "chunkInitCommon_marshal i =
     bind_res (initParams_marshal (ic_params i)) (\<lambda>ps.
       ok (put_be32 (ic_initiateTag i) @ put_be32 (ic_advertisedReceiverWindowCredit i)
         @ put_be16 (ic_numOutboundStreams i) @ put_be16 (ic_numInboundStreams i)
         @ put_be32 (ic_initialTSN i) @ ps))"

definition chunkInit_unmarshal :: "bytes \<Rightarrow> (sctp_err, chunk) res" where
  "chunkInit_unmarshal raw =
     bind_res (chunkHeader_unmarshal raw) (\<lambda>h.
       if ch_typ h \<noteq> ctInit then fail (InitE ErrChunkTypeNotTypeInit)
       else if length (ch_raw h) < initChunkMinLength then fail (InitE ErrChunkValueNotLongEnough)
       else if ch_flags h \<noteq> 0 then fail (InitE ErrChunkTypeInitFlagZero)
       else bind_res (wrap_err (InitE ErrChunkTypeInitUnmarshalFailed) (chunkInitCommon_unmarshal (ch_raw h)))
              (\<lambda>i. ok (h, ChunkInit i)))"

definition chunkInitAck_unmarshal :: "bytes \<Rightarrow> (sctp_err, chunk) res" where
  "chunkInitAck_unmarshal raw =
     bind_res (chunkHeader_unmarshal raw) (\<lambda>h.
       if ch_typ h \<noteq> ctInitAck then fail (InitE ErrChunkTypeNotInitAck)
       else if length (ch_raw h) < initChunkMinLength then fail (InitE ErrChunkNotLongEnoughForParams)
       else if ch_flags h \<noteq> 0 then fail (InitE ErrChunkTypeInitAckFlagZero)
       else bind_res (wrap_err (InitE ErrInitAckUnmarshalFailed) (chunkInitCommon_unmarshal (ch_raw h)))
              (\<lambda>i. ok (h, ChunkInitAck i)))"

definition chunkInit_marshal :: "u8 \<Rightarrow> chunkInitCommon \<Rightarrow> (sctp_err, bytes) res" where
  "chunkInit_marshal flags i =
     bind_res (wrap_err (InitE ErrChunkTypeInitMarshalFailed) (chunkInitCommon_marshal i)) (\<lambda>raw.
       chunkHeader_marshal ctInit flags raw)"

definition chunkInitAck_marshal :: "u8 \<Rightarrow> chunkInitCommon \<Rightarrow> (sctp_err, bytes) res" where
  "chunkInitAck_marshal flags i =
     bind_res (wrap_err (InitE ErrInitCommonDataMarshalFailed) (chunkInitCommon_marshal i)) (\<lambda>raw.
       chunkHeader_marshal ctInitAck flags raw)"

definition chunkInit_check :: "chunkInitCommon \<Rightarrow> bool \<times> init_err option" where
  "chunkInit_check i =
     (if ic_initiateTag i = 0 then (True, Some ErrChunkTypeInitInitateTagZero)
      else if ic_numInboundStreams i = 0 then (True, Some ErrInitInboundStreamRequestZero)
      else if ic_numOutboundStreams i = 0 then (True, Some ErrInitOutboundStreamRequestZero)
      else if ic_advertisedReceiverWindowCredit i < 1500 then (True, Some ErrInitAdvertisedReceiver1500)
      else if \<exists>p \<in> set (ic_unrecognizedParams i).
                ph_unrecognizedAction p = paramHeaderUnrecognizedActionStop \<or>
                ph_unrecognizedAction p = paramHeaderUnrecognizedActionStopAndReport
      then (True, Some ErrInitUnknownParam)
      else (False, None))"

definition chunkInitAck_check :: "chunkInitCommon \<Rightarrow> bool \<times> init_err option" where
  "chunkInitAck_check i =
     (if ic_initiateTag i = 0 then (True, Some ErrChunkTypeInitAckInitateTagZero)
      else if ic_numInboundStreams i = 0 then (True, Some ErrInitAckInboundStreamRequestZero)
      else if ic_numOutboundStreams i = 0 then (True, Some ErrInitAckOutboundStreamRequestZero)
      else if ic_advertisedReceiverWindowCredit i < 1500 then (True, Some ErrInitAckAdvertisedReceiver1500)
      else (False, None))"

subsection \<open>SACK\<close>

definition selectiveAckHeaderSize :: nat where "selectiveAckHeaderSize = 12"

definition put_pair16 :: "u16 \<times> u16 \<Rightarrow> bytes" where
  "put_pair16 g = put_be16 (fst g) @ put_be16 (snd g)"

definition get_pair16 :: "bytes \<Rightarrow> ('e, u16 \<times> u16) res" where
  "get_pair16 bs =
     bind_res (get_be16_at bs 0) (\<lambda>s. bind_res (get_be16_at bs 2) (\<lambda>e. ok (s, e)))"

definition chunkSelectiveAck_unmarshal :: "bytes \<Rightarrow> (sctp_err, chunk) res" where
  "chunkSelectiveAck_unmarshal raw =
     bind_res (chunkHeader_unmarshal raw) (\<lambda>h.
       if ch_typ h \<noteq> ctSack then fail (TransferE ErrChunkTypeNotSack)
       else if length (ch_raw h) < selectiveAckHeaderSize then fail (TransferE ErrSackSizeNotLargeEnoughInfo)
       else bind_res (get_be32_at (ch_raw h) 0) (\<lambda>cum.
         bind_res (get_be32_at (ch_raw h) 4) (\<lambda>arwnd.
         bind_res (get_be16_at (ch_raw h) 8) (\<lambda>ngaps.
         bind_res (get_be16_at (ch_raw h) 10) (\<lambda>ndups.
           if length (ch_raw h) \<noteq> selectiveAckHeaderSize + (4 * unat ngaps + 4 * unat ndups)
           then fail (TransferE ErrSackSizeNotMatchPredicted)
           else bind_res (decode_seq get_pair16 4 (ch_raw h) selectiveAckHeaderSize (unat ngaps)) (\<lambda>gaps.
                bind_res (decode_seq get_be32 4 (ch_raw h)
                           (selectiveAckHeaderSize + 4 * unat ngaps) (unat ndups)) (\<lambda>dups.
                  ok (h, ChunkSelectiveAck
                    \<lparr>sa_cumulativeTSNAck = cum, sa_advertisedReceiverWindowCredit = arwnd,
                     sa_gapAckBlocks = gaps, sa_duplicateTSN = dups\<rparr>))))))))"

definition chunkSelectiveAck_marshal :: "u8 \<Rightarrow> chunkSelectiveAck \<Rightarrow> (sctp_err, bytes) res" where
  "chunkSelectiveAck_marshal flags s =
     chunkHeader_marshal ctSack flags
       (put_be32 (sa_cumulativeTSNAck s) @ put_be32 (sa_advertisedReceiverWindowCredit s)
        @ put_be16 (of_nat (length (sa_gapAckBlocks s))) @ put_be16 (of_nat (length (sa_duplicateTSN s)))
        @ concat (map put_pair16 (sa_gapAckBlocks s)) @ concat (map put_be32 (sa_duplicateTSN s)))"

subsection \<open>HEARTBEAT and HEARTBEAT ACK\<close>

definition chunkHeartbeat_unmarshal :: "bytes \<Rightarrow> (sctp_err, chunk) res" where
  "chunkHeartbeat_unmarshal raw =
     bind_res (chunkHeader_unmarshal raw) (\<lambda>h.
       if ch_typ h \<noteq> ctHeartbeat then fail (ControlE ErrChunkTypeNotHeartbeat)
       else if length raw \<le> chunkHeaderSize then fail (ControlE ErrHeartbeatNotLongEnoughInfo)
       else bind_res (slice_from raw chunkHeaderSize) (\<lambda>r.
         bind_res (wrap_err (ControlE ErrParseParamTypeFailed) (parseParamType r)) (\<lambda>pType.
           if pType \<noteq> heartbeatInfo then fail (ControlE ErrHeartbeatParam)
           else bind_res (wrap_err (ControlE ErrHeartbeatChunkUnmarshal) (buildParam pType r)) (\<lambda>p.
             ok (h, ChunkHeartbeat [snd p])))))"

definition chunkHeartbeatAck_unmarshal :: "bytes \<Rightarrow> (sctp_err, chunk) res" where
  "chunkHeartbeatAck_unmarshal raw = fail (ControlE ErrUnimplemented)"

text \<open>The loop over the parameters runs once: the list has one element at that point.\<close>

definition chunkHeartbeatAck_marshal :: "u8 \<Rightarrow> param_body list \<Rightarrow> (sctp_err, bytes) res" where
  "chunkHeartbeatAck_marshal flags ps =
     (case ps of
        [p] \<Rightarrow> (case p of
                 ParamHeartbeatInfo info \<Rightarrow>
                   bind_res (wrap_err (ControlE ErrHeartbeatAckMarshalParam) (param_marshal p)) (\<lambda>out.
                     chunkHeader_marshal ctHeartbeatAck flags out)
               | _ \<Rightarrow> fail (ControlE ErrHeartbeatAckNotHeartbeatInfo))
      | _ \<Rightarrow> fail (ControlE ErrHeartbeatAckParams))"

subsection \<open>ABORT and ERROR\<close>

text \<open>The loop that both \<^verbatim>\<open>unmarshal\<close> methods run over the rest of the packet.\<close>

function errorCauses :: "sctp_err \<Rightarrow> bytes \<Rightarrow> nat \<Rightarrow> errorCause list \<Rightarrow> (sctp_err, errorCause list) res" where
  "errorCauses failed raw offset es =
     (if int (length raw) - int offset < 4 then ok es
      else bind_res (slice_from raw offset) (\<lambda>r.
        bind_res (wrap_err failed (buildErrorCause r)) (\<lambda>e.
          errorCauses failed raw (offset + unat (ec_len (fst e))) (es @ [e]))))"
  by pat_completeness auto
termination
  by (relation "measure (\<lambda>(failed, raw, offset, es). length raw - offset)")
    (auto dest: buildErrorCause_Inr_length)

declare errorCauses.simps [simp del]

definition chunkAbort_unmarshal :: "bytes \<Rightarrow> (sctp_err, chunk) res" where
  "chunkAbort_unmarshal raw =
     bind_res (chunkHeader_unmarshal raw) (\<lambda>h.
       if ch_typ h \<noteq> ctAbort then fail (ControlE ErrChunkTypeNotAbort)
       else bind_res (errorCauses (ControlE ErrBuildAbortChunkFailed) raw chunkHeaderSize []) (\<lambda>es.
         ok (h, ChunkAbort es)))"

definition chunkError_unmarshal :: "bytes \<Rightarrow> (sctp_err, chunk) res" where
  "chunkError_unmarshal raw =
     bind_res (chunkHeader_unmarshal raw) (\<lambda>h.
       if ch_typ h \<noteq> ctError then fail (ControlE ErrChunkTypeNotCtError)
       else bind_res (errorCauses (ControlE ErrBuildErrorChunkFailed) raw chunkHeaderSize []) (\<lambda>es.
         ok (h, ChunkError es)))"

fun errorCauses_marshal :: "errorCause list \<Rightarrow> (sctp_err, bytes) res" where
  "errorCauses_marshal [] = ok []"
| "errorCauses_marshal (e # es) =
     bind_res (lift_err CauseE (errorCause_marshal e)) (\<lambda>b.
     bind_res (errorCauses_marshal es) (\<lambda>bs. ok (b @ bs)))"

definition chunkAbort_marshal :: "errorCause list \<Rightarrow> (sctp_err, bytes) res" where
  "chunkAbort_marshal es = bind_res (errorCauses_marshal es) (chunkHeader_marshal ctAbort 0)"

definition chunkError_marshal :: "errorCause list \<Rightarrow> (sctp_err, bytes) res" where
  "chunkError_marshal es = bind_res (errorCauses_marshal es) (chunkHeader_marshal ctError 0)"

subsection \<open>SHUTDOWN, SHUTDOWN ACK, SHUTDOWN COMPLETE, COOKIE ECHO, COOKIE ACK\<close>

definition cumulativeTSNAckLength :: nat where "cumulativeTSNAckLength = 4"

definition chunkShutdown_unmarshal :: "bytes \<Rightarrow> (sctp_err, chunk) res" where
  "chunkShutdown_unmarshal raw =
     bind_res (chunkHeader_unmarshal raw) (\<lambda>h.
       if ch_typ h \<noteq> ctShutdown then fail (ControlE ErrChunkTypeNotShutdown)
       else if length (ch_raw h) \<noteq> cumulativeTSNAckLength then fail (ControlE ErrInvalidChunkSize)
       else bind_res (get_be32_at (ch_raw h) 0) (\<lambda>cum. ok (h, ChunkShutdown cum)))"

definition chunkShutdown_marshal :: "u8 \<Rightarrow> u32 \<Rightarrow> (sctp_err, bytes) res" where
  "chunkShutdown_marshal flags cum = chunkHeader_marshal ctShutdown flags (put_be32 cum)"

definition chunkShutdownAck_unmarshal :: "bytes \<Rightarrow> (sctp_err, chunk) res" where
  "chunkShutdownAck_unmarshal raw =
     bind_res (chunkHeader_unmarshal raw) (\<lambda>h.
       if ch_typ h \<noteq> ctShutdownAck then fail (ControlE ErrChunkTypeNotShutdownAck)
       else ok (h, ChunkShutdownAck))"

definition chunkShutdownAck_marshal :: "chunkHeader \<Rightarrow> (sctp_err, bytes) res" where
  "chunkShutdownAck_marshal h = chunkHeader_marshal ctShutdownAck (ch_flags h) (ch_raw h)"

definition chunkShutdownComplete_unmarshal :: "bytes \<Rightarrow> (sctp_err, chunk) res" where
  "chunkShutdownComplete_unmarshal raw =
     bind_res (chunkHeader_unmarshal raw) (\<lambda>h.
       if ch_typ h \<noteq> ctShutdownComplete then fail (ControlE ErrChunkTypeNotShutdownComplete)
       else ok (h, ChunkShutdownComplete))"

definition chunkShutdownComplete_marshal :: "chunkHeader \<Rightarrow> (sctp_err, bytes) res" where
  "chunkShutdownComplete_marshal h = chunkHeader_marshal ctShutdownComplete (ch_flags h) (ch_raw h)"

definition chunkCookieEcho_unmarshal :: "bytes \<Rightarrow> (sctp_err, chunk) res" where
  "chunkCookieEcho_unmarshal raw =
     bind_res (chunkHeader_unmarshal raw) (\<lambda>h.
       if ch_typ h \<noteq> ctCookieEcho then fail (ControlE ErrChunkTypeNotCookieEcho)
       else ok (h, ChunkCookieEcho (ch_raw h)))"

definition chunkCookieEcho_marshal :: "u8 \<Rightarrow> bytes \<Rightarrow> (sctp_err, bytes) res" where
  "chunkCookieEcho_marshal flags cookie = chunkHeader_marshal ctCookieEcho flags cookie"

definition chunkCookieAck_unmarshal :: "bytes \<Rightarrow> (sctp_err, chunk) res" where
  "chunkCookieAck_unmarshal raw =
     bind_res (chunkHeader_unmarshal raw) (\<lambda>h.
       if ch_typ h \<noteq> ctCookieAck then fail (ControlE ErrChunkTypeNotCookieAck)
       else ok (h, ChunkCookieAck))"

definition chunkCookieAck_marshal :: "chunkHeader \<Rightarrow> (sctp_err, bytes) res" where
  "chunkCookieAck_marshal h = chunkHeader_marshal ctCookieAck (ch_flags h) (ch_raw h)"

subsection \<open>RE-CONFIG\<close>

definition chunkReconfig_unmarshal :: "bytes \<Rightarrow> (sctp_err, chunk) res" where
  "chunkReconfig_unmarshal raw =
     bind_res (chunkHeader_unmarshal raw) (\<lambda>h.
     bind_res (wrap_err (TransferE ErrChunkParseParamTypeFailed) (parseParamType (ch_raw h))) (\<lambda>pType.
     bind_res (lift_err ParamE (buildParam pType (ch_raw h))) (\<lambda>a.
       let offset = ph_len (fst a) + getPadding (ph_len (fst a))
       in if length (ch_raw h) > offset then
            bind_res (slice_from (ch_raw h) offset) (\<lambda>r.
            bind_res (wrap_err (TransferE ErrChunkParseParamTypeFailed) (parseParamType r)) (\<lambda>pTypeB.
            bind_res (lift_err ParamE (buildParam pTypeB r)) (\<lambda>b.
              ok (h, ChunkReconfig (snd a) (Some (snd b))))))
          else ok (h, ChunkReconfig (snd a) None))))"

definition chunkReconfig_marshal :: "u8 \<Rightarrow> param_body \<Rightarrow> param_body option \<Rightarrow> (sctp_err, bytes) res" where
  "chunkReconfig_marshal flags a b =
     bind_res (wrap_err (TransferE ErrChunkMarshalParamAReconfigFailed) (param_marshal a)) (\<lambda>out.
       case b of
         None \<Rightarrow> chunkHeader_marshal ctReconfig flags out
       | Some pb \<Rightarrow>
           bind_res (wrap_err (TransferE ErrChunkMarshalParamBReconfigFailed) (param_marshal pb)) (\<lambda>outB.
             chunkHeader_marshal ctReconfig flags (padByte out (int (getPadding (length out))) @ outB)))"

subsection \<open>FORWARD TSN\<close>

definition newCumulativeTSNLength :: nat where "newCumulativeTSNLength = 4"
definition forwardTSNStreamLength :: nat where "forwardTSNStreamLength = 4"

definition chunkForwardTSNStream_unmarshal :: "bytes \<Rightarrow> (sctp_err, chunkForwardTSNStream) res" where
  "chunkForwardTSNStream_unmarshal raw =
     (if length raw < forwardTSNStreamLength then fail (TransferE ErrChunkTooShort)
      else bind_res (get_be16_at raw 0) (\<lambda>i. bind_res (get_be16_at raw 2) (\<lambda>s. ok (i, s))))"

function forwardTSNStreams ::
  "bytes \<Rightarrow> nat \<Rightarrow> chunkForwardTSNStream list \<Rightarrow> (sctp_err, chunkForwardTSNStream list) res" where
  "forwardTSNStreams raw offset ss =
     (if int (length raw) - int offset > 0 then
        bind_res (slice_from raw offset) (\<lambda>r.
        bind_res (wrap_err (TransferE ErrMarshalStreamFailed) (chunkForwardTSNStream_unmarshal r)) (\<lambda>s.
          forwardTSNStreams raw (offset + forwardTSNStreamLength) (ss @ [s])))
      else ok ss)"
  by pat_completeness auto
termination
  by (relation "measure (\<lambda>(raw, offset, ss). length raw - offset)")
    (auto simp: forwardTSNStreamLength_def)

declare forwardTSNStreams.simps [simp del]

definition chunkForwardTSN_unmarshal :: "bytes \<Rightarrow> (sctp_err, chunk) res" where
  "chunkForwardTSN_unmarshal raw =
     bind_res (chunkHeader_unmarshal raw) (\<lambda>h.
       if length (ch_raw h) < newCumulativeTSNLength then fail (TransferE ErrChunkTooShort)
       else bind_res (get_be32_at (ch_raw h) 0) (\<lambda>tsn.
         bind_res (forwardTSNStreams (ch_raw h) newCumulativeTSNLength []) (\<lambda>ss.
           ok (h, ChunkForwardTSN tsn ss))))"

definition chunkForwardTSN_marshal :: "u8 \<Rightarrow> u32 \<Rightarrow> chunkForwardTSNStream list \<Rightarrow> (sctp_err, bytes) res" where
  "chunkForwardTSN_marshal flags tsn ss =
     chunkHeader_marshal ctForwardTSN flags (put_be32 tsn @ concat (map put_pair16 ss))"

section \<open>The chunk interface\<close>

text \<open>
  \<^verbatim>\<open>chunk.marshal\<close> by dynamic dispatch. \<^verbatim>\<open>chunkHeartbeat\<close> declares \<^verbatim>\<open>Marshal\<close>, not \<^verbatim>\<open>marshal\<close>, so its
  method is the promoted one of the embedded header.
\<close>

fun chunk_marshal :: "chunk \<Rightarrow> (sctp_err, bytes) res" where
  "chunk_marshal (h, ChunkPayloadData p) = chunkPayloadData_marshal p"
| "chunk_marshal (h, ChunkInit i) = chunkInit_marshal (ch_flags h) i"
| "chunk_marshal (h, ChunkInitAck i) = chunkInitAck_marshal (ch_flags h) i"
| "chunk_marshal (h, ChunkSelectiveAck s) = chunkSelectiveAck_marshal (ch_flags h) s"
| "chunk_marshal (h, ChunkHeartbeat ps) = chunkHeader_marshal (ch_typ h) (ch_flags h) (ch_raw h)"
| "chunk_marshal (h, ChunkHeartbeatAck ps) = chunkHeartbeatAck_marshal (ch_flags h) ps"
| "chunk_marshal (h, ChunkAbort es) = chunkAbort_marshal es"
| "chunk_marshal (h, ChunkShutdown t) = chunkShutdown_marshal (ch_flags h) t"
| "chunk_marshal (h, ChunkShutdownAck) = chunkShutdownAck_marshal h"
| "chunk_marshal (h, ChunkError es) = chunkError_marshal es"
| "chunk_marshal (h, ChunkCookieEcho c) = chunkCookieEcho_marshal (ch_flags h) c"
| "chunk_marshal (h, ChunkCookieAck) = chunkCookieAck_marshal h"
| "chunk_marshal (h, ChunkShutdownComplete) = chunkShutdownComplete_marshal h"
| "chunk_marshal (h, ChunkReconfig a b) = chunkReconfig_marshal (ch_flags h) a b"
| "chunk_marshal (h, ChunkForwardTSN t ss) = chunkForwardTSN_marshal (ch_flags h) t ss"

text \<open>
  The \<^verbatim>\<open>switch\<close> of \<^verbatim>\<open>packet.unmarshal\<close> on the type byte, with the \<^verbatim>\<open>unmarshal\<close> of the chosen
  struct. HEARTBEAT ACK has no case: it is an unknown type.
\<close>

definition chunk_unmarshal :: "u8 \<Rightarrow> bytes \<Rightarrow> (sctp_err, chunk) res" where
  "chunk_unmarshal typ raw =
     (if typ = ctInit then chunkInit_unmarshal raw
      else if typ = ctInitAck then chunkInitAck_unmarshal raw
      else if typ = ctAbort then chunkAbort_unmarshal raw
      else if typ = ctCookieEcho then chunkCookieEcho_unmarshal raw
      else if typ = ctCookieAck then chunkCookieAck_unmarshal raw
      else if typ = ctHeartbeat then chunkHeartbeat_unmarshal raw
      else if typ = ctPayloadData then chunkPayloadData_unmarshal raw
      else if typ = ctSack then chunkSelectiveAck_unmarshal raw
      else if typ = ctReconfig then chunkReconfig_unmarshal raw
      else if typ = ctForwardTSN then chunkForwardTSN_unmarshal raw
      else if typ = ctError then chunkError_unmarshal raw
      else if typ = ctShutdown then chunkShutdown_unmarshal raw
      else if typ = ctShutdownAck then chunkShutdownAck_unmarshal raw
      else if typ = ctShutdownComplete then chunkShutdownComplete_unmarshal raw
      else fail (HeaderE ErrUnmarshalUnknownChunkType))"

text \<open>\<^verbatim>\<open>chunk.check\<close>: whether to abort, and the error.\<close>

fun chunk_check :: "chunk_body \<Rightarrow> bool \<times> init_err option" where
  "chunk_check (ChunkInit i) = chunkInit_check i"
| "chunk_check (ChunkInitAck i) = chunkInitAck_check i"
| "chunk_check (ChunkReconfig a b) = (True, None)"
| "chunk_check (ChunkForwardTSN t ss) = (True, None)"
| "chunk_check b = (False, None)"

end
