(* ===== verification/Sctp_Chunk_Laws.thy ===== *)
theory Sctp_Chunk_Laws
  imports Sctp_Chunk
begin

text \<open>
  What the chunk codec promises: \<^verbatim>\<open>unmarshal\<close> never panics, whatever the bytes, and inverts
  \<^verbatim>\<open>marshal\<close> on every chunk that fits its 16-bit length field. The remarks at the end are the
  exceptions: a trailing empty parameter of an INIT is lost.
\<close>

interpretation codec_pair: fixed_codec put_pair16 get_pair16 4
  by unfold_locales (auto simp: put_pair16_def get_pair16_def codec, simp add: get_be16_at_long get_be16_long)

section \<open>The chunk header\<close>

text \<open>What may follow a chunk: its zero padding, or at least four bytes.\<close>

definition padding_ok :: "bytes \<Rightarrow> bool" where
  "padding_ok rest \<longleftrightarrow> (length rest < 4 \<longrightarrow> (\<forall>b \<in> set rest. b = 0))"

definition header_of :: "bytes \<Rightarrow> chunkHeader" where
  "header_of bs = \<lparr>ch_typ = bs ! 0, ch_flags = bs ! 1, ch_raw = drop 4 bs\<rparr>"

lemma check_padding_zero:
  "(\<And>j. j < i \<Longrightarrow> base + j < length raw \<and> raw ! (base + j) = 0) \<Longrightarrow> check_padding raw base i = ok ()"
  by (induction i) auto

lemma check_padding_no_panic [no_panic]:
  "base + i \<le> length raw \<Longrightarrow> check_padding raw base i \<noteq> Inl Panic"
  by (induction i) auto

lemma chunkHeader_unmarshal_Inr:
  assumes "chunkHeader_unmarshal raw = Inr h"
  shows "4 + length (ch_raw h) \<le> length raw" "ch_typ h = raw ! 0"
    "ch_raw h = take (length (ch_raw h)) (drop 4 raw)"
  using assms
  by (auto simp: chunkHeader_unmarshal_def chunkHeaderSize_def bind_res_eq_Inr Let_def index_at_def
      slice_range_def split: if_splits)

lemma chunkHeader_unmarshal_eq:
  assumes "4 \<le> length raw" "get_be16_at raw 2 = (ok len :: (sctp_err, u16) res)"
    and v: "unat (len - of_nat chunkHeaderSize) = v"
  shows "chunkHeader_unmarshal raw =
    (if length raw < 4 + v then fail (HeaderE ErrChunkHeaderNotEnoughSpace)
     else bind_res (if length raw < 8 + v then check_padding raw (4 + v) (length raw - (4 + v)) else ok ())
       (\<lambda>_. ok \<lparr>ch_typ = raw ! 0, ch_flags = raw ! 1, ch_raw = take v (drop 4 raw)\<rparr>))"
proof -
  have i: "index_at raw 0 = (ok (raw ! 0) :: (sctp_err, u8) res)"
    "index_at raw 1 = (ok (raw ! 1) :: (sctp_err, u8) res)"
    using assms(1) by (auto simp: index_at_def)
  have n: "nat (int (length raw) - int (4 + v)) = length raw - (4 + v)" by linarith
  show ?thesis
    using assms(1)
    unfolding chunkHeader_unmarshal_def assms(2) i bind_res_simps Let_def v
    unfolding chunkHeaderSize_def n
    by auto
qed

lemma chunkHeader_unmarshal_no_panic [no_panic]: "chunkHeader_unmarshal raw \<noteq> Inl Panic"
proof (cases "4 \<le> length raw")
  case True
  then have "get_be16_at raw 2 = ok (be16 (raw ! 2) (raw ! 3))" by (simp add: get_be16_at_long)
  from chunkHeader_unmarshal_eq [OF True this refl] show ?thesis
    by (auto simp: no_panic bind_res_eq_Panic split: if_splits)
qed (simp add: chunkHeader_unmarshal_def chunkHeaderSize_def)

lemma chunkHeader_marshal_Inr:
  "chunkHeader_marshal typ flags raw = ok bs \<longleftrightarrow>
   bs = [typ, flags] @ put_be16 (of_nat (length raw + 4)) @ raw"
  by (auto simp: chunkHeader_marshal_def chunkHeaderSize_def)

lemma chunkHeader_roundtrip:
  assumes m: "chunkHeader_marshal typ flags raw = ok bs"
    and small: "length bs < 2 ^ 16" and pad: "padding_ok rest"
  shows "chunkHeader_unmarshal (bs @ rest) = ok \<lparr>ch_typ = typ, ch_flags = flags, ch_raw = raw\<rparr>"
    and "header_of bs = \<lparr>ch_typ = typ, ch_flags = flags, ch_raw = raw\<rparr>"
proof -
  define l :: u16 where "l = of_nat (length raw + 4)"
  have bs: "bs = [typ, flags] @ put_be16 l @ raw"
    using m by (simp only: chunkHeader_marshal_Inr l_def)
  have "l - of_nat 4 = of_nat (length raw)" by (simp add: l_def)
  moreover have "length raw < 2 ^ LENGTH(16)" using small bs by simp
  ultimately have v: "unat (l - of_nat chunkHeaderSize) = length raw"
    by (simp only: unat_of_nat_small chunkHeaderSize_def)
  show "header_of bs = \<lparr>ch_typ = typ, ch_flags = flags, ch_raw = raw\<rparr>"
    by (simp add: bs header_of_def put_be16_def)
  have "check_padding (bs @ rest) (4 + length raw) (length rest) = ok ()" if "length rest < 4"
  proof (rule check_padding_zero)
    fix j assume j: "j < length rest"
    have "(bs @ rest) ! (4 + length raw + j) = rest ! j"
      by (simp add: bs nth_append)
    with j that pad show "4 + length raw + j < length (bs @ rest) \<and> (bs @ rest) ! (4 + length raw + j) = 0"
      by (simp add: bs padding_ok_def)
  qed
  moreover have "get_be16_at (bs @ rest) 2 = (ok l :: (sctp_err, u16) res)"
    by (simp add: bs get_be16_at_def)
  moreover have len: "length (bs @ rest) = 4 + length raw + length rest" by (simp add: bs)
  moreover have "(bs @ rest) ! 0 = typ" "(bs @ rest) ! 1 = flags"
    "take (length raw) (drop 4 (bs @ rest)) = raw"
    by (simp_all add: bs put_be16_def)
  ultimately show "chunkHeader_unmarshal (bs @ rest) = ok \<lparr>ch_typ = typ, ch_flags = flags, ch_raw = raw\<rparr>"
    using chunkHeader_unmarshal_eq [OF _ _ v, of "bs @ rest"] by (simp del: length_append)
qed

section \<open>Absence of panics\<close>

lemma parseParamType_no_panic [no_panic]: "parseParamType raw \<noteq> Inl Panic"
  by (simp add: parseParamType_def get_be16_long)

lemma initParams_no_panic [no_panic]: "initParams raw offset ps us \<noteq> Inl Panic"
proof (induction "length raw - offset" arbitrary: offset ps us rule: less_induct)
  case less
  show ?case
    by (subst initParams.simps)
      (auto simp: Let_def no_panic bind_res_eq_Panic initOptionalVarHeaderLength_def
        elim!: notE [OF less, rotated] dest: paramHeader_unmarshal_Inr(1) split: sum.splits fault.splits)
qed

lemma errorCauses_no_panic [no_panic]: "errorCauses failed raw offset es \<noteq> Inl Panic"
proof (induction "length raw - offset" arbitrary: offset es rule: less_induct)
  case less
  show ?case
    by (subst errorCauses.simps)
      (auto simp: no_panic bind_res_eq_Panic elim!: notE [OF less, rotated] dest: buildErrorCause_Inr_length(1))
qed

lemma forwardTSNStreams_no_panic [no_panic]: "forwardTSNStreams raw offset ss \<noteq> Inl Panic"
proof (induction "length raw - offset" arbitrary: offset ss rule: less_induct)
  case less
  show ?case
    by (subst forwardTSNStreams.simps)
      (auto simp: chunkForwardTSNStream_unmarshal_def forwardTSNStreamLength_def get_be16_at_long
        bind_res_eq_Panic elim!: notE [OF less, rotated])
qed

lemma chunkInitCommon_unmarshal_no_panic [no_panic]:
  "16 \<le> length raw \<Longrightarrow> chunkInitCommon_unmarshal raw \<noteq> Inl Panic"
  by (auto simp: chunkInitCommon_unmarshal_def get_be16_at_long get_be32_at_long bind_res_eq_Panic no_panic)

lemmas chunk_unmarshal_defs = chunkInit_unmarshal_def chunkInitAck_unmarshal_def
  chunkAbort_unmarshal_def chunkError_unmarshal_def chunkCookieEcho_unmarshal_def
  chunkCookieAck_unmarshal_def chunkHeartbeat_unmarshal_def chunkPayloadData_unmarshal_def
  chunkSelectiveAck_unmarshal_def chunkReconfig_unmarshal_def chunkForwardTSN_unmarshal_def
  chunkShutdown_unmarshal_def chunkShutdownAck_unmarshal_def chunkShutdownComplete_unmarshal_def

lemma chunkInit_unmarshal_no_panic [no_panic]:
  "chunkInit_unmarshal raw \<noteq> Inl Panic" "chunkInitAck_unmarshal raw \<noteq> Inl Panic"
  by (auto simp: chunk_unmarshal_defs initChunkMinLength_def bind_res_eq_Panic no_panic)

lemma control_unmarshal_no_panic [no_panic]:
  "chunkAbort_unmarshal raw \<noteq> Inl Panic" "chunkError_unmarshal raw \<noteq> Inl Panic"
  "chunkCookieEcho_unmarshal raw \<noteq> Inl Panic" "chunkCookieAck_unmarshal raw \<noteq> Inl Panic"
  "chunkShutdown_unmarshal raw \<noteq> Inl Panic" "chunkShutdownAck_unmarshal raw \<noteq> Inl Panic"
  "chunkShutdownComplete_unmarshal raw \<noteq> Inl Panic"
  by (auto simp: chunk_unmarshal_defs bind_res_eq_Panic no_panic cumulativeTSNAckLength_def
      get_be32_at_long)

lemma chunkHeartbeat_unmarshal_no_panic [no_panic]: "chunkHeartbeat_unmarshal raw \<noteq> Inl Panic"
  by (auto simp: chunk_unmarshal_defs bind_res_eq_Panic no_panic)

lemma chunkReconfig_unmarshal_no_panic [no_panic]: "chunkReconfig_unmarshal raw \<noteq> Inl Panic"
  by (auto simp: chunk_unmarshal_defs bind_res_eq_Panic no_panic Let_def split: if_splits)

lemma chunkForwardTSN_unmarshal_no_panic [no_panic]: "chunkForwardTSN_unmarshal raw \<noteq> Inl Panic"
  by (auto simp: chunk_unmarshal_defs bind_res_eq_Panic no_panic newCumulativeTSNLength_def
      get_be32_at_long)

lemma chunkPayloadData_unmarshal_no_panic [no_panic]: "chunkPayloadData_unmarshal raw \<noteq> Inl Panic"
  by (auto simp: chunk_unmarshal_defs bind_res_eq_Panic no_panic payloadDataHeaderSize_def
      get_be32_at_long get_be16_at_long)

lemma chunkSelectiveAck_unmarshal_no_panic [no_panic]: "chunkSelectiveAck_unmarshal raw \<noteq> Inl Panic"
  by (auto simp: chunk_unmarshal_defs bind_res_eq_Panic no_panic selectiveAckHeaderSize_def
      get_be32_at_long get_be16_at_long codec_pair.decode_seq_no_panic codec32.decode_seq_no_panic)

lemma chunk_unmarshal_no_panic [no_panic]: "chunk_unmarshal typ raw \<noteq> Inl Panic"
  by (simp add: chunk_unmarshal_def no_panic)

text \<open>An accepted chunk keeps its embedded header, whose value lies inside the bytes read.\<close>

lemma chunk_unmarshal_header:
  "chunk_unmarshal typ raw = Inr c \<Longrightarrow> chunkHeader_unmarshal raw = Inr (fst c)"
  by (auto simp: chunk_unmarshal_def chunk_unmarshal_defs bind_res_eq_Inr Let_def split: if_splits)

lemma chunk_unmarshal_length:
  "chunk_unmarshal typ raw = Inr c \<Longrightarrow> 4 + valueLength c \<le> length raw"
  by (drule chunk_unmarshal_header) (rule chunkHeader_unmarshal_Inr)

section \<open>Round trips\<close>

text \<open>The part of a DATA chunk that is on the wire.\<close>

definition wire_payload :: "chunkPayloadData \<Rightarrow> chunkPayloadData" where
  "wire_payload p = zero_payload\<lparr>pd_immediateSack := pd_immediateSack p, pd_unordered := pd_unordered p,
     pd_beginningFragment := pd_beginningFragment p, pd_endingFragment := pd_endingFragment p,
     pd_tsn := pd_tsn p, pd_streamIdentifier := pd_streamIdentifier p,
     pd_streamSequenceNumber := pd_streamSequenceNumber p, pd_payloadType := pd_payloadType p,
     pd_userData := pd_userData p\<rparr>"

fun wire_body :: "chunk_body \<Rightarrow> chunk_body" where
  "wire_body (ChunkPayloadData p) = ChunkPayloadData (wire_payload p)"
| "wire_body (ChunkAbort es) = ChunkAbort (map (\<lambda>e. (cause_header_of e, snd e)) es)"
| "wire_body (ChunkError es) = ChunkError (map (\<lambda>e. (cause_header_of e, snd e)) es)"
| "wire_body b = b"

definition wf_init :: "chunkInitCommon \<Rightarrow> bool" where
  "wf_init i \<longleftrightarrow> (\<forall>p \<in> set (ic_params i). wf_param p) \<and>
     (ic_params i \<noteq> [] \<longrightarrow> param_raw (last (ic_params i)) \<noteq> []) \<and> ic_unrecognizedParams i = []"

text \<open>The chunks that survive a round trip. HEARTBEAT has no encoder of its own and HEARTBEAT ACK
  no decoder.\<close>

fun wf_chunk :: "chunk \<Rightarrow> bool" where
  "wf_chunk (h, ChunkInit i) \<longleftrightarrow> ch_flags h = 0 \<and> wf_init i"
| "wf_chunk (h, ChunkInitAck i) \<longleftrightarrow> ch_flags h = 0 \<and> wf_init i"
| "wf_chunk (h, ChunkAbort es) \<longleftrightarrow> (\<forall>e \<in> set es. wf_cause e)"
| "wf_chunk (h, ChunkError es) \<longleftrightarrow> (\<forall>e \<in> set es. wf_cause e)"
| "wf_chunk (h, ChunkReconfig a b) \<longleftrightarrow> wf_param a \<and> (\<forall>pb \<in> set_option b. wf_param pb)"
| "wf_chunk (h, ChunkHeartbeat ps) \<longleftrightarrow> False"
| "wf_chunk (h, ChunkHeartbeatAck ps) \<longleftrightarrow> False"
| "wf_chunk (h, b) \<longleftrightarrow> True"

text \<open>ABORT and ERROR read their causes to the end of the packet, so they must come last.\<close>

fun must_be_last :: "chunk_body \<Rightarrow> bool" where
  "must_be_last (ChunkAbort es) = True"
| "must_be_last (ChunkError es) = True"
| "must_be_last b = False"

definition trailing_ok :: "chunk \<Rightarrow> bytes \<Rightarrow> bool" where
  "trailing_ok c rest \<longleftrightarrow> padding_ok rest \<and> (must_be_last (snd c) \<longrightarrow> length rest < 4)"

lemma param_marshal_length: "param_marshal p = ok pp \<Longrightarrow> length pp = 4 + length (param_raw p)"
  by (auto simp: param_marshal_def paramHeader_marshal_def)

lemma initParams_marshal_length: "initParams_marshal ps = ok bs \<Longrightarrow> ps \<noteq> [] \<Longrightarrow> 4 \<le> length bs"
  by (cases ps) (auto simp: bind_res_eq_Inr padByte_of_nat dest!: param_marshal_length)

lemma initParams_end: "length raw \<le> offset \<Longrightarrow> initParams raw offset ps us = ok (ps, us)"
  by (subst initParams.simps) simp

lemma initParams_step:
  assumes "wf_param p" "param_marshal p = ok pp" "4 < length (pp @ r)"
  shows "initParams (pre @ pp @ r) (length pre) ps us =
    initParams (pre @ pp @ r) (length pre + length pp + getPadding (length pp)) (ps @ [p]) us"
proof -
  have "ph_len (param_header_of p) = length pp" "ph_typ (param_header_of p) = param_typ p"
    using param_marshal_length [OF assms(2)] by (simp_all add: param_header_of_def paramHeaderLength_def)
  then show ?thesis
    using param_header_roundtrip [OF assms(1,2), of r] buildParam_marshal [OF assms(1,2), of r] assms(3)
    by (subst initParams.simps) (simp add: initOptionalVarHeaderLength_def Let_def)
qed

lemma initParams_roundtrip:
  "\<forall>p \<in> set ps. wf_param p \<Longrightarrow> ps \<noteq> [] \<longrightarrow> param_raw (last ps) \<noteq> [] \<Longrightarrow>
   initParams_marshal ps = ok bs \<Longrightarrow> initParams (pre @ bs) (length pre) acc us = ok (acc @ ps, us)"
proof (induction ps arbitrary: pre bs acc)
  case Nil
  then show ?case by (simp add: initParams_end)
next
  case (Cons p ps)
  from Cons.prems(3) obtain pp r where pp: "param_marshal p = ok pp" and r: "initParams_marshal ps = ok r"
    and bs: "bs = (if ps \<noteq> [] then pp @ replicate (getPadding (length pp)) 0 else pp) @ r"
    by (auto simp: bind_res_eq_Inr padByte_of_nat)
  have wf: "wf_param p" using Cons.prems(1) by simp
  show ?case
  proof (cases "ps = []")
    case True
    with Cons.prems(2) pp have "4 < length pp" by (cases "param_raw p") (simp_all add: param_marshal_length)
    with True r bs show ?thesis
      using initParams_step [OF wf pp, of "[]" pre acc us] by (simp add: initParams_end)
  next
    case False
    let ?z = "replicate (getPadding (length pp)) 0"
    have "4 < length (pp @ ?z @ r)"
      using initParams_marshal_length [OF r False] param_marshal_length [OF pp] by (cases r) simp_all
    moreover have "initParams ((pre @ pp @ ?z) @ r) (length (pre @ pp @ ?z)) (acc @ [p]) us = ok ((acc @ [p]) @ ps, us)"
      using Cons.prems False by (intro Cons.IH) (simp_all add: r)
    ultimately show ?thesis
      using initParams_step [OF wf pp, of "?z @ r" pre acc us] False bs by (simp add: add.assoc)
  qed
qed

lemma chunkInitCommon_roundtrip:
  assumes "wf_init i" "chunkInitCommon_marshal i = ok bs"
  shows "chunkInitCommon_unmarshal bs = ok i" "16 \<le> length bs"
proof -
  obtain ps where m: "initParams_marshal (ic_params i) = ok ps"
    and bs: "bs = (put_be32 (ic_initiateTag i) @ put_be32 (ic_advertisedReceiverWindowCredit i)
         @ put_be16 (ic_numOutboundStreams i) @ put_be16 (ic_numInboundStreams i)
         @ put_be32 (ic_initialTSN i)) @ ps" (is "_ = ?pre @ ps")
    using assms(2) by (auto simp: chunkInitCommon_marshal_def bind_res_eq_Inr)
  have "initParams (?pre @ ps) 16 [] [] = ok (ic_params i, [])"
    using initParams_roundtrip [of "ic_params i" ps ?pre "[]" "[]"] assms(1) m by (simp add: wf_init_def)
  then show "chunkInitCommon_unmarshal bs = ok i"
    using assms(1) by (simp add: bs chunkInitCommon_unmarshal_def initChunkMinLength_def codec wf_init_def)
  show "16 \<le> length bs" by (simp add: bs)
qed

lemma payload_flags_bits:
  "payload_flags p AND 8 \<noteq> 0 \<longleftrightarrow> pd_immediateSack p"
  "payload_flags p AND 4 \<noteq> 0 \<longleftrightarrow> pd_unordered p"
  "payload_flags p AND 2 \<noteq> 0 \<longleftrightarrow> pd_beginningFragment p"
  "payload_flags p AND 1 \<noteq> 0 \<longleftrightarrow> pd_endingFragment p"
  by (simp_all add: payload_flags_def Let_def)

lemma chunkPayloadData_roundtrip:
  assumes "chunkPayloadData_marshal p = ok bs" "length bs < 2 ^ 16" "padding_ok rest"
  shows "chunkPayloadData_unmarshal (bs @ rest) = ok (header_of bs, ChunkPayloadData (wire_payload p))"
  using chunkHeader_roundtrip [OF assms(1) [unfolded chunkPayloadData_marshal_def] assms(2,3)]
  by (simp add: chunkPayloadData_unmarshal_def payloadDataHeaderSize_def codec wire_payload_def
      payload_flags_bits)

lemma chunkInit_roundtrip:
  assumes "wf_init i" "chunkInit_marshal 0 i = ok bs" "length bs < 2 ^ 16" "padding_ok rest"
  shows "chunkInit_unmarshal (bs @ rest) = ok (header_of bs, ChunkInit i)"
proof -
  obtain raw where raw: "chunkInitCommon_marshal i = ok raw" and m: "chunkHeader_marshal ctInit 0 raw = ok bs"
    using assms(2) by (auto simp: chunkInit_marshal_def bind_res_eq_Inr)
  show ?thesis
    using chunkHeader_roundtrip [OF m assms(3,4)] chunkInitCommon_roundtrip [OF assms(1) raw]
    by (simp add: chunkInit_unmarshal_def initChunkMinLength_def)
qed

lemma chunkInitAck_roundtrip:
  assumes "wf_init i" "chunkInitAck_marshal 0 i = ok bs" "length bs < 2 ^ 16" "padding_ok rest"
  shows "chunkInitAck_unmarshal (bs @ rest) = ok (header_of bs, ChunkInitAck i)"
proof -
  obtain raw where raw: "chunkInitCommon_marshal i = ok raw" and m: "chunkHeader_marshal ctInitAck 0 raw = ok bs"
    using assms(2) by (auto simp: chunkInitAck_marshal_def bind_res_eq_Inr)
  show ?thesis
    using chunkHeader_roundtrip [OF m assms(3,4)] chunkInitCommon_roundtrip [OF assms(1) raw]
    by (simp add: chunkInitAck_unmarshal_def initChunkMinLength_def)
qed

lemma sack_lists_roundtrip:
  fixes gs :: "gapAckBlock list" and ds :: "u32 list"
  defines "raw c a m n \<equiv>
    put_be32 c @ put_be32 a @ put_be16 m @ put_be16 n @ concat (map put_pair16 gs) @ concat (map put_be32 ds)"
  shows "decode_seq get_pair16 4 (raw c a m n) 12 (length gs) = Inr gs"
    and "decode_seq get_be32 4 (raw c a m n) (12 + 4 * length gs) (length ds) = Inr ds"
proof -
  let ?pre = "put_be32 c @ put_be32 a @ put_be16 m @ put_be16 n"
  show "decode_seq get_pair16 4 (raw c a m n) 12 (length gs) = Inr gs"
    using codec_pair.decode_seq_concat [of 12 ?pre "length gs" gs "concat (map put_be32 ds)"]
    by (simp add: raw_def)
  show "decode_seq get_be32 4 (raw c a m n) (12 + 4 * length gs) (length ds) = Inr ds"
    using codec32.decode_seq_concat [of "12 + 4 * length gs" "?pre @ concat (map put_pair16 gs)" "length ds" ds "[]"]
    by (simp add: raw_def codec_pair.length_concat_put)
qed

lemma chunkSelectiveAck_roundtrip:
  assumes m: "chunkSelectiveAck_marshal flags s = ok bs" and "length bs < 2 ^ 16" "padding_ok rest"
  shows "chunkSelectiveAck_unmarshal (bs @ rest) = ok (header_of bs, ChunkSelectiveAck s)"
proof -
  let ?g = "sa_gapAckBlocks s" and ?d = "sa_duplicateTSN s"
  define ng :: u16 where "ng = of_nat (length ?g)"
  define nd :: u16 where "nd = of_nat (length ?d)"
  let ?pre = "put_be32 (sa_cumulativeTSNAck s) @ put_be32 (sa_advertisedReceiverWindowCredit s)
        @ put_be16 ng @ put_be16 nd"
  let ?raw = "?pre @ concat (map put_pair16 ?g) @ concat (map put_be32 ?d)"
  have m': "chunkHeader_marshal ctSack flags ?raw = ok bs"
    using m by (simp add: chunkSelectiveAck_marshal_def ng_def nd_def)
  have "length ?raw + 4 = length bs" using m' by (auto simp: chunkHeader_marshal_Inr)
  then have "length ?raw < 2 ^ 16" using assms(2) by simp
  then have "length ?g < 2 ^ LENGTH(16)" "length ?d < 2 ^ LENGTH(16)"
    by (simp_all add: codec_pair.length_concat_put codec32.length_concat_put)
  then have n: "unat ng = length ?g" "unat nd = length ?d"
    unfolding ng_def nd_def by (simp_all only: unat_of_nat_small)
  show ?thesis
    using chunkHeader_roundtrip [OF m' assms(2,3)] n
    by (simp add: chunkSelectiveAck_unmarshal_def selectiveAckHeaderSize_def codec sack_lists_roundtrip
        codec_pair.length_concat_put codec32.length_concat_put)
qed

lemma errorCauses_roundtrip:
  "\<forall>e \<in> set es. wf_cause e \<Longrightarrow> errorCauses_marshal es = ok bs \<Longrightarrow> length rest < 4 \<Longrightarrow>
   errorCauses failed (pre @ bs @ rest) (length pre) acc =
     ok (acc @ map (\<lambda>e. (cause_header_of e, snd e)) es)"
proof (induction es arbitrary: pre bs acc)
  case Nil
  then show ?case by (subst errorCauses.simps) simp
next
  case (Cons e es)
  from Cons.prems(1) have wf: "wf_cause e" by simp
  from errorCause_marshal_build [OF wf] obtain b where b: "errorCause_marshal e = ok b"
    "length b = 4 + length (cause_value e)"
    "\<And>rest. buildErrorCause (b @ rest) = ok (cause_header_of e, snd e)" by blast
  with Cons.prems(2) obtain bs' where bs': "errorCauses_marshal es = ok bs'" "bs = b @ bs'"
    by (auto simp: bind_res_eq_Inr)
  have "unat (ec_len (cause_header_of e)) = length b"
    unfolding cause_header_of_def b(2) errorCauseHeader.simps
    by (rule unat_of_nat_small) (use wf_cause_length [OF wf] in simp)
  then show ?case
    using Cons.IH [of bs' "pre @ b" "acc @ [(cause_header_of e, snd e)]"] Cons.prems bs' b
    by (subst errorCauses.simps) simp
qed

lemma errors_roundtrip:
  assumes "\<forall>e \<in> set es. wf_cause e" "length bs < 2 ^ 16" "padding_ok rest" "length rest < 4"
  shows "chunkAbort_marshal es = ok bs \<Longrightarrow>
      chunkAbort_unmarshal (bs @ rest) = ok (header_of bs, wire_body (ChunkAbort es))"
    and "chunkError_marshal es = ok bs \<Longrightarrow>
      chunkError_unmarshal (bs @ rest) = ok (header_of bs, wire_body (ChunkError es))"
proof -
  have *: "errorCauses failed (bs @ rest) 4 [] = ok (map (\<lambda>e. (cause_header_of e, snd e)) es)"
    if raw: "errorCauses_marshal es = ok raw" and m: "chunkHeader_marshal ty 0 raw = ok bs" for failed raw ty
    using errorCauses_roundtrip [OF assms(1) raw assms(4), of failed "[ty, 0] @ put_be16 (of_nat (length raw + 4))" "[]"]
      m [unfolded chunkHeader_marshal_Inr] by simp
  show "chunkAbort_unmarshal (bs @ rest) = ok (header_of bs, wire_body (ChunkAbort es))"
    if "chunkAbort_marshal es = ok bs"
    using that by (auto simp: chunkAbort_marshal_def chunkAbort_unmarshal_def chunkHeaderSize_def *
        chunkHeader_roundtrip [OF _ assms(2,3)] dest!: bind_res_eq_Inr [THEN iffD1])
  show "chunkError_unmarshal (bs @ rest) = ok (header_of bs, wire_body (ChunkError es))"
    if "chunkError_marshal es = ok bs"
    using that by (auto simp: chunkError_marshal_def chunkError_unmarshal_def chunkHeaderSize_def *
        chunkHeader_roundtrip [OF _ assms(2,3)] dest!: bind_res_eq_Inr [THEN iffD1])
qed

lemma chunkReconfig_roundtrip:
  assumes "wf_param a" "\<forall>pb \<in> set_option b. wf_param pb" "chunkReconfig_marshal flags a b = ok bs"
    "length bs < 2 ^ 16" "padding_ok rest"
  shows "chunkReconfig_unmarshal (bs @ rest) = ok (header_of bs, ChunkReconfig a b)"
proof -
  obtain outA where outA: "param_marshal a = ok outA"
    using assms(3) by (auto simp: chunkReconfig_marshal_def bind_res_eq_Inr)
  have pt: "parseParamType (x @ r) = ok (param_typ p)" if "param_marshal p = ok x" for p x r
    using that by (auto simp: param_marshal_def paramHeader_marshal_def parseParamType_def)
  have len: "ph_len (param_header_of a) = length outA"
    using param_marshal_length [OF outA] by (simp add: param_header_of_def paramHeaderLength_def)
  let ?z = "replicate (getPadding (length outA)) 0"
  show ?thesis
  proof (cases b)
    case None
    then have m: "chunkHeader_marshal ctReconfig flags outA = ok bs"
      using assms(3) outA by (simp add: chunkReconfig_marshal_def)
    show ?thesis
      using chunkHeader_roundtrip [OF m assms(4,5)] pt [OF outA, of "[]"] None len
        buildParam_marshal [OF assms(1) outA, of "[]"]
      by (simp add: chunkReconfig_unmarshal_def)
  next
    case (Some pb)
    then obtain outB where outB: "param_marshal pb = ok outB"
      and m: "chunkHeader_marshal ctReconfig flags (outA @ ?z @ outB) = ok bs"
      using assms(3) outA by (auto simp: chunkReconfig_marshal_def bind_res_eq_Inr)
    have "wf_param pb" using assms(2) Some by simp
    moreover have "outB \<noteq> []" using param_marshal_length [OF outB] by auto
    ultimately show ?thesis
      using chunkHeader_roundtrip [OF m assms(4,5)] pt [OF outA] pt [OF outB, of "[]"] Some len
        buildParam_marshal [OF assms(1) outA] buildParam_marshal [OF _ outB, of "[]"]
      by (simp add: chunkReconfig_unmarshal_def Let_def)
  qed
qed

lemma forwardTSNStreams_roundtrip:
  "forwardTSNStreams (pre @ concat (map put_pair16 ss)) (length pre) acc = ok (acc @ ss)"
proof (induction ss arbitrary: pre acc)
  case Nil
  then show ?case by (subst forwardTSNStreams.simps) simp
next
  case (Cons s ss)
  have "chunkForwardTSNStream_unmarshal (put_pair16 s @ r) = ok s" for r
    by (simp add: chunkForwardTSNStream_unmarshal_def put_pair16_def forwardTSNStreamLength_def codec)
  then show ?case
    using Cons.IH [of "pre @ put_pair16 s" "acc @ [s]"]
    by (subst forwardTSNStreams.simps) (simp add: codec_pair.length_put_item forwardTSNStreamLength_def)
qed

lemma chunkForwardTSN_roundtrip:
  assumes "chunkForwardTSN_marshal flags tsn ss = ok bs" "length bs < 2 ^ 16" "padding_ok rest"
  shows "chunkForwardTSN_unmarshal (bs @ rest) = ok (header_of bs, ChunkForwardTSN tsn ss)"
  using chunkHeader_roundtrip [OF assms(1) [unfolded chunkForwardTSN_marshal_def] assms(2,3)]
    forwardTSNStreams_roundtrip [of "put_be32 tsn" ss "[]"]
  by (simp add: chunkForwardTSN_unmarshal_def newCumulativeTSNLength_def codec)

lemmas simple_marshal_defs = chunkShutdown_marshal_def chunkShutdownAck_marshal_def
  chunkShutdownComplete_marshal_def chunkCookieEcho_marshal_def chunkCookieAck_marshal_def

lemma simple_roundtrip:
  assumes "length bs < 2 ^ 16" "padding_ok rest"
  shows "chunkShutdown_marshal flags t = ok bs \<Longrightarrow>
      chunkShutdown_unmarshal (bs @ rest) = ok (header_of bs, ChunkShutdown t)"
    and "chunkShutdownAck_marshal h = ok bs \<Longrightarrow>
      chunkShutdownAck_unmarshal (bs @ rest) = ok (header_of bs, ChunkShutdownAck)"
    and "chunkShutdownComplete_marshal h = ok bs \<Longrightarrow>
      chunkShutdownComplete_unmarshal (bs @ rest) = ok (header_of bs, ChunkShutdownComplete)"
    and "chunkCookieEcho_marshal flags c = ok bs \<Longrightarrow>
      chunkCookieEcho_unmarshal (bs @ rest) = ok (header_of bs, ChunkCookieEcho c)"
    and "chunkCookieAck_marshal h = ok bs \<Longrightarrow>
      chunkCookieAck_unmarshal (bs @ rest) = ok (header_of bs, ChunkCookieAck)"
  by (simp_all add: simple_marshal_defs chunk_unmarshal_defs chunkHeader_roundtrip [OF _ assms]
      cumulativeTSNAckLength_def codec)

lemma chunkHeader_marshal_hd: "chunkHeader_marshal ty flags raw = ok bs \<Longrightarrow> bs ! 0 = ty"
  by (auto simp: chunkHeader_marshal_Inr)

lemmas chunk_roundtrips = chunkPayloadData_roundtrip chunkInit_roundtrip chunkInitAck_roundtrip
  chunkSelectiveAck_roundtrip errors_roundtrip chunkReconfig_roundtrip chunkForwardTSN_roundtrip
  simple_roundtrip

lemmas chunk_marshal_defs = chunkPayloadData_marshal_def chunkInit_marshal_def chunkInitAck_marshal_def
  chunkSelectiveAck_marshal_def chunkAbort_marshal_def chunkError_marshal_def
  chunkReconfig_marshal_def chunkForwardTSN_marshal_def simple_marshal_defs

text \<open>The type byte that \<^verbatim>\<open>marshal\<close> writes, which selects the decoder.\<close>

fun body_type :: "chunk_body \<Rightarrow> u8" where
  "body_type (ChunkPayloadData p) = ctPayloadData"
| "body_type (ChunkInit i) = ctInit"
| "body_type (ChunkInitAck i) = ctInitAck"
| "body_type (ChunkSelectiveAck s) = ctSack"
| "body_type (ChunkHeartbeat ps) = ctHeartbeat"
| "body_type (ChunkHeartbeatAck ps) = ctHeartbeatAck"
| "body_type (ChunkAbort es) = ctAbort"
| "body_type (ChunkShutdown t) = ctShutdown"
| "body_type ChunkShutdownAck = ctShutdownAck"
| "body_type (ChunkError es) = ctError"
| "body_type (ChunkCookieEcho c) = ctCookieEcho"
| "body_type ChunkCookieAck = ctCookieAck"
| "body_type ChunkShutdownComplete = ctShutdownComplete"
| "body_type (ChunkReconfig a b) = ctReconfig"
| "body_type (ChunkForwardTSN t ss) = ctForwardTSN"

lemma chunk_marshal_type:
  assumes "wf_chunk c" "chunk_marshal c = ok bs"
  shows "bs ! 0 = body_type (snd c)"
  using assms
  by (cases c rule: chunk_marshal.cases)
    (auto simp: chunk_marshal_defs bind_res_eq_Inr chunkHeader_marshal_hd split: option.splits)

lemma chunk_marshal_length: "wf_chunk c \<Longrightarrow> chunk_marshal c = ok bs \<Longrightarrow> 4 \<le> length bs"
  by (cases c rule: chunk_marshal.cases)
    (auto simp: chunk_marshal_defs bind_res_eq_Inr chunkHeader_marshal_Inr split: option.splits)

lemma chunk_roundtrip:
  assumes "wf_chunk c" "chunk_marshal c = ok bs" "length bs < 2 ^ 16" "trailing_ok c rest"
  shows "chunk_unmarshal (body_type (snd c)) (bs @ rest) = ok (header_of bs, wire_body (snd c))"
  using assms
  by (cases c rule: chunk_marshal.cases)
    (simp_all add: chunk_unmarshal_def chunkType_defs trailing_ok_def chunk_roundtrips del: wire_body.simps,
     simp_all add: chunk_roundtrips)

section \<open>A trailing empty parameter\<close>

lemma initParams_marshal_snoc_ne: "initParams_marshal (ps @ [p]) = ok bs \<Longrightarrow> 4 \<le> length bs"
  by (erule initParams_marshal_length) simp

lemma initParams_drops_last:
  "\<forall>p \<in> set ps. wf_param p \<Longrightarrow> param_raw p = [] \<Longrightarrow> initParams_marshal (ps @ [p]) = ok bs \<Longrightarrow>
   initParams (pre @ bs) (length pre) acc us = ok (acc @ ps, us)"
proof (induction ps arbitrary: pre bs acc)
  case Nil
  then have "length bs = 4" by (auto simp: bind_res_eq_Inr dest!: param_marshal_length)
  then show ?case by (subst initParams.simps) (simp add: initOptionalVarHeaderLength_def)
next
  case (Cons q ps)
  from Cons.prems(3) obtain pp r where pp: "param_marshal q = ok pp" and r: "initParams_marshal (ps @ [p]) = ok r"
    and bs: "bs = pp @ replicate (getPadding (length pp)) 0 @ r"
    by (auto simp: bind_res_eq_Inr)
  let ?z = "replicate (getPadding (length pp)) 0"
  have "4 < length (pp @ ?z @ r)"
    using initParams_marshal_snoc_ne [OF r] param_marshal_length [OF pp] by (cases r) simp_all
  moreover have "initParams ((pre @ pp @ ?z) @ r) (length (pre @ pp @ ?z)) (acc @ [q]) us = ok ((acc @ [q]) @ ps, us)"
    using Cons.prems by (intro Cons.IH) (simp_all add: r)
  moreover have "wf_param q" using Cons.prems(1) by simp
  ultimately show ?case
    using initParams_step [OF _ pp, of "?z @ r" pre acc us] bs by (simp add: add.assoc)
qed

section \<open>Properties\<close>

text \<open>C17: the parameter loop of INIT and INIT ACK stops with four bytes left, so a parameter without value
  at the end of the list (\<^verbatim>\<open>ForwardTSNSupported\<close>, \<^verbatim>\<open>ECNCapable\<close>) is dropped without an error: the
  chunk decodes to the same chunk without its last parameter.\<close>

theorem chunkInitCommon_trailing_param_lost:
  assumes "\<forall>q \<in> set ps. wf_param q" "param_raw p = []" "ic_params i = ps @ [p]"
    "ic_unrecognizedParams i = []" "chunkInitCommon_marshal i = ok bs"
  shows "chunkInitCommon_unmarshal bs = ok (i\<lparr>ic_params := ps\<rparr>)"
proof -
  obtain e where m: "initParams_marshal (ps @ [p]) = ok e"
    and bs: "bs = (put_be32 (ic_initiateTag i) @ put_be32 (ic_advertisedReceiverWindowCredit i)
         @ put_be16 (ic_numOutboundStreams i) @ put_be16 (ic_numInboundStreams i)
         @ put_be32 (ic_initialTSN i)) @ e" (is "_ = ?pre @ e")
    using assms(3,5) by (auto simp: chunkInitCommon_marshal_def bind_res_eq_Inr)
  have "initParams (?pre @ e) 16 [] [] = ok (ps, [])"
    using initParams_drops_last [OF assms(1,2) m, of ?pre "[]" "[]"] by simp
  then show ?thesis
    using assms(4) by (simp add: bs chunkInitCommon_unmarshal_def initChunkMinLength_def codec)
qed

definition sample_init :: chunkInitCommon where
  "sample_init = \<lparr>ic_initiateTag = 1, ic_advertisedReceiverWindowCredit = 1500, ic_numOutboundStreams = 8,
     ic_numInboundStreams = 8, ic_initialTSN = 2, ic_params = [ParamForwardTSNSupported],
     ic_unrecognizedParams = []\<rparr>"

theorem chunkInitCommon_trailing_param_lost_witness:
  "\<exists>bs. chunkInitCommon_marshal sample_init = ok bs \<and>
    chunkInitCommon_unmarshal bs = ok (sample_init\<lparr>ic_params := []\<rparr>)"
proof -
  obtain bs where "chunkInitCommon_marshal sample_init = ok bs"
    by (auto simp: sample_init_def chunkInitCommon_marshal_def param_marshal_def paramHeader_marshal_def)
  moreover from this have "chunkInitCommon_unmarshal bs = ok (sample_init\<lparr>ic_params := []\<rparr>)"
    by (intro chunkInitCommon_trailing_param_lost [of "[]" ParamForwardTSNSupported]) (simp_all add: sample_init_def)
  ultimately show ?thesis by blast
qed

end
