(* ===== verification/Sctp_Packet.thy ===== *)
theory Sctp_Packet
  imports Sctp_Chunk_Laws
begin

text \<open>
  \<^verbatim>\<open>sctp/packet.go\<close>: the common header, the CRC32C checksum and the chunk loop. The standard
  library's table-driven \<^verbatim>\<open>crc32.Update\<close> is written out and proved equal to the bit-serial
  shift register, from which it follows that the checksum detects every corrupted byte.
\<close>

section \<open>CRC32C\<close>

text \<open>\<^verbatim>\<open>crc32.Castagnoli\<close>, in reversed bit order.\<close>

definition castagnoli :: u32 where "castagnoli = 0x82f63b78"

definition crc_shift :: "u32 \<Rightarrow> u32" where
  "crc_shift crc = (if crc AND 1 = 1 then drop_bit 1 crc XOR castagnoli else drop_bit 1 crc)"

text \<open>An entry of \<^verbatim>\<open>crc32.MakeTable(crc32.Castagnoli)\<close>: eight shifts of the index.\<close>

definition castagnoliTable :: "u8 \<Rightarrow> u32" where
  "castagnoliTable i = (crc_shift ^^ 8) (ucast i)"

definition crc_step :: "u32 \<Rightarrow> u8 \<Rightarrow> u32" where
  "crc_step crc v = castagnoliTable (ucast crc XOR v) XOR drop_bit 8 crc"

definition crc32_Update :: "u32 \<Rightarrow> bytes \<Rightarrow> u32" where
  "crc32_Update crc p = NOT (fold (\<lambda>v c. crc_step c v) p (NOT crc))"

section \<open>Packets\<close>

record packet =
  pk_sourcePort :: u16
  pk_destinationPort :: u16
  pk_verificationTag :: u32
  pk_chunks :: "chunk list"

definition packetHeaderSize :: nat where "packetHeaderSize = 12"

definition fourZeroes :: bytes where "fourZeroes = [0, 0, 0, 0]"

definition generatePacketChecksum :: "bytes \<Rightarrow> (sctp_err, u32) res" where
  "generatePacketChecksum raw =
     bind_res (slice_range raw 0 8) (\<lambda>head.
     bind_res (slice_from raw 12) (\<lambda>tail.
       let sum = crc32_Update 0 head;
           sum = crc32_Update sum fourZeroes;
           sum = crc32_Update sum tail
       in ok sum))"

text \<open>The chunk loop of \<^verbatim>\<open>packet.unmarshal\<close>.\<close>

function packet_chunks :: "bytes \<Rightarrow> nat \<Rightarrow> chunk list \<Rightarrow> (sctp_err, chunk list) res" where
  "packet_chunks raw offset cs =
     (if offset = length raw then ok cs
      else if offset + chunkHeaderSize > length raw then fail (HeaderE ErrParseSCTPChunkNotEnoughData)
      else bind_res (index_at raw offset) (\<lambda>typ.
        bind_res (slice_from raw offset) (\<lambda>r.
        bind_res (chunk_unmarshal typ r) (\<lambda>c.
          packet_chunks raw (offset + (chunkHeaderSize + valueLength c + getPadding (valueLength c)))
            (cs @ [c])))))"
  by pat_completeness auto
termination
  by (relation "measure (\<lambda>(raw, offset, cs). length raw - offset)") (auto simp: chunkHeaderSize_def)

declare packet_chunks.simps [simp del]

definition packet_unmarshal :: "bool \<Rightarrow> bytes \<Rightarrow> (sctp_err, packet) res" where
  "packet_unmarshal doChecksum raw =
     (if length raw < packetHeaderSize then fail (HeaderE ErrPacketRawTooSmall)
      else
        bind_res
          (if packetHeaderSize + chunkHeaderSize \<le> length raw then
             bind_res (index_at raw packetHeaderSize) (\<lambda>typ.
               ok (if typ = ctInit \<or> typ = ctCookieEcho then True else doChecksum))
           else ok doChecksum) (\<lambda>doChecksum.
        bind_res (bind_res (slice_from raw 8) get_le32) (\<lambda>theirChecksum.
        bind_res
          (if theirChecksum \<noteq> 0 \<or> doChecksum then
             bind_res (generatePacketChecksum raw) (\<lambda>ourChecksum.
               if theirChecksum \<noteq> ourChecksum then fail (HeaderE ErrChecksumMismatch) else ok ())
           else ok ()) (\<lambda>_.
        bind_res (get_be16_at raw 0) (\<lambda>src.
        bind_res (get_be16_at raw 2) (\<lambda>dst.
        bind_res (get_be32_at raw 4) (\<lambda>tag.
        bind_res (packet_chunks raw packetHeaderSize []) (\<lambda>cs.
          ok \<lparr>pk_sourcePort = src, pk_destinationPort = dst, pk_verificationTag = tag,
              pk_chunks = cs\<rparr>))))))))"

fun packet_append :: "bytes \<Rightarrow> chunk list \<Rightarrow> (sctp_err, bytes) res" where
  "packet_append raw [] = ok raw"
| "packet_append raw (c # cs) =
     bind_res (chunk_marshal c) (\<lambda>chunkRaw.
       let raw = raw @ chunkRaw;
           paddingNeeded = getPadding (length raw);
           raw = (if paddingNeeded \<noteq> 0 then raw @ replicate paddingNeeded 0 else raw)
       in packet_append raw cs)"

definition packet_marshal :: "bool \<Rightarrow> packet \<Rightarrow> (sctp_err, bytes) res" where
  "packet_marshal doChecksum p =
     bind_res (packet_append (put_be16 (pk_sourcePort p) @ put_be16 (pk_destinationPort p)
                 @ put_be32 (pk_verificationTag p) @ [0, 0, 0, 0]) (pk_chunks p)) (\<lambda>raw.
       if doChecksum then
         bind_res (generatePacketChecksum raw) (\<lambda>sum. ok (take 8 raw @ put_le32 sum @ drop 12 raw))
       else ok raw)"

text \<open>\<^verbatim>\<open>TryMarshalUnmarshal\<close>, the entry point for fuzzing.\<close>

definition TryMarshalUnmarshal :: "bytes \<Rightarrow> (sctp_err, int) res" where
  "TryMarshalUnmarshal msg =
     (case packet_unmarshal False msg of
        Inl Panic \<Rightarrow> Inl Panic
      | Inl (Err _) \<Rightarrow> ok 0
      | Inr p \<Rightarrow> (case packet_marshal False p of
                   Inl Panic \<Rightarrow> Inl Panic
                 | Inl (Err _) \<Rightarrow> ok 0
                 | Inr _ \<Rightarrow> ok 1))"

section \<open>Checksum policy of an association\<close>

text \<open>\<^verbatim>\<open>chunkMandatoryChecksum\<close>, \<^verbatim>\<open>marshalPacket\<close> and \<^verbatim>\<open>unmarshalPacket\<close> of association.go.\<close>

fun is_mandatory_checksum :: "chunk \<Rightarrow> bool" where
  "is_mandatory_checksum (h, ChunkInit i) = True"
| "is_mandatory_checksum (h, ChunkCookieEcho c) = True"
| "is_mandatory_checksum (h, b) = False"

definition chunkMandatoryChecksum :: "chunk list \<Rightarrow> bool" where
  "chunkMandatoryChecksum cc \<longleftrightarrow> list_ex is_mandatory_checksum cc"

definition marshalPacket :: "bool \<Rightarrow> packet \<Rightarrow> (sctp_err, bytes) res" where
  "marshalPacket sendZeroChecksum p =
     packet_marshal (\<not> sendZeroChecksum \<or> chunkMandatoryChecksum (pk_chunks p)) p"

definition unmarshalPacket :: "bool \<Rightarrow> bytes \<Rightarrow> (sctp_err, packet) res" where
  "unmarshalPacket recvZeroChecksum raw = packet_unmarshal (\<not> recvZeroChecksum) raw"

section \<open>The checksum as a shift register\<close>

lemma castagnoli_bit_31: "bit castagnoli 31"
  by (simp add: castagnoli_def bit_simps)

lemma and_one_eq_bit: "(c :: u32) AND 1 = 1 \<longleftrightarrow> bit c 0"
  by (simp add: and_one_eq bit_0 odd_iff_mod_2_eq_one)

lemma bit_crc_shift: "bit (crc_shift c) n \<longleftrightarrow> (bit c (Suc n) \<noteq> (bit c 0 \<and> bit castagnoli n))"
  by (auto simp: crc_shift_def and_one_eq_bit bit_simps)

lemma crc_shift_xor: "crc_shift (a XOR b) = crc_shift a XOR crc_shift b"
  by (rule bit_word_eqI) (auto simp: bit_crc_shift bit_xor_iff)

lemma crc_shifts_xor: "(crc_shift ^^ n) (a XOR b) = (crc_shift ^^ n) a XOR (crc_shift ^^ n) b"
  by (induction n) (simp_all add: crc_shift_xor)

text \<open>The register loses nothing: the polynomial's top bit shows which bit was shifted out.\<close>

lemma inj_crc_shift: "inj crc_shift"
proof (rule injI)
  fix a b assume eq: "crc_shift a = crc_shift b"
  have high: "\<not> bit (w :: u32) 32" for w by (auto dest: bit_imp_le_length)
  from eq have *: "bit (crc_shift a) n = bit (crc_shift b) n" for n by simp
  have "bit a 0 = bit b 0" using * [of 31] castagnoli_bit_31 by (simp add: bit_crc_shift high)
  then have "bit a n = bit b n" for n
    using * [of "n - 1"] by (cases n) (auto simp: bit_crc_shift)
  then show "a = b" by (simp add: bit_eq_iff)
qed

lemma crc_shifts_eq_iff: "(crc_shift ^^ n) a = (crc_shift ^^ n) b \<longleftrightarrow> a = b"
  by (rule inj_eq) (rule inj_fn [OF inj_crc_shift])

lemma crc_shifts_high:
  "(\<And>k. k < n \<Longrightarrow> \<not> bit c k) \<Longrightarrow> (crc_shift ^^ n) c = drop_bit n c"
proof (induction n arbitrary: c)
  case (Suc n)
  then have "crc_shift c = drop_bit 1 c" by (simp add: crc_shift_def and_one_eq_bit)
  moreover have "(crc_shift ^^ n) (drop_bit 1 c) = drop_bit n (drop_bit 1 c)"
    using Suc.prems by (intro Suc.IH) (simp add: bit_drop_bit_eq)
  ultimately show ?case by (simp add: funpow_Suc_right del: funpow.simps)
qed simp

lemma crc_step_shifts: "crc_step crc v = (crc_shift ^^ 8) (crc XOR ucast v)"
proof -
  let ?low = "ucast (ucast crc XOR v :: u8) :: u32" and ?high = "push_bit 8 (drop_bit 8 crc)"
  have "crc XOR ucast v = ?low XOR ?high"
    by (rule bit_word_eqI) (auto simp: bit_simps)
  moreover have "(crc_shift ^^ 8) ?high = drop_bit 8 crc"
  proof -
    have "(crc_shift ^^ 8) ?high = drop_bit 8 ?high" by (rule crc_shifts_high) (simp add: bit_simps)
    also have "\<dots> = drop_bit 8 crc"
      by (rule bit_word_eqI) (auto simp: bit_simps dest: bit_imp_le_length)
    finally show ?thesis .
  qed
  ultimately show ?thesis
    by (simp only: crc_step_def castagnoliTable_def crc_shifts_xor)
qed

lemma xor_cancel [simp]:
  "(a :: 'w::len word) XOR b = a XOR c \<longleftrightarrow> b = c" "b XOR a = c XOR a \<longleftrightarrow> b = c"
  by (auto simp: bit_eq_iff bit_xor_iff)

lemma crc_step_inj: "crc_step c v = crc_step d v \<longleftrightarrow> c = d" "crc_step c v = crc_step c w \<longleftrightarrow> v = w"
proof -
  have "(ucast v :: u32) = ucast w \<longleftrightarrow> v = w"
  proof
    assume eq: "(ucast v :: u32) = ucast w"
    show "v = w"
    proof (rule bit_word_eqI)
      fix n assume "n < LENGTH(8)"
      moreover have "bit (ucast v :: u32) n = bit (ucast w :: u32) n" using eq by simp
      ultimately show "bit v n = bit w n" by (simp add: bit_simps)
    qed
  qed simp
  then show "crc_step c v = crc_step d v \<longleftrightarrow> c = d" "crc_step c v = crc_step c w \<longleftrightarrow> v = w"
    by (simp_all only: crc_step_shifts crc_shifts_eq_iff xor_cancel)
qed

lemma crc_fold_inj: "fold (\<lambda>v c. crc_step c v) xs c = fold (\<lambda>v c. crc_step c v) xs d \<longleftrightarrow> c = d"
  by (induction xs arbitrary: c d) (simp_all add: crc_step_inj)

lemma not_word_cancel: "NOT (a :: u32) = NOT b \<longleftrightarrow> a = b"
  by (auto simp: bit_eq_iff bit_not_iff)

lemma crc32_Update_append: "crc32_Update (crc32_Update c xs) ys = crc32_Update c (xs @ ys)"
  by (simp add: crc32_Update_def)

lemma crc32_Update_byte:
  "crc32_Update c (xs @ v # ys) = crc32_Update c (xs @ w # ys) \<longleftrightarrow> v = w"
  by (simp add: crc32_Update_def not_word_cancel crc_fold_inj crc_step_inj)

lemma crc32_Update_list_update:
  assumes "i < length xs" "b \<noteq> xs ! i"
  shows "crc32_Update c (xs[i := b]) \<noteq> crc32_Update c xs"
  using assms crc32_Update_byte [of c "take i xs" b "drop (Suc i) xs" "xs ! i"]
  by (simp add: upd_conv_take_nth_drop id_take_nth_drop [symmetric])

section \<open>Packet lemmas\<close>

lemma generatePacketChecksum_eq:
  "12 \<le> length raw \<Longrightarrow>
   generatePacketChecksum raw = ok (crc32_Update 0 (take 8 raw @ fourZeroes @ drop 12 raw))"
  by (simp add: generatePacketChecksum_def crc32_Update_append)

lemma packet_chunks_no_panic [no_panic]: "packet_chunks raw offset cs \<noteq> Inl Panic"
proof (induction "length raw - offset" arbitrary: offset cs rule: less_induct)
  case less
  show ?case
    by (subst packet_chunks.simps)
      (auto simp: no_panic bind_res_eq_Panic chunkHeaderSize_def elim!: notE [OF less, rotated])
qed

lemma packet_unmarshal_no_panic [no_panic]: "packet_unmarshal d raw \<noteq> Inl Panic"
  by (auto simp: packet_unmarshal_def packetHeaderSize_def chunkHeaderSize_def bind_res_eq_Panic
      get_le32_long get_be16_at_long get_be32_at_long generatePacketChecksum_eq no_panic split: if_splits)

text \<open>Whether \<^verbatim>\<open>unmarshal\<close> verifies the checksum, and the field it reads.\<close>

definition verifies :: "bool \<Rightarrow> bytes \<Rightarrow> bool" where
  "verifies d raw \<longleftrightarrow> d \<or> (16 \<le> length raw \<and> (raw ! 12 = ctInit \<or> raw ! 12 = ctCookieEcho))"

definition checksum_field :: "bytes \<Rightarrow> u32" where
  "checksum_field raw = be32 (raw ! 11) (raw ! 10) (raw ! 9) (raw ! 8)"

definition checksum_of :: "bytes \<Rightarrow> u32" where
  "checksum_of raw = crc32_Update 0 (take 8 raw @ fourZeroes @ drop 12 raw)"

lemma packet_unmarshal_eq:
  assumes "12 \<le> length raw"
  shows "packet_unmarshal d raw =
    (if (checksum_field raw \<noteq> 0 \<or> verifies d raw) \<and> checksum_field raw \<noteq> checksum_of raw
     then fail (HeaderE ErrChecksumMismatch)
     else bind_res (packet_chunks raw 12 []) (\<lambda>cs.
       ok \<lparr>pk_sourcePort = be16 (raw ! 0) (raw ! 1), pk_destinationPort = be16 (raw ! 2) (raw ! 3),
           pk_verificationTag = be32 (raw ! 4) (raw ! 5) (raw ! 6) (raw ! 7), pk_chunks = cs\<rparr>))"
proof -
  have le: "get_le32 (drop 8 raw) = ok (checksum_field raw)"
    using assms by (simp add: get_le32_long checksum_field_def)
  show ?thesis
    using assms
    by (auto simp: packet_unmarshal_def packetHeaderSize_def chunkHeaderSize_def le verifies_def
        checksum_of_def get_be16_at_long get_be32_at_long generatePacketChecksum_eq)
qed

lemma packet_unmarshal_short: "length raw < 12 \<Longrightarrow> packet_unmarshal d raw = fail (HeaderE ErrPacketRawTooSmall)"
  by (simp add: packet_unmarshal_def packetHeaderSize_def)

lemma packet_unmarshal_checksum:
  assumes "packet_unmarshal d raw = ok p" "checksum_field raw \<noteq> 0 \<or> verifies d raw"
  shows "12 \<le> length raw" "checksum_field raw = checksum_of raw"
proof -
  show "12 \<le> length raw" using assms(1) packet_unmarshal_short [of raw d] by fastforce
  from packet_unmarshal_eq [OF this, of d] assms show "checksum_field raw = checksum_of raw"
    by (auto split: if_splits)
qed

lemma checksum_field_update:
  assumes "8 \<le> i" "i < 12" "12 \<le> length raw" "b \<noteq> raw ! i"
  shows "checksum_field (raw[i := b]) \<noteq> checksum_field raw"
proof
  assume "checksum_field (raw[i := b]) = checksum_field raw"
  then have "put_be32 (checksum_field (raw[i := b])) = put_be32 (checksum_field raw)" by simp
  moreover have "i = 8 \<or> i = 9 \<or> i = 10 \<or> i = 11" using assms(1,2) by linarith
  ultimately show False using assms(3,4) by (auto simp: checksum_field_def)
qed

lemma checksum_of_update:
  assumes "i < 8 \<or> 12 \<le> i" "i < length raw" "12 \<le> length raw" "b \<noteq> raw ! i"
  shows "checksum_of (raw[i := b]) \<noteq> checksum_of raw"
proof -
  let ?body = "take 8 raw @ fourZeroes @ drop 12 raw"
  have "take 8 (raw[i := b]) @ fourZeroes @ drop 12 (raw[i := b]) = ?body[i := b]"
  proof (cases "i < 8")
    case True
    then show ?thesis using assms(3) by (simp add: list_update_append take_update_swap)
  next
    case False
    with assms(1) have "12 \<le> i" by simp
    then obtain j where j: "i = 12 + j" using le_Suc_ex by blast
    have "((take 8 raw @ fourZeroes) @ drop 12 raw)[12 + j := b] =
      (take 8 raw @ fourZeroes) @ (drop 12 raw)[j := b]"
      using assms(3) by (subst list_update_append) (simp add: fourZeroes_def)
    then show ?thesis by (simp add: j drop_update_swap)
  qed
  moreover have "i < length ?body" "?body ! i = raw ! i"
    using assms(1-3) by (auto simp: fourZeroes_def nth_append)
  ultimately show ?thesis
    using crc32_Update_list_update [of i ?body b 0] assms(4) by (simp add: checksum_of_def)
qed

lemma corruption_detected:
  assumes acc: "packet_unmarshal True raw = ok p" and i: "i < length raw" "b \<noteq> raw ! i"
  shows "packet_unmarshal True (raw[i := b]) = fail (HeaderE ErrChecksumMismatch)"
proof -
  have v: "verifies True x" for x by (simp add: verifies_def)
  have len: "12 \<le> length raw" and sum: "checksum_field raw = checksum_of raw"
    using packet_unmarshal_checksum [OF acc] v by auto
  have "checksum_field (raw[i := b]) \<noteq> checksum_of (raw[i := b])"
  proof (cases "8 \<le> i \<and> i < 12")
    case True
    then have "take 8 (raw[i := b]) = take 8 raw" "drop 12 (raw[i := b]) = drop 12 raw" by simp_all
    then have "checksum_of (raw[i := b]) = checksum_of raw" by (simp add: checksum_of_def)
    then show ?thesis using checksum_field_update [of i raw b] True len i sum by simp
  next
    case False
    then have "checksum_field (raw[i := b]) = checksum_field raw" by (auto simp: checksum_field_def)
    then show ?thesis using checksum_of_update [of i raw b] False len i sum by auto
  qed
  then show ?thesis using packet_unmarshal_eq [of "raw[i := b]" True] len v by simp
qed

section \<open>Packets round trip\<close>

text \<open>What the peer sees of a chunk: the header that was on the wire and the wire part of the body.\<close>

definition parsed_chunk :: "chunk \<Rightarrow> chunk" where
  "parsed_chunk c = (case chunk_marshal c of Inr bs \<Rightarrow> (header_of bs, wire_body (snd c)) | Inl _ \<Rightarrow> c)"

definition parsed_packet :: "packet \<Rightarrow> packet" where
  "parsed_packet p = p\<lparr>pk_chunks := map parsed_chunk (pk_chunks p)\<rparr>"

definition fits :: "chunk \<Rightarrow> bool" where
  "fits c \<longleftrightarrow> wf_chunk c \<and> (case chunk_marshal c of Inr bs \<Rightarrow> length bs < 2 ^ 16 | Inl _ \<Rightarrow> False)"

definition wf_packet :: "packet \<Rightarrow> bool" where
  "wf_packet p \<longleftrightarrow> (\<forall>c \<in> set (pk_chunks p). fits c) \<and>
     (\<forall>c \<in> set (butlast (pk_chunks p)). \<not> must_be_last (snd c))"

lemma packet_append_Cons:
  assumes "chunk_marshal c = ok b" "4 dvd length raw"
  shows "packet_append raw (c # cs) = packet_append (raw @ b @ replicate (getPadding (length b)) 0) cs"
proof -
  have "getPadding (length (raw @ b)) = getPadding (length b)"
    using assms(2) by (auto simp: getPadding_add_mult elim!: dvdE)
  then show ?thesis using assms(1) by (auto simp: Let_def)
qed

lemma packet_append_prefix:
  "\<forall>c \<in> set cs. fits c \<Longrightarrow> 4 dvd length raw \<Longrightarrow>
   \<exists>enc. packet_append raw cs = ok (raw @ enc) \<and> 4 dvd length enc \<and> (cs \<noteq> [] \<longrightarrow> 4 \<le> length enc)"
proof (induction cs arbitrary: raw)
  case (Cons c cs)
  then obtain b where b: "chunk_marshal c = ok b" and wf: "wf_chunk c"
    by (auto simp: fits_def split: sum.splits)
  let ?p = "b @ replicate (getPadding (length b)) 0"
  have d: "4 dvd length ?p" by (simp add: getPadding_dvd)
  then obtain enc where "packet_append (raw @ ?p) cs = ok ((raw @ ?p) @ enc)" "4 dvd length enc"
    using Cons.IH [of "raw @ ?p"] Cons.prems by auto
  moreover from this d have "4 dvd length (?p @ enc)" unfolding length_append by (metis dvd_add)
  moreover have "4 \<le> length (?p @ enc)" using chunk_marshal_length [OF wf b] by simp
  ultimately show ?case
    using packet_append_Cons [OF b Cons.prems(2), of cs]
    by (intro exI [of _ "?p @ enc"]) (simp del: packet_append.simps)
qed simp

lemma first_chunk_type:
  assumes "fits c" "chunk_marshal c = ok b" "4 dvd length raw" "\<forall>c \<in> set cs. fits c"
    "packet_append raw (c # cs) = ok (raw @ enc)"
  shows "enc ! 0 = body_type (snd c)"
proof -
  let ?p = "b @ replicate (getPadding (length b)) 0"
  have wf: "wf_chunk c" using assms(1) by (simp add: fits_def)
  have "4 dvd length (raw @ ?p)" using assms(3) by simp
  from packet_append_prefix [OF assms(4) this] obtain e where "packet_append (raw @ ?p) cs = ok ((raw @ ?p) @ e)"
    by blast
  with assms(5) packet_append_Cons [OF assms(2,3), of cs] have "enc = ?p @ e"
    by (simp del: packet_append.simps)
  then show ?thesis
    using chunk_marshal_type [OF wf assms(2)] chunk_marshal_length [OF wf assms(2)] by (cases b) simp_all
qed

lemma packet_chunks_step:
  assumes "fits c" "chunk_marshal c = ok b" "trailing_ok c (z @ enc)"
    and z: "z = replicate (getPadding (length b)) 0"
  shows "packet_chunks (pre @ b @ z @ enc) (length pre) acc =
    packet_chunks (pre @ b @ z @ enc) (length (pre @ b @ z)) (acc @ [parsed_chunk c])"
proof -
  have wf: "wf_chunk c" "length b < 2 ^ 16" using assms(1,2) by (simp_all add: fits_def)
  have len: "4 \<le> length b" by (rule chunk_marshal_length [OF wf(1) assms(2)])
  then have v: "valueLength (parsed_chunk c) = length b - 4"
    by (simp add: parsed_chunk_def assms(2) header_of_def)
  from getPadding_add_mult [of 4 "length b - 4"] len have gp: "getPadding (length b - 4) = getPadding (length b)" by simp
  have "(pre @ b @ z @ enc) ! length pre = body_type (snd c)"
    using chunk_marshal_type [OF wf(1) assms(2)] len by (cases b) simp_all
  moreover have "chunk_unmarshal (body_type (snd c)) (b @ z @ enc) = ok (parsed_chunk c)"
    using chunk_roundtrip [OF wf(1) assms(2) wf(2) assms(3)] by (simp add: parsed_chunk_def assms(2))
  moreover have "b \<noteq> []" using len by auto
  ultimately show ?thesis
    using len v gp by (subst packet_chunks.simps) (simp add: chunkHeaderSize_def z)
qed

lemma packet_chunks_roundtrip:
  "\<forall>c \<in> set cs. fits c \<Longrightarrow> \<forall>c \<in> set (butlast cs). \<not> must_be_last (snd c) \<Longrightarrow>
   packet_append raw cs = ok (raw @ enc) \<Longrightarrow> 4 dvd length raw \<Longrightarrow>
   packet_chunks (pre @ enc) (length pre) acc = ok (acc @ map parsed_chunk cs)"
proof (induction cs arbitrary: raw pre enc acc)
  case Nil
  then show ?case by (subst packet_chunks.simps) simp
next
  case (Cons c cs)
  from Cons.prems(1) obtain b where b: "chunk_marshal c = ok b" and fits: "fits c"
    by (auto simp: fits_def split: sum.splits)
  define z :: bytes where "z = replicate (getPadding (length b)) 0"
  have d: "4 dvd length (raw @ b @ z)" using Cons.prems(4) by (simp add: z_def getPadding_dvd)
  obtain enc' where enc': "packet_append (raw @ b @ z) cs = ok ((raw @ b @ z) @ enc')"
    and long: "cs \<noteq> [] \<longrightarrow> 4 \<le> length enc'"
    using packet_append_prefix [OF _ d, of cs] Cons.prems(1) by auto
  have enc: "enc = b @ z @ enc'"
    using Cons.prems(3) enc' packet_append_Cons [OF b Cons.prems(4), of cs] by (simp add: z_def)
  have "enc' = []" if "cs = []" using enc' that by simp
  moreover have "length z < 4" by (simp add: z_def getPadding_less)
  ultimately have "trailing_ok c (z @ enc')"
    using long Cons.prems(2) by (cases "cs = []") (auto simp: trailing_ok_def padding_ok_def z_def)
  moreover have "packet_chunks ((pre @ b @ z) @ enc') (length (pre @ b @ z)) (acc @ [parsed_chunk c]) =
      ok ((acc @ [parsed_chunk c]) @ map parsed_chunk cs)"
    using Cons.prems d enc' by (intro Cons.IH [of "raw @ b @ z"]) (auto split: if_splits)
  ultimately show ?case
    using packet_chunks_step [OF fits b _ z_def, of enc' pre acc] by (simp add: enc)
qed

lemma packet_roundtrip:
  assumes wf: "wf_packet p"
    and zero: "\<not> doSum \<longrightarrow> \<not> verify \<and> \<not> (pk_chunks p \<noteq> [] \<and> is_mandatory_checksum (hd (pk_chunks p)))"
  shows "\<exists>bs. packet_marshal doSum p = ok bs \<and> packet_unmarshal verify bs = ok (parsed_packet p)"
proof -
  let ?hdr = "put_be16 (pk_sourcePort p) @ put_be16 (pk_destinationPort p) @ put_be32 (pk_verificationTag p)"
  obtain enc where enc: "packet_append (?hdr @ [0, 0, 0, 0]) (pk_chunks p) = ok ((?hdr @ [0, 0, 0, 0]) @ enc)"
    and long: "pk_chunks p \<noteq> [] \<longrightarrow> 4 \<le> length enc"
    using packet_append_prefix [of "pk_chunks p" "?hdr @ [0, 0, 0, 0]"] wf by (auto simp: wf_packet_def)
  define s :: u32 where "s = (if doSum then crc32_Update 0 (?hdr @ fourZeroes @ enc) else 0)"
  let ?bs = "(?hdr @ put_le32 s) @ enc"
  have m: "packet_marshal doSum p = ok ?bs"
    using enc by (simp add: packet_marshal_def s_def generatePacketChecksum_eq) (simp add: put_le32_def)
  have cs: "packet_chunks ?bs 12 [] = ok (map parsed_chunk (pk_chunks p))"
    using packet_chunks_roundtrip [OF _ _ enc, of "?hdr @ put_le32 s" "[]"] wf by (simp add: wf_packet_def)
  have field: "checksum_field ?bs = s"
    by (simp add: checksum_field_def put_be16_def put_be32_def put_le32_def)
  have hdr: "be16 (?bs ! 0) (?bs ! 1) = pk_sourcePort p" "be16 (?bs ! 2) (?bs ! 3) = pk_destinationPort p"
    "be32 (?bs ! 4) (?bs ! 5) (?bs ! 6) (?bs ! 7) = pk_verificationTag p"
    by (simp_all add: put_be16_def put_be32_def)
  have "(checksum_field ?bs \<noteq> 0 \<or> verifies verify ?bs) \<longrightarrow> checksum_field ?bs = checksum_of ?bs"
  proof (cases doSum)
    case True
    then show ?thesis by (simp only: field) (simp add: s_def checksum_of_def)
  next
    case False
    have "verifies verify ?bs = False"
    proof (cases "pk_chunks p")
      case Nil
      then have "enc = []" using enc by simp
      then show ?thesis using zero False by (simp add: verifies_def)
    next
      case (Cons c cs)
      then have fc: "fits c" using wf by (simp add: wf_packet_def)
      then obtain b where b: "chunk_marshal c = ok b" by (auto simp: fits_def split: sum.splits)
      have "enc ! 0 = body_type (snd c)"
        using first_chunk_type [OF fc b, of "?hdr @ [0, 0, 0, 0]" cs enc] Cons enc wf
        by (simp add: wf_packet_def del: packet_append.simps)
      moreover have "?bs ! 12 = enc ! 0" by (simp add: nth_append)
      moreover have "body_type (snd c) = ctInit \<or> body_type (snd c) = ctCookieEcho \<longrightarrow> is_mandatory_checksum c"
        by (cases c rule: chunk_marshal.cases) (simp_all add: chunkType_defs)
      ultimately show ?thesis using zero False Cons by (auto simp: verifies_def)
    qed
    then show ?thesis using False field by (simp add: s_def)
  qed
  moreover have "12 \<le> length ?bs" by simp
  ultimately have "packet_unmarshal verify ?bs = ok (parsed_packet p)"
    using packet_unmarshal_eq [of ?bs verify] cs unfolding hdr
    by (auto simp: parsed_packet_def)
  with m show ?thesis by blast
qed

section \<open>Every byte belongs to a chunk\<close>

definition chunk_extent :: "chunk \<Rightarrow> nat" where
  "chunk_extent c = 4 + valueLength c + getPadding (valueLength c)"

lemma packet_chunks_extent:
  "packet_chunks raw offset acc = ok cs \<Longrightarrow>
   \<exists>new. cs = acc @ new \<and> length raw = offset + sum_list (map chunk_extent new)"
proof (induction "length raw - offset" arbitrary: offset acc rule: less_induct)
  case less
  show ?case
  proof (cases "offset = length raw")
    case True
    then show ?thesis using less.prems by (simp add: packet_chunks.simps [of raw "length raw"])
  next
    case False
    then obtain c where lt: "offset + 4 \<le> length raw"
      and rec: "packet_chunks raw (offset + chunk_extent c) (acc @ [c]) = ok cs"
      using less.prems by (subst (asm) packet_chunks.simps)
        (auto simp: bind_res_eq_Inr chunkHeaderSize_def chunk_extent_def not_less split: if_splits)
    have "length raw - (offset + chunk_extent c) < length raw - offset"
      using lt by (simp add: chunk_extent_def)
    from less.hyps [OF this rec] obtain new where
      "cs = (acc @ [c]) @ new" "length raw = offset + chunk_extent c + sum_list (map chunk_extent new)"
      by blast
    then show ?thesis by (intro exI [of _ "c # new"]) simp
  qed
qed

lemma chunk_unmarshal_kind:
  "chunk_unmarshal ty raw = ok c \<Longrightarrow> is_mandatory_checksum c \<Longrightarrow> ty = ctInit \<or> ty = ctCookieEcho"
  by (auto simp: chunk_unmarshal_def chunk_unmarshal_defs bind_res_eq_Inr Let_def split: if_splits)

lemma packet_chunks_first:
  assumes "packet_chunks raw 12 [] = ok cs" "cs \<noteq> []" "is_mandatory_checksum (hd cs)"
  shows "16 \<le> length raw" "raw ! 12 = ctInit \<or> raw ! 12 = ctCookieEcho"
proof -
  have "length raw \<noteq> 12" using assms(1,2) by (auto simp: packet_chunks.simps)
  with assms(1) obtain c where len: "16 \<le> length raw" and c: "chunk_unmarshal (raw ! 12) (drop 12 raw) = ok c"
    and "packet_chunks raw (12 + chunk_extent c) [c] = ok cs"
    by (subst (asm) packet_chunks.simps)
      (auto simp: bind_res_eq_Inr chunkHeaderSize_def chunk_extent_def not_less split: if_splits)
  then have "hd cs = c" by (auto dest: packet_chunks_extent)
  then show "16 \<le> length raw" "raw ! 12 = ctInit \<or> raw ! 12 = ctCookieEcho"
    using len chunk_unmarshal_kind [OF c] assms(3) by auto
qed

section \<open>Properties\<close>


definition sample_packet :: packet where
  "sample_packet = \<lparr>pk_sourcePort = 5000, pk_destinationPort = 5001, pk_verificationTag = 0x01020304,
     pk_chunks = [new_chunk (ChunkSelectiveAck \<lparr>sa_cumulativeTSNAck = 7,
         sa_advertisedReceiverWindowCredit = 1500, sa_gapAckBlocks = [(2, 3)], sa_duplicateTSN = [5]\<rparr>),
       new_chunk (ChunkPayloadData (zero_payload\<lparr>pd_beginningFragment := True, pd_tsn := 9,
         pd_streamIdentifier := 1, pd_payloadType := 51, pd_userData := [104, 105, 33]\<rparr>))]\<rparr>"

lemma wf_sample_packet: "wf_packet sample_packet"
  by (simp add: wf_packet_def sample_packet_def fits_def chunk_marshal_defs chunkHeader_marshal_def
      chunkHeaderSize_def put_pair16_def)



definition sample_bytes :: bytes where
  "sample_bytes = (case packet_marshal True sample_packet of Inr bs \<Rightarrow> bs | Inl _ \<Rightarrow> [])"

lemma sample_bytes_accepted:
  "packet_unmarshal True sample_bytes = ok (parsed_packet sample_packet)" "12 \<le> length sample_bytes"
proof -
  obtain bs where "packet_marshal True sample_packet = ok bs"
    and u: "packet_unmarshal True bs = ok (parsed_packet sample_packet)"
    using packet_roundtrip [OF wf_sample_packet, of True True] by auto
  then show "packet_unmarshal True sample_bytes = ok (parsed_packet sample_packet)"
    by (simp add: sample_bytes_def)
  then show "12 \<le> length sample_bytes"
    using packet_unmarshal_short [of sample_bytes True] by fastforce
qed


text \<open>C11: whatever bytes arrive, \<^verbatim>\<open>packet.unmarshal\<close> returns a packet or an error: no index, slice or
  field access in the packet, chunk, parameter and error cause decoders is out of range, and every
  loop ends.\<close>

theorem packet_unmarshal_total:
  "(\<exists>p. packet_unmarshal doChecksum raw = ok p) \<or> (\<exists>e. packet_unmarshal doChecksum raw = fail e)"
  using packet_unmarshal_no_panic [of doChecksum raw]
  by (cases "packet_unmarshal doChecksum raw" rule: sum.exhaust; auto) (metis fault.exhaust)

text \<open>C12: the chunks of an accepted packet account for every byte: twelve bytes of header and, for
  each chunk, its header, value and padding add up to the length of the datagram.\<close>

theorem packet_unmarshal_exhaustive:
  assumes "packet_unmarshal doChecksum raw = ok p"
  shows "length raw = 12 + sum_list (map chunk_extent (pk_chunks p))"
proof -
  have len: "12 \<le> length raw" using assms packet_unmarshal_short [of raw doChecksum] by fastforce
  with assms have "packet_chunks raw 12 [] = ok (pk_chunks p)"
    by (auto simp: packet_unmarshal_eq bind_res_eq_Inr split: if_splits)
  then show ?thesis by (auto dest: packet_chunks_extent)
qed

theorem packet_unmarshal_exhaustive_witness:
  "length sample_bytes = 12 + sum_list (map chunk_extent (pk_chunks (parsed_packet sample_packet)))"
  by (rule packet_unmarshal_exhaustive [OF sample_bytes_accepted(1)])

text \<open>C13: a packet whose first chunk is an INIT or a COOKIE ECHO is accepted only with a correct CRC32C,
  even by an association that accepts packets without checksum, and so is every packet whose
  checksum field is not zero.\<close>

theorem handshake_packet_checksum:
  assumes "packet_unmarshal doChecksum raw = ok p"
    and "(pk_chunks p \<noteq> [] \<and> is_mandatory_checksum (hd (pk_chunks p))) \<or> checksum_field raw \<noteq> 0"
  shows "checksum_field raw = checksum_of raw"
  using assms(2)
proof
  assume m: "pk_chunks p \<noteq> [] \<and> is_mandatory_checksum (hd (pk_chunks p))"
  have len: "12 \<le> length raw" using assms(1) packet_unmarshal_short [of raw doChecksum] by fastforce
  with assms(1) have "packet_chunks raw 12 [] = ok (pk_chunks p)"
    by (auto simp: packet_unmarshal_eq bind_res_eq_Inr split: if_splits)
  from packet_chunks_first [OF this] m have "verifies doChecksum raw" by (simp add: verifies_def)
  with assms(1) show ?thesis by (intro packet_unmarshal_checksum) auto
next
  assume "checksum_field raw \<noteq> 0"
  with assms(1) show ?thesis by (intro packet_unmarshal_checksum) auto
qed

definition sample_echo :: packet where
  "sample_echo = \<lparr>pk_sourcePort = 5000, pk_destinationPort = 5000, pk_verificationTag = 1,
     pk_chunks = [new_chunk (ChunkCookieEcho [1, 2, 3, 4])]\<rparr>"

definition sample_echo_bytes :: bytes where
  "sample_echo_bytes = (case packet_marshal True sample_echo of Inr bs \<Rightarrow> bs | Inl _ \<Rightarrow> [])"

lemma sample_echo_accepted: "packet_unmarshal False sample_echo_bytes = ok (parsed_packet sample_echo)"
proof -
  have "wf_packet sample_echo"
    by (simp add: wf_packet_def sample_echo_def fits_def chunk_marshal_defs chunkHeader_marshal_def)
  from packet_roundtrip [OF this, of True False] show ?thesis by (auto simp: sample_echo_bytes_def)
qed

theorem handshake_packet_checksum_witness:
  "checksum_field sample_echo_bytes = checksum_of sample_echo_bytes"
  by (rule handshake_packet_checksum [OF sample_echo_accepted])
    (simp add: parsed_packet_def sample_echo_def parsed_chunk_def chunk_marshal_defs chunkHeader_marshal_def)


end
