(* ===== verification/Sctp_Queue.thy ===== *)
theory Sctp_Queue
  imports Prelude
begin

text \<open>
  \<^verbatim>\<open>sctp/queue.go\<close>, the growing ring buffer behind the in-flight queue, and the locale \<open>fifo\<close>, the
  contract that the queues of the package promise their clients: an abstraction to the list of the
  elements, oldest first. Go's zero value of the element type is the argument \<open>zero\<close>.
\<close>

section \<open>The ring buffer\<close>

record 'a queue =
  q_buf :: "'a list"
  q_head :: nat
  q_tail :: nat
  q_count :: int

definition minCap :: nat where "minCap = 16"

text \<open>The capacity loop: \<open>k\<close> doublings of the minimum.\<close>

function newQueueCap :: "nat \<Rightarrow> nat \<Rightarrow> nat" where
  "newQueueCap capacity k =
     (if minCap * 2 ^ k < capacity then newQueueCap capacity (Suc k) else minCap * 2 ^ k)"
  by pat_completeness auto
termination
  by (relation "measure (\<lambda>(capacity, k). capacity - minCap * 2 ^ k)") (simp_all add: minCap_def diff_less_mono2)

declare newQueueCap.simps [simp del]

definition newQueue :: "'a \<Rightarrow> nat \<Rightarrow> 'a queue" where
  "newQueue zero capacity =
     \<lparr>q_buf = replicate (newQueueCap capacity 0) zero, q_head = 0, q_tail = 0, q_count = 0\<rparr>"

definition queue_Len :: "'a queue \<Rightarrow> int" where
  "queue_Len q = q_count q"

definition growIfFull :: "'a \<Rightarrow> 'a queue \<Rightarrow> ('e, 'a queue) res" where
  "growIfFull zero q =
     (if q_count q < int (length (q_buf q)) then ok q
      else
        let newBuf = replicate (nat (q_count q * 2)) zero
        in bind_res
             (if q_tail q > q_head q then
                bind_res (slice_range (q_buf q) (q_head q) (q_tail q)) (\<lambda>s. ok (copy_at newBuf 0 s))
              else
                bind_res (slice_from (q_buf q) (q_head q)) (\<lambda>s.
                bind_res (slice_range (q_buf q) 0 (q_tail q)) (\<lambda>t.
                  let n = min (length newBuf) (length s)
                  in ok (copy_at (copy_at newBuf 0 s) n t))))
             (\<lambda>buf. ok (q\<lparr>q_head := 0, q_tail := nat (q_count q), q_buf := buf\<rparr>)))"

definition PushBack :: "'a \<Rightarrow> 'a queue \<Rightarrow> 'a \<Rightarrow> ('e, 'a queue) res" where
  "PushBack zero q ele =
     bind_res (growIfFull zero q) (\<lambda>q.
     bind_res (update_at (q_buf q) (q_tail q) ele) (\<lambda>buf.
       ok (q\<lparr>q_buf := buf, q_tail := (q_tail q + 1) mod length buf, q_count := q_count q + 1\<rparr>)))"

definition PopFront :: "'a \<Rightarrow> 'a queue \<Rightarrow> ('e, 'a \<times> 'a queue) res" where
  "PopFront zero q =
     bind_res (index_at (q_buf q) (q_head q)) (\<lambda>ele.
     bind_res (update_at (q_buf q) (q_head q) zero) (\<lambda>buf.
       ok (ele, q\<lparr>q_buf := buf, q_head := (q_head q + 1) mod length buf, q_count := q_count q - 1\<rparr>)))"

definition Front :: "'a queue \<Rightarrow> ('e, 'a) res" where
  "Front q = index_at (q_buf q) (q_head q)"

definition Back :: "'a queue \<Rightarrow> ('e, 'a) res" where
  "Back q =
     (if length (q_buf q) = 0 then Inl Panic
      else index_at (q_buf q) ((q_tail q + length (q_buf q) - 1) mod length (q_buf q)))"

definition At :: "'a queue \<Rightarrow> nat \<Rightarrow> ('e, 'a) res" where
  "At q i =
     (if length (q_buf q) = 0 then Inl Panic
      else index_at (q_buf q) ((q_head q + i) mod length (q_buf q)))"

section \<open>The contract of a queue\<close>

datatype 'a qop = Push 'a | Pop

text \<open>A sequence of operations, with the popped elements as output.\<close>

fun run_queue ::
  "('q \<Rightarrow> 'a \<Rightarrow> ('e, 'q) res) \<Rightarrow> ('q \<Rightarrow> ('e, 'a \<times> 'q) res) \<Rightarrow> 'q \<Rightarrow> 'a qop list \<Rightarrow> ('e, 'a list \<times> 'q) res" where
  "run_queue push pop q [] = ok ([], q)"
| "run_queue push pop q (Push x # ops) =
     bind_res (push q x) (\<lambda>q. run_queue push pop q ops)"
| "run_queue push pop q (Pop # ops) =
     bind_res (pop q) (\<lambda>(x, q).
     bind_res (run_queue push pop q ops) (\<lambda>(xs, q). ok (x # xs, q)))"

text \<open>The same sequence on the abstract list; \<open>None\<close> when an empty queue is popped.\<close>

fun run_list :: "'a list \<Rightarrow> 'a qop list \<Rightarrow> ('a list \<times> 'a list) option" where
  "run_list xs [] = Some ([], xs)"
| "run_list xs (Push x # ops) = run_list (xs @ [x]) ops"
| "run_list [] (Pop # ops) = None"
| "run_list (x # xs) (Pop # ops) = map_option (\<lambda>(out, ys). (x # out, ys)) (run_list xs ops)"

locale fifo =
  fixes push :: "'q \<Rightarrow> 'a \<Rightarrow> ('e, 'q) res"
    and pop :: "'q \<Rightarrow> ('e, 'a \<times> 'q) res"
    and size_of :: "'q \<Rightarrow> int"
    and abs :: "'q \<Rightarrow> 'a list"
    and inv :: "'q \<Rightarrow> bool"
  assumes push_ok: "inv q \<Longrightarrow> \<exists>q'. push q x = ok q' \<and> inv q' \<and> abs q' = abs q @ [x]"
    and pop_ok: "inv q \<Longrightarrow> abs q = x # xs \<Longrightarrow> \<exists>q'. pop q = ok (x, q') \<and> inv q' \<and> abs q' = xs"
    and size_ok: "inv q \<Longrightarrow> size_of q = int (length (abs q))"
begin

lemma refines_list:
  "inv q \<Longrightarrow> run_list (abs q) ops = Some (out, ys) \<Longrightarrow>
   \<exists>q'. run_queue push pop q ops = ok (out, q') \<and> inv q' \<and> abs q' = ys"
proof (induction ops arbitrary: q out)
  case Nil
  then show ?case by simp
next
  case (Cons p ops)
  show ?case
  proof (cases p)
    case (Push x)
    from push_ok [OF Cons.prems(1)] obtain q' where "push q x = ok q'" "inv q'" "abs q' = abs q @ [x]"
      by blast
    with Push Cons.IH [of q' out] Cons.prems(2) show ?thesis by simp
  next
    case Pop
    with Cons.prems(2) obtain x xs where abs: "abs q = x # xs" by (cases "abs q") auto
    with Pop Cons.prems(2) obtain out' where out: "out = x # out'" "run_list xs ops = Some (out', ys)" by auto
    from pop_ok [OF Cons.prems(1) abs] obtain q' where "pop q = ok (x, q')" "inv q'" "abs q' = xs" by blast
    with Pop Cons.IH [of q' out'] out show ?thesis by auto
  qed
qed

lemma size_zero: "inv q \<Longrightarrow> size_of q = 0 \<longleftrightarrow> abs q = []"
  by (simp add: size_ok)

end

section \<open>The ring buffer is a queue\<close>

definition queue_inv :: "'a queue \<Rightarrow> bool" where
  "queue_inv q \<longleftrightarrow> q_head q < length (q_buf q) \<and> 0 \<le> q_count q \<and> q_count q \<le> int (length (q_buf q)) \<and>
     q_tail q = (q_head q + nat (q_count q)) mod length (q_buf q)"

definition queue_elems :: "'a queue \<Rightarrow> 'a list" where
  "queue_elems q = map (\<lambda>i. q_buf q ! ((q_head q + i) mod length (q_buf q))) [0..<nat (q_count q)]"

lemma length_queue_elems [simp]: "length (queue_elems q) = nat (q_count q)"
  by (simp add: queue_elems_def)

lemma queue_elems_nth:
  "i < nat (q_count q) \<Longrightarrow> queue_elems q ! i = q_buf q ! ((q_head q + i) mod length (q_buf q))"
  by (simp add: queue_elems_def)

lemma newQueueCap_bounds: "minCap \<le> newQueueCap c k" "c \<le> newQueueCap c k"
proof (induction c k rule: newQueueCap.induct)
  case (1 c k)
  { case 1 show ?case using "1.IH"(1) by (subst newQueueCap.simps) (auto simp: minCap_def)
  next
    case 2 show ?case using "1.IH"(2) by (subst newQueueCap.simps) auto }
qed

lemma newQueue_inv: "queue_inv (newQueue zero c)" "queue_elems (newQueue zero c) = []"
  using newQueueCap_bounds(1) [of c 0] by (auto simp: queue_inv_def newQueue_def queue_elems_def minCap_def)

text \<open>A full ring, unrolled from its head.\<close>

lemma full_ring_unrolled:
  assumes "queue_inv q" "q_count q = int (length (q_buf q))"
  shows "queue_elems q = drop (q_head q) (q_buf q) @ take (q_head q) (q_buf q)"
proof (rule nth_equalityI)
  show "length (queue_elems q) = length (drop (q_head q) (q_buf q) @ take (q_head q) (q_buf q))"
    using assms by (simp add: queue_inv_def)
next
  fix i assume "i < length (queue_elems q)"
  then have i: "i < length (q_buf q)" using assms(2) by simp
  have h: "q_head q < length (q_buf q)" using assms(1) by (simp add: queue_inv_def)
  show "queue_elems q ! i = (drop (q_head q) (q_buf q) @ take (q_head q) (q_buf q)) ! i"
  proof (cases "q_head q + i < length (q_buf q)")
    case True
    then have "i < length (q_buf q) - q_head q" using h by linarith
    with True show ?thesis using i h assms(2) by (simp add: queue_elems_nth nth_append)
  next
    case False
    then have "(q_head q + i) mod length (q_buf q) = q_head q + i - length (q_buf q)"
      using i h by (simp add: mod_if)
    moreover have "\<not> i < length (q_buf q) - q_head q" using False by linarith
    ultimately show ?thesis using i h assms(2) by (simp add: queue_elems_nth nth_append add.commute)
  qed
qed

lemma ring_index: "h < n \<Longrightarrow> i < n \<Longrightarrow> (h + i) mod n = (if h + i < n then h + i else h + i - n)" for h :: nat
  by (simp add: mod_if)

lemma ring_index_inj:
  "h < n \<Longrightarrow> i < n \<Longrightarrow> j < n \<Longrightarrow> (h + i) mod n = (h + j) mod n \<longleftrightarrow> i = j" for h :: nat
  by (auto simp: ring_index split: if_splits)

text \<open>Growing keeps the elements and makes room for one more.\<close>

lemma growIfFull_ok:
  assumes "queue_inv q"
  shows "\<exists>q'. growIfFull zero q = (ok q' :: ('e, 'a queue) res) \<and> queue_inv q' \<and> queue_elems q' = queue_elems q \<and>
    q_count q' = q_count q \<and> q_count q' < int (length (q_buf q'))"
proof (cases "q_count q < int (length (q_buf q))")
  case True
  then show ?thesis using assms by (simp add: growIfFull_def)
next
  case False
  let ?n = "length (q_buf q)"
  have n: "q_count q = int ?n" and h: "q_head q < ?n" using assms False by (auto simp: queue_inv_def)
  have t: "q_tail q = q_head q" using assms n h by (simp add: queue_inv_def)
  let ?buf = "queue_elems q @ replicate ?n zero"
  have len: "length (queue_elems q) = ?n" using n by simp
  have "copy_at (copy_at (replicate (2 * ?n) zero) 0 (drop (q_head q) (q_buf q))) (?n - q_head q)
      (take (q_head q) (q_buf q)) = ?buf"
    using h by (simp add: copy_at_def Let_def full_ring_unrolled [OF assms n])
  moreover have "min (2 * ?n) (?n - q_head q) = ?n - q_head q" by simp
  moreover have "nat (q_count q * 2) = 2 * ?n" using n by simp
  ultimately have g: "growIfFull zero q = (Inr :: _ \<Rightarrow> ('e, 'a queue) res) (q\<lparr>q_head := 0, q_tail := ?n, q_buf := ?buf\<rparr>)" (is "_ = Inr ?q'")
    using False h t n by (simp add: growIfFull_def Let_def)
  moreover have "queue_inv ?q'"
  proof -
    have "?n mod (?n + ?n) = ?n" using h by (intro mod_less) linarith
    then show ?thesis using n h len by (auto simp: queue_inv_def)
  qed
  moreover have "queue_elems ?q' = queue_elems q"
  proof (rule nth_equalityI)
    fix i assume "i < length (queue_elems ?q')"
    then have "i < ?n" using n by simp
    then show "queue_elems ?q' ! i = queue_elems q ! i"
      using n len by (simp add: queue_elems_nth [of i ?q'] nth_append)
  qed simp
  moreover have "0 < ?n" using h by linarith
  ultimately show ?thesis using n len by (intro exI [of _ ?q']) simp
qed

lemma PushBack_ok:
  assumes "queue_inv q"
  shows "\<exists>q'. PushBack zero q x = (ok q' :: ('e, 'a queue) res) \<and> queue_inv q' \<and> queue_elems q' = queue_elems q @ [x]"
proof -
  obtain r where r: "growIfFull zero q = (ok r :: ('e, 'a queue) res)" "queue_inv r" "queue_elems r = queue_elems q"
    and room: "q_count r < int (length (q_buf r))"
    using growIfFull_ok [OF assms] by blast
  let ?n = "length (q_buf r)" and ?c = "nat (q_count r)"
  have h: "q_head r < ?n" "0 \<le> q_count r" and t: "q_tail r = (q_head r + ?c) mod ?n"
    using r(2) by (auto simp: queue_inv_def)
  have c: "?c < ?n" using room h by linarith
  have tl: "q_tail r < ?n" unfolding t using h(1) by (intro mod_less_divisor) linarith
  let ?q' = "r\<lparr>q_buf := (q_buf r)[q_tail r := x], q_tail := (q_tail r + 1) mod ?n, q_count := q_count r + 1\<rparr>"
  have "PushBack zero q x = (ok ?q' :: ('e, 'a queue) res)" using r(1) tl by (simp add: PushBack_def)
  moreover have "queue_inv ?q'"
    using h c room by (auto simp: queue_inv_def t mod_Suc_eq nat_add_distrib)
  moreover have "queue_elems ?q' = queue_elems r @ [x]"
  proof (rule nth_equalityI)
    show "length (queue_elems ?q') = length (queue_elems r @ [x])" using h by (simp add: nat_add_distrib)
  next
    fix i assume "i < length (queue_elems ?q')"
    then have i: "i < Suc ?c" using h by (simp add: nat_add_distrib)
    show "queue_elems ?q' ! i = (queue_elems r @ [x]) ! i"
    proof (cases "i = ?c")
      case True
      have "queue_elems ?q' ! ?c = q_buf ?q' ! q_tail r"
        using h by (subst queue_elems_nth) (simp_all add: t nat_add_distrib)
      then show ?thesis using tl by (simp add: True nth_append)
    next
      case False
      then have "(q_head r + i) mod ?n \<noteq> q_tail r" using i c h by (simp add: t ring_index_inj)
      moreover have "queue_elems ?q' ! i = q_buf ?q' ! ((q_head r + i) mod ?n)"
        using h i by (subst queue_elems_nth) (simp_all add: nat_add_distrib)
      ultimately show ?thesis using False i by (simp add: queue_elems_nth nth_append)
    qed
  qed
  ultimately show ?thesis using r(3) by auto
qed

lemma PopFront_ok:
  assumes "queue_inv q" "queue_elems q = x # xs"
  shows "\<exists>q'. PopFront zero q = (ok (x, q') :: ('e, 'a \<times> 'a queue) res) \<and> queue_inv q' \<and> queue_elems q' = xs"
proof -
  let ?n = "length (q_buf q)" and ?c = "nat (q_count q)"
  have h: "q_head q < ?n" "0 \<le> q_count q" "q_count q \<le> int ?n" and t: "q_tail q = (q_head q + ?c) mod ?n"
    using assms(1) by (auto simp: queue_inv_def)
  have c: "?c = Suc (length xs)" using assms(2) length_queue_elems [of q] by simp
  have x: "x = q_buf q ! q_head q" using queue_elems_nth [of 0 q] assms(2) c h by simp
  let ?q' = "q\<lparr>q_buf := (q_buf q)[q_head q := zero], q_head := (q_head q + 1) mod ?n, q_count := q_count q - 1\<rparr>"
  have c': "nat (q_count ?q') = length xs" using c by simp
  have "PopFront zero q = (ok (x, ?q') :: ('e, 'a \<times> 'a queue) res)" using h x by (simp add: PopFront_def)
  moreover have "queue_inv ?q'"
  proof -
    have "0 < ?n" "0 < q_count q" using h(1) c by linarith+
    moreover from this have "Suc (q_head q) mod ?n < ?n" by simp
    ultimately show ?thesis using h c c' unfolding queue_inv_def by (simp add: t mod_add_left_eq)
  qed
  moreover have "queue_elems ?q' = xs"
  proof (rule nth_equalityI)
    show "length (queue_elems ?q') = length xs" using c' by simp
  next
    fix i assume "i < length (queue_elems ?q')"
    then have i: "i < length xs" using c' by simp
    have si: "Suc i < ?n" using i c h by linarith
    have e: "(Suc (q_head q) mod ?n + i) mod ?n = (q_head q + Suc i) mod ?n" by (simp add: mod_add_left_eq)
    have "(q_head q + Suc i) mod ?n \<noteq> (q_head q + 0) mod ?n"
      using si h by (subst ring_index_inj) auto
    then have "(q_head q + Suc i) mod ?n \<noteq> q_head q" using h by simp
    then have "queue_elems ?q' ! i = q_buf q ! ((q_head q + Suc i) mod ?n)"
      using i c' e by (simp add: queue_elems_nth)
    also have "\<dots> = queue_elems q ! Suc i" using i c by (simp add: queue_elems_nth)
    finally show "queue_elems ?q' ! i = xs ! i" using assms(2) by simp
  qed
  ultimately show ?thesis by blast
qed

lemma queue_Len_ok: "queue_inv q \<Longrightarrow> queue_Len q = int (length (queue_elems q))"
  by (simp add: queue_Len_def queue_inv_def)

interpretation ring: fifo "PushBack zero" "PopFront zero" queue_Len queue_elems queue_inv for zero
  by (unfold_locales, rule PushBack_ok, assumption, rule PopFront_ok, assumption, assumption,
      rule queue_Len_ok)

lemma At_ok: "queue_inv q \<Longrightarrow> i < length (queue_elems q) \<Longrightarrow> At q i = ok (queue_elems q ! i)"
  by (auto simp: At_def queue_elems_nth queue_inv_def)

lemma Front_ok: "queue_inv q \<Longrightarrow> queue_elems q = x # xs \<Longrightarrow> Front q = ok x"
  using queue_elems_nth [of 0 q] length_queue_elems [of q] by (auto simp: Front_def queue_inv_def)

lemma Back_ok:
  assumes "queue_inv q" "queue_elems q \<noteq> []"
  shows "Back q = ok (last (queue_elems q))"
proof -
  let ?n = "length (q_buf q)" and ?c = "nat (q_count q)"
  have c: "0 < ?c" using assms(2) length_queue_elems [of q] by (metis length_greater_0_conv)
  have h: "q_head q < ?n" "?c \<le> ?n" and t: "q_tail q = (q_head q + ?c) mod ?n"
    using assms(1) by (auto simp: queue_inv_def)
  have "(q_tail q + ?n - 1) mod ?n = (q_head q + (?c - 1)) mod ?n"
  proof -
    have "(q_tail q + ?n - 1) mod ?n = (q_tail q + (?n - 1)) mod ?n" using h by simp
    also have "\<dots> = (q_head q + ?c + (?n - 1)) mod ?n" by (simp add: t mod_add_left_eq)
    also have "q_head q + ?c + (?n - 1) = q_head q + (?c - 1) + ?n" using c h by linarith
    finally show ?thesis by simp
  qed
  moreover have "last (queue_elems q) = q_buf q ! ((q_head q + (?c - 1)) mod ?n)"
    using c assms(2) by (simp add: last_conv_nth queue_elems_nth)
  moreover have "0 < ?n" using h by linarith
  ultimately show ?thesis by (simp add: Back_def)
qed

section \<open>Properties\<close>



end
