(* ===== verification/Sctp_SendQueues.thy ===== *)
theory Sctp_SendQueues
  imports Sctp_Chunk Sctp_Queue
begin

text \<open>
  The queues of the sending side: \<^verbatim>\<open>payload_queue.go\<close> (in flight), \<^verbatim>\<open>pending_queue.go\<close> (not yet sent)
  and \<^verbatim>\<open>control_queue.go\<close>. DATA chunks are shared by pointer between the queues and between the
  fragments of a message (\<^verbatim>\<open>head\<close>), so they live in an explicit store and the queues hold addresses.
\<close>

section \<open>The store of DATA chunks\<close>

type_synonym store = "addr \<Rightarrow> chunkPayloadData option"

text \<open>Reading through a pointer; \<^verbatim>\<open>nil\<close> and dangling addresses panic.\<close>

definition deref :: "store \<Rightarrow> addr \<Rightarrow> (sctp_err, chunkPayloadData) res" where
  "deref st a = (if a = nil then Inl Panic else case st a of None \<Rightarrow> Inl Panic | Some c \<Rightarrow> ok c)"

definition modify :: "store \<Rightarrow> addr \<Rightarrow> (chunkPayloadData \<Rightarrow> chunkPayloadData) \<Rightarrow> (sctp_err, store) res" where
  "modify st a f = bind_res (deref st a) (\<lambda>c. ok (st(a \<mapsto> f c)))"

text \<open>The methods of \<^verbatim>\<open>chunkPayloadData\<close> that follow \<^verbatim>\<open>head\<close>.\<close>

definition abandoned :: "store \<Rightarrow> addr \<Rightarrow> (sctp_err, bool) res" where
  "abandoned st p =
     bind_res (deref st p) (\<lambda>c.
       if pd_head c \<noteq> nil then
         bind_res (deref st (pd_head c)) (\<lambda>h. ok (pd_abandoned h \<and> pd_allInflight h))
       else ok (pd_abandoned c \<and> pd_allInflight c))"

definition setAbandoned :: "store \<Rightarrow> addr \<Rightarrow> bool \<Rightarrow> (sctp_err, store) res" where
  "setAbandoned st p b =
     bind_res (deref st p) (\<lambda>c.
       if pd_head c \<noteq> nil then modify st (pd_head c) (pd_abandoned_update (\<lambda>_. b))
       else modify st p (pd_abandoned_update (\<lambda>_. b)))"

definition setAllInflight :: "store \<Rightarrow> addr \<Rightarrow> (sctp_err, store) res" where
  "setAllInflight st p =
     bind_res (deref st p) (\<lambda>c.
       if pd_endingFragment c then
         if pd_head c \<noteq> nil then modify st (pd_head c) (pd_allInflight_update (\<lambda>_. True))
         else modify st p (pd_allInflight_update (\<lambda>_. True))
       else ok st)"

section \<open>The in-flight queue\<close>

record payloadQueue =
  pq_chunks :: "addr queue"
  pq_nBytes :: int

definition newPayloadQueue :: payloadQueue where
  "newPayloadQueue = \<lparr>pq_chunks = newQueue nil 128, pq_nBytes = 0\<rparr>"

definition payloadQueue_pushNoCheck :: "store \<Rightarrow> payloadQueue \<Rightarrow> addr \<Rightarrow> (sctp_err, payloadQueue) res" where
  "payloadQueue_pushNoCheck st q p =
     bind_res (PushBack nil (pq_chunks q) p) (\<lambda>cs.
     bind_res (deref st p) (\<lambda>c.
       ok (q\<lparr>pq_chunks := cs, pq_nBytes := pq_nBytes q + int (length (pd_userData c))\<rparr>)))"

text \<open>\<open>None\<close> stands for \<^verbatim>\<open>(nil, false)\<close>.\<close>

definition payloadQueue_pop :: "store \<Rightarrow> payloadQueue \<Rightarrow> u32 \<Rightarrow> (sctp_err, addr option \<times> payloadQueue) res" where
  "payloadQueue_pop st q tsn =
     (if queue_Len (pq_chunks q) > 0 then
        bind_res (Front (pq_chunks q)) (\<lambda>f.
        bind_res (deref st f) (\<lambda>fc.
          if tsn = pd_tsn fc then
            bind_res (PopFront nil (pq_chunks q)) (\<lambda>(a, cs).
            bind_res (deref st a) (\<lambda>c.
              ok (Some a, q\<lparr>pq_chunks := cs, pq_nBytes := pq_nBytes q - int (length (pd_userData c))\<rparr>)))
          else ok (None, q)))
      else ok (None, q))"

definition payloadQueue_get :: "store \<Rightarrow> payloadQueue \<Rightarrow> u32 \<Rightarrow> (sctp_err, addr option) res" where
  "payloadQueue_get st q tsn =
     (let length = queue_Len (pq_chunks q)
      in if length = 0 then ok None
         else bind_res (Front (pq_chunks q)) (\<lambda>f.
           bind_res (deref st f) (\<lambda>fc.
             let head = pd_tsn fc
             in if tsn < head \<or> int (unat (tsn - head)) \<ge> length then ok None
                else bind_res (At (pq_chunks q) (unat (tsn - head))) (\<lambda>a. ok (Some a)))))"

definition payloadQueue_markAsAcked ::
  "store \<Rightarrow> payloadQueue \<Rightarrow> u32 \<Rightarrow> (sctp_err, int \<times> store \<times> payloadQueue) res" where
  "payloadQueue_markAsAcked st q tsn =
     bind_res (payloadQueue_get st q tsn) (\<lambda>r.
       case r of
         None \<Rightarrow> ok (0, st, q)
       | Some a \<Rightarrow>
           bind_res (deref st a) (\<lambda>c.
             let nBytesAcked = int (length (pd_userData c))
             in ok (nBytesAcked,
                    st(a \<mapsto> c\<lparr>pd_acked := True, pd_retransmit := False, pd_userData := []\<rparr>),
                    q\<lparr>pq_nBytes := pq_nBytes q - nBytesAcked\<rparr>)))"

text \<open>The loop of \<^verbatim>\<open>markAllToRetrasmit\<close> over the indices \<open>i, i + 1, ...\<close>\<close>

fun markAll_loop :: "store \<Rightarrow> addr queue \<Rightarrow> nat \<Rightarrow> nat \<Rightarrow> (sctp_err, store) res" where
  "markAll_loop st q i 0 = ok st"
| "markAll_loop st q i (Suc n) =
     bind_res (At q i) (\<lambda>a.
     bind_res (deref st a) (\<lambda>c.
     bind_res (if pd_acked c then ok True else abandoned st a) (\<lambda>skip.
     bind_res (if skip then ok st else modify st a (pd_retransmit_update (\<lambda>_. True))) (\<lambda>st.
       markAll_loop st q (Suc i) n))))"

definition payloadQueue_markAllToRetrasmit :: "store \<Rightarrow> payloadQueue \<Rightarrow> (sctp_err, store) res" where
  "payloadQueue_markAllToRetrasmit st q = markAll_loop st (pq_chunks q) 0 (nat (queue_Len (pq_chunks q)))"

definition payloadQueue_getNumBytes :: "payloadQueue \<Rightarrow> int" where
  "payloadQueue_getNumBytes q = pq_nBytes q"

definition payloadQueue_size :: "payloadQueue \<Rightarrow> int" where
  "payloadQueue_size q = queue_Len (pq_chunks q)"

section \<open>The pending queue\<close>

type_synonym pendingBaseQueue = "addr list"

definition newPendingBaseQueue :: pendingBaseQueue where
  "newPendingBaseQueue = []"

definition pendingBaseQueue_push :: "pendingBaseQueue \<Rightarrow> addr \<Rightarrow> pendingBaseQueue" where
  "pendingBaseQueue_push q c = q @ [c]"

definition pendingBaseQueue_pop :: "pendingBaseQueue \<Rightarrow> addr \<times> pendingBaseQueue" where
  "pendingBaseQueue_pop q = (if length q = 0 then (nil, q) else (q ! 0, drop 1 q))"

definition pendingBaseQueue_get :: "pendingBaseQueue \<Rightarrow> int \<Rightarrow> addr" where
  "pendingBaseQueue_get q i =
     (if length q = 0 \<or> i < 0 \<or> i \<ge> int (length q) then nil else q ! nat i)"

definition pendingBaseQueue_size :: "pendingBaseQueue \<Rightarrow> int" where
  "pendingBaseQueue_size q = int (length q)"

record pendingQueue =
  pe_unorderedQueue :: pendingBaseQueue
  pe_orderedQueue :: pendingBaseQueue
  pe_nBytes :: int
  pe_selected :: bool
  pe_unorderedIsSelected :: bool

definition newPendingQueue :: pendingQueue where
  "newPendingQueue =
     \<lparr>pe_unorderedQueue = newPendingBaseQueue, pe_orderedQueue = newPendingBaseQueue, pe_nBytes = 0,
      pe_selected = False, pe_unorderedIsSelected = False\<rparr>"

definition pendingQueue_push :: "store \<Rightarrow> pendingQueue \<Rightarrow> addr \<Rightarrow> (sctp_err, pendingQueue) res" where
  "pendingQueue_push st q a =
     bind_res (deref st a) (\<lambda>c.
       let q = (if pd_unordered c
                then q\<lparr>pe_unorderedQueue := pendingBaseQueue_push (pe_unorderedQueue q) a\<rparr>
                else q\<lparr>pe_orderedQueue := pendingBaseQueue_push (pe_orderedQueue q) a\<rparr>)
       in ok (q\<lparr>pe_nBytes := pe_nBytes q + int (length (pd_userData c))\<rparr>))"

definition pendingQueue_peek :: "pendingQueue \<Rightarrow> addr" where
  "pendingQueue_peek q =
     (if pe_selected q then
        if pe_unorderedIsSelected q then pendingBaseQueue_get (pe_unorderedQueue q) 0
        else pendingBaseQueue_get (pe_orderedQueue q) 0
      else
        let c = pendingBaseQueue_get (pe_unorderedQueue q) 0
        in if c \<noteq> nil then c else pendingBaseQueue_get (pe_orderedQueue q) 0)"

text \<open>
  \<^verbatim>\<open>pop\<close>: chunks are compared by identity. On an error the chunk has already left its base queue, so
  the queue is returned with the error.
\<close>

definition pendingQueue_pop :: "store \<Rightarrow> pendingQueue \<Rightarrow> addr \<Rightarrow> (sctp_err, assoc_err option \<times> pendingQueue) res" where
  "pendingQueue_pop st q a =
     (if pe_selected q then
        let (popped, q, err) =
          (if pe_unorderedIsSelected q then
             let (x, r) = pendingBaseQueue_pop (pe_unorderedQueue q)
             in (x, q\<lparr>pe_unorderedQueue := r\<rparr>, ErrUnexpectedChuckPoppedUnordered)
           else
             let (x, r) = pendingBaseQueue_pop (pe_orderedQueue q)
             in (x, q\<lparr>pe_orderedQueue := r\<rparr>, ErrUnexpectedChuckPoppedOrdered))
        in if popped \<noteq> a then ok (Some err, q)
           else bind_res (deref st popped) (\<lambda>p.
             let q = (if pd_endingFragment p then q\<lparr>pe_selected := False\<rparr> else q)
             in bind_res (deref st a) (\<lambda>c.
                  ok (None, q\<lparr>pe_nBytes := pe_nBytes q - int (length (pd_userData c))\<rparr>)))
      else
        bind_res (deref st a) (\<lambda>c.
          if \<not> pd_beginningFragment c then ok (Some ErrUnexpectedQState, q)
          else
            let (popped, q, err) =
              (if pd_unordered c then
                 let (x, r) = pendingBaseQueue_pop (pe_unorderedQueue q)
                 in (x, q\<lparr>pe_unorderedQueue := r\<rparr>, ErrUnexpectedChuckPoppedUnordered)
               else
                 let (x, r) = pendingBaseQueue_pop (pe_orderedQueue q)
                 in (x, q\<lparr>pe_orderedQueue := r\<rparr>, ErrUnexpectedChuckPoppedOrdered))
            in if popped \<noteq> a then ok (Some err, q)
               else bind_res (deref st popped) (\<lambda>p.
                 let q = (if \<not> pd_endingFragment p
                          then q\<lparr>pe_selected := True, pe_unorderedIsSelected := pd_unordered c\<rparr> else q)
                 in ok (None, q\<lparr>pe_nBytes := pe_nBytes q - int (length (pd_userData c))\<rparr>))))"

definition pendingQueue_getNumBytes :: "pendingQueue \<Rightarrow> int" where
  "pendingQueue_getNumBytes q = pe_nBytes q"

definition pendingQueue_size :: "pendingQueue \<Rightarrow> int" where
  "pendingQueue_size q = pendingBaseQueue_size (pe_unorderedQueue q) + pendingBaseQueue_size (pe_orderedQueue q)"

section \<open>The control queue\<close>

text \<open>A queue of control packets; \<open>'p\<close> is the packet type.\<close>

type_synonym 'p controlQueue = "'p list"

definition newControlQueue :: "'p controlQueue" where
  "newControlQueue = []"

definition controlQueue_push :: "'p controlQueue \<Rightarrow> 'p \<Rightarrow> 'p controlQueue" where
  "controlQueue_push q c = q @ [c]"

definition controlQueue_pushAll :: "'p controlQueue \<Rightarrow> 'p list \<Rightarrow> 'p controlQueue" where
  "controlQueue_pushAll q ps = q @ ps"

definition controlQueue_popAll :: "'p controlQueue \<Rightarrow> 'p list \<times> 'p controlQueue" where
  "controlQueue_popAll q = (q, [])"

definition controlQueue_size :: "'p controlQueue \<Rightarrow> int" where
  "controlQueue_size q = int (length q)"

section \<open>Lemmas: the in-flight queue\<close>

definition valid_ptr :: "store \<Rightarrow> addr \<Rightarrow> bool" where
  "valid_ptr st a \<longleftrightarrow> a \<noteq> nil \<and> st a \<noteq> None"

definition chunk_at :: "store \<Rightarrow> addr \<Rightarrow> chunkPayloadData" where
  "chunk_at st a = the (st a)"

lemma deref_valid [simp]: "valid_ptr st a \<Longrightarrow> deref st a = ok (chunk_at st a)"
  by (auto simp: valid_ptr_def deref_def chunk_at_def)

lemma modify_valid [simp]: "valid_ptr st a \<Longrightarrow> modify st a f = ok (st(a \<mapsto> f (chunk_at st a)))"
  by (simp add: modify_def)

lemma valid_ptr_update [simp]: "valid_ptr st a \<Longrightarrow> valid_ptr (st(b \<mapsto> c)) a"
  by (auto simp: valid_ptr_def)

lemma chunk_at_update: "chunk_at (st(b \<mapsto> c)) a = (if a = b then c else chunk_at st a)"
  by (simp add: chunk_at_def)

lemma Front_nth: "queue_inv q \<Longrightarrow> 0 < length (queue_elems q) \<Longrightarrow> Front q = ok (queue_elems q ! 0)"
  by (cases "queue_elems q") (auto simp: Front_ok)

abbreviation pq_elems :: "payloadQueue \<Rightarrow> addr list" where
  "pq_elems q \<equiv> queue_elems (pq_chunks q)"

text \<open>Consecutive TSNs from \<open>b\<close>.\<close>

fun tsn_run :: "store \<Rightarrow> u32 \<Rightarrow> addr list \<Rightarrow> bool" where
  "tsn_run st b [] \<longleftrightarrow> True"
| "tsn_run st b (a # as) \<longleftrightarrow> pd_tsn (chunk_at st a) = b \<and> tsn_run st (b + 1) as"

definition bytes_of :: "store \<Rightarrow> addr list \<Rightarrow> int" where
  "bytes_of st as = (\<Sum>a\<leftarrow>as. int (length (pd_userData (chunk_at st a))))"

text \<open>The queue holds valid, distinct chunks whose TSNs are \<open>b, b + 1, ...\<close>, and counts their bytes.\<close>

definition pq_inv :: "store \<Rightarrow> u32 \<Rightarrow> payloadQueue \<Rightarrow> bool" where
  "pq_inv st b q \<longleftrightarrow> queue_inv (pq_chunks q) \<and> (\<forall>a \<in> set (pq_elems q). valid_ptr st a) \<and>
     distinct (pq_elems q) \<and> tsn_run st b (pq_elems q) \<and> pq_nBytes q = bytes_of st (pq_elems q)"

lemma bytes_of_simps [simp]:
  "bytes_of st [] = 0"
  "bytes_of st (a # as) = int (length (pd_userData (chunk_at st a))) + bytes_of st as"
  "bytes_of st (as @ bs) = bytes_of st as + bytes_of st bs"
  by (simp_all add: bytes_of_def)

lemma tsn_run_append: "tsn_run st b (as @ bs) \<longleftrightarrow> tsn_run st b as \<and> tsn_run st (b + of_nat (length as)) bs"
  by (induction as arbitrary: b) (auto simp: add.assoc)

lemma tsn_run_nth: "tsn_run st b as \<Longrightarrow> i < length as \<Longrightarrow> pd_tsn (chunk_at st (as ! i)) = b + of_nat i"
  by (induction as arbitrary: b i) (auto simp: nth_Cons add.assoc split: nat.splits)

lemma pq_inv_new: "pq_inv st b newPayloadQueue" "pq_elems newPayloadQueue = []"
  by (simp_all add: pq_inv_def newPayloadQueue_def newQueue_inv)

lemma pushNoCheck_ok:
  assumes "pq_inv st b q" "valid_ptr st p" "p \<notin> set (pq_elems q)"
    and "pd_tsn (chunk_at st p) = b + of_nat (length (pq_elems q))"
  shows "\<exists>q'. payloadQueue_pushNoCheck st q p = ok q' \<and> pq_inv st b q' \<and> pq_elems q' = pq_elems q @ [p]"
proof -
  have inv: "queue_inv (pq_chunks q)" using assms(1) by (simp add: pq_inv_def)
  from PushBack_ok [OF inv] obtain cs where cs: "PushBack nil (pq_chunks q) p = (ok cs :: (sctp_err, addr queue) res)"
    "queue_inv cs" "queue_elems cs = pq_elems q @ [p]" by blast
  let ?q' = "q\<lparr>pq_chunks := cs, pq_nBytes := pq_nBytes q + int (length (pd_userData (chunk_at st p)))\<rparr>"
  have "pq_inv st b ?q'" using assms cs(2,3) by (simp add: pq_inv_def tsn_run_append del: length_queue_elems)
  moreover have "payloadQueue_pushNoCheck st q p = ok ?q'"
    using assms(2) cs by (simp add: payloadQueue_pushNoCheck_def)
  ultimately show ?thesis using cs(3) by (intro exI [of _ ?q']) simp
qed

lemma payloadQueue_pop_ok:
  assumes "pq_inv st b q" "pq_elems q = a # as"
  shows "\<exists>q'. payloadQueue_pop st q b = ok (Some a, q') \<and> pq_inv st (b + 1) q' \<and> pq_elems q' = as"
proof -
  have inv: "queue_inv (pq_chunks q)" and va: "valid_ptr st a" and tsn: "pd_tsn (chunk_at st a) = b"
    using assms by (auto simp: pq_inv_def)
  from PopFront_ok [OF inv assms(2)] obtain cs where
    cs: "PopFront nil (pq_chunks q) = (ok (a, cs) :: (sctp_err, addr \<times> addr queue) res)"
    "queue_inv cs" "queue_elems cs = as" by blast
  let ?q' = "q\<lparr>pq_chunks := cs, pq_nBytes := pq_nBytes q - int (length (pd_userData (chunk_at st a)))\<rparr>"
  have "pq_inv st (b + 1) ?q'" using assms(1,2) cs by (simp add: pq_inv_def)
  moreover have "queue_Len (pq_chunks q) > 0" using assms(2) queue_Len_ok [OF inv] by simp
  then have "payloadQueue_pop st q b = ok (Some a, ?q')"
    using tsn cs(1) va by (simp add: payloadQueue_pop_def Front_ok [OF inv assms(2)])
  ultimately show ?thesis using cs(3) by (intro exI [of _ ?q']) simp
qed

lemma payloadQueue_pop_none:
  assumes "pq_inv st b q" "pq_elems q = [] \<or> tsn \<noteq> b"
  shows "payloadQueue_pop st q tsn = ok (None, q)"
proof (cases "pq_elems q")
  case Nil
  then show ?thesis using assms(1) queue_Len_ok [of "pq_chunks q"] by (simp add: payloadQueue_pop_def pq_inv_def)
next
  case (Cons a as)
  then have "queue_inv (pq_chunks q)" "valid_ptr st a" "pd_tsn (chunk_at st a) = b"
    using assms(1) by (auto simp: pq_inv_def)
  then show ?thesis using assms(2) Cons by (auto simp: payloadQueue_pop_def Front_ok)
qed

lemma payloadQueue_get_eq:
  assumes "pq_inv st b q"
  shows "payloadQueue_get st q tsn =
    (if tsn < b \<or> unat (tsn - b) \<ge> length (pq_elems q) then ok None
     else ok (Some (pq_elems q ! unat (tsn - b))))"
proof (cases "pq_elems q")
  case Nil
  then show ?thesis using assms queue_Len_ok [of "pq_chunks q"] by (simp add: payloadQueue_get_def pq_inv_def)
next
  case (Cons a as)
  then have inv: "queue_inv (pq_chunks q)" and va: "valid_ptr st a" and tsn: "pd_tsn (chunk_at st a) = b"
    using assms by (auto simp: pq_inv_def)
  have l: "queue_Len (pq_chunks q) = int (length (pq_elems q))" by (rule queue_Len_ok [OF inv])
  show ?thesis
    unfolding payloadQueue_get_def Let_def l of_nat_le_iff Front_ok [OF inv Cons]
    using Cons va tsn by (simp add: At_ok [OF inv])
qed

lemma payloadQueue_get_sound:
  assumes "pq_inv st b q" "payloadQueue_get st q tsn = ok (Some a)"
  shows "a \<in> set (pq_elems q)" "valid_ptr st a" "pd_tsn (chunk_at st a) = tsn"
proof -
  let ?i = "unat (tsn - b)"
  from assms have i: "?i < length (pq_elems q)" and a: "a = pq_elems q ! ?i"
    by (auto simp: payloadQueue_get_eq simp del: length_queue_elems split: if_splits)
  then show "a \<in> set (pq_elems q)" by (simp del: length_queue_elems)
  then show "valid_ptr st a" using assms(1) by (simp add: pq_inv_def)
  have "pd_tsn (chunk_at st (pq_elems q ! ?i)) = b + of_nat ?i"
    using assms(1) i by (intro tsn_run_nth) (simp_all add: pq_inv_def)
  then show "pd_tsn (chunk_at st a) = tsn" by (simp add: a)
qed

lemma payloadQueue_get_no_panic: "pq_inv st b q \<Longrightarrow> \<exists>r. payloadQueue_get st q tsn = ok r"
  by (simp add: payloadQueue_get_eq)

text \<open>Looking up the \<open>i\<close>-th chunk in flight succeeds exactly when its TSN has not wrapped around.\<close>

lemma payloadQueue_get_nth:
  assumes "pq_inv st b q" "i < length (pq_elems q)" "i < 2 ^ 32"
  shows "payloadQueue_get st q (b + of_nat i) =
    ok (if unat b + i < 2 ^ 32 then Some (pq_elems q ! i) else None)"
proof -
  define n :: u32 where "n = of_nat i"
  have n: "unat n = i" unfolding n_def by (rule unat_of_nat_small) (use assms(3) in simp)
  have "b + n < b \<longleftrightarrow> \<not> unat b + i < 2 ^ 32"
    using unat_bound [of b] n assms(3) by (simp add: word_less_nat_alt unat_word_ariths mod_if) linarith
  moreover have "unat (b + n - b) = i" using n by simp
  ultimately show ?thesis
    unfolding n_def [symmetric] payloadQueue_get_eq [OF assms(1)] using assms(2) by simp
qed

lemma markAsAcked_eq:
  assumes "pq_inv st b q"
  shows "payloadQueue_markAsAcked st q tsn =
    ok (case payloadQueue_get st q tsn of
          Inr (Some a) \<Rightarrow> (int (length (pd_userData (chunk_at st a))),
             st(a \<mapsto> (chunk_at st a)\<lparr>pd_acked := True, pd_retransmit := False, pd_userData := []\<rparr>),
             q\<lparr>pq_nBytes := pq_nBytes q - int (length (pd_userData (chunk_at st a)))\<rparr>)
        | _ \<Rightarrow> (0, st, q))"
  using payloadQueue_get_no_panic [OF assms, of tsn] payloadQueue_get_sound [OF assms, of tsn]
  by (auto simp: payloadQueue_markAsAcked_def Let_def split: option.splits)

lemma tsn_run_update:
  "pd_tsn c = pd_tsn (chunk_at st a) \<Longrightarrow> tsn_run (st(a \<mapsto> c)) b as = tsn_run st b as"
  by (induction as arbitrary: b) (auto simp: chunk_at_update)

lemma bytes_of_update:
  "distinct as \<Longrightarrow> bytes_of (st(a \<mapsto> c)) as =
    bytes_of st as + (if a \<in> set as then int (length (pd_userData c)) - int (length (pd_userData (chunk_at st a))) else 0)"
  by (induction as) (auto simp: chunk_at_update)

lemma markAsAcked_inv:
  assumes "pq_inv st b q" "payloadQueue_markAsAcked st q tsn = ok (n, st', q')"
  shows "pq_inv st' b q'" "pq_elems q' = pq_elems q" "0 \<le> n"
proof -
  show "pq_inv st' b q'"
    using assms payloadQueue_get_no_panic [OF assms(1), of tsn] payloadQueue_get_sound(1) [OF assms(1), of tsn]
    by (auto simp: markAsAcked_eq [OF assms(1)] pq_inv_def tsn_run_update bytes_of_update split: option.splits)
  show "pq_elems q' = pq_elems q" "0 \<le> n"
    using assms payloadQueue_get_no_panic [OF assms(1), of tsn]
    by (auto simp: markAsAcked_eq [OF assms(1)] split: option.splits)
qed

section \<open>Lemmas: the pending queue\<close>

interpretation pending_base: fifo "\<lambda>q c. ok (pendingBaseQueue_push q c)" "\<lambda>q. ok (pendingBaseQueue_pop q)"
  pendingBaseQueue_size "\<lambda>q. q" "\<lambda>q. True"
  by unfold_locales (auto simp: pendingBaseQueue_push_def pendingBaseQueue_pop_def pendingBaseQueue_size_def)

text \<open>A list of whole messages, except that it starts inside one when \<open>mid\<close>.\<close>

fun fragments_ok :: "store \<Rightarrow> bool \<Rightarrow> addr list \<Rightarrow> bool" where
  "fragments_ok st mid [] \<longleftrightarrow> \<not> mid"
| "fragments_ok st mid (a # as) \<longleftrightarrow>
     pd_beginningFragment (chunk_at st a) = (\<not> mid) \<and> fragments_ok st (\<not> pd_endingFragment (chunk_at st a)) as"

definition pend_inv :: "store \<Rightarrow> pendingQueue \<Rightarrow> bool" where
  "pend_inv st q \<longleftrightarrow>
     (\<forall>a \<in> set (pe_unorderedQueue q). valid_ptr st a \<and> pd_unordered (chunk_at st a)) \<and>
     (\<forall>a \<in> set (pe_orderedQueue q). valid_ptr st a \<and> \<not> pd_unordered (chunk_at st a)) \<and>
     fragments_ok st (pe_selected q \<and> pe_unorderedIsSelected q) (pe_unorderedQueue q) \<and>
     fragments_ok st (pe_selected q \<and> \<not> pe_unorderedIsSelected q) (pe_orderedQueue q) \<and>
     pe_nBytes q = bytes_of st (pe_unorderedQueue q) + bytes_of st (pe_orderedQueue q)"

text \<open>The message being sent: \<open>Some True\<close> for an unordered one.\<close>

definition in_message :: "pendingQueue \<Rightarrow> bool option" where
  "in_message q = (if pe_selected q then Some (pe_unorderedIsSelected q) else None)"

definition continues :: "store \<Rightarrow> bool option \<Rightarrow> addr \<Rightarrow> bool" where
  "continues st m a \<longleftrightarrow> (case m of None \<Rightarrow> pd_beginningFragment (chunk_at st a)
     | Some u \<Rightarrow> \<not> pd_beginningFragment (chunk_at st a) \<and> pd_unordered (chunk_at st a) = u)"

definition message_after :: "store \<Rightarrow> addr \<Rightarrow> bool option" where
  "message_after st a = (if pd_endingFragment (chunk_at st a) then None else Some (pd_unordered (chunk_at st a)))"

lemma pend_inv_new: "pend_inv st newPendingQueue"
  by (simp add: pend_inv_def newPendingQueue_def newPendingBaseQueue_def)

lemma peek_nil: "pend_inv st q \<Longrightarrow> pendingQueue_peek q = nil \<longleftrightarrow> pe_unorderedQueue q = [] \<and> pe_orderedQueue q = []"
  by (cases "pe_unorderedQueue q"; cases "pe_orderedQueue q")
    (auto simp: pendingQueue_peek_def pendingBaseQueue_get_def pend_inv_def valid_ptr_def)

text \<open>Removing the head of a base queue.\<close>

definition take_unordered :: "store \<Rightarrow> pendingQueue \<Rightarrow> pendingQueue" where
  "take_unordered st q = (let a = hd (pe_unorderedQueue q) in
     q\<lparr>pe_unorderedQueue := tl (pe_unorderedQueue q), pe_selected := \<not> pd_endingFragment (chunk_at st a),
       pe_unorderedIsSelected := (if pd_endingFragment (chunk_at st a) then pe_unorderedIsSelected q else True),
       pe_nBytes := pe_nBytes q - int (length (pd_userData (chunk_at st a)))\<rparr>)"

definition take_ordered :: "store \<Rightarrow> pendingQueue \<Rightarrow> pendingQueue" where
  "take_ordered st q = (let a = hd (pe_orderedQueue q) in
     q\<lparr>pe_orderedQueue := tl (pe_orderedQueue q), pe_selected := \<not> pd_endingFragment (chunk_at st a),
       pe_unorderedIsSelected := (if pd_endingFragment (chunk_at st a) then pe_unorderedIsSelected q else False),
       pe_nBytes := pe_nBytes q - int (length (pd_userData (chunk_at st a)))\<rparr>)"

lemma pop_unordered:
  assumes "pend_inv st q" "pe_unorderedQueue q = a # as" "\<not> pe_selected q \<or> pe_unorderedIsSelected q"
  shows "pendingQueue_pop st q a = ok (None, take_unordered st q)" "pend_inv st (take_unordered st q)"
    "continues st (in_message q) a" "in_message (take_unordered st q) = message_after st a"
  using assms
  by (cases q; auto simp: pendingQueue_pop_def pend_inv_def pendingBaseQueue_pop_def Let_def take_unordered_def
      continues_def in_message_def message_after_def)+

lemma pop_ordered:
  assumes "pend_inv st q" "pe_orderedQueue q = a # as"
    "(pe_selected q \<and> \<not> pe_unorderedIsSelected q) \<or> (\<not> pe_selected q \<and> pe_unorderedQueue q = [])"
  shows "pendingQueue_pop st q a = ok (None, take_ordered st q)" "pend_inv st (take_ordered st q)"
    "continues st (in_message q) a" "in_message (take_ordered st q) = message_after st a"
  using assms
  by (cases q; auto simp: pendingQueue_pop_def pend_inv_def pendingBaseQueue_pop_def Let_def take_ordered_def
      continues_def in_message_def message_after_def)+

text \<open>What \<^verbatim>\<open>peek\<close> offers, \<^verbatim>\<open>pop\<close> accepts; it is the next fragment of the current message or begins one.\<close>

lemma peek_pop:
  assumes "pend_inv st q" "pendingQueue_peek q = a" "a \<noteq> nil"
  obtains q' where "pendingQueue_pop st q a = ok (None, q')" "pend_inv st q'" "valid_ptr st a"
    "continues st (in_message q) a" "in_message q' = message_after st a"
    "if pd_unordered (chunk_at st a)
     then pe_unorderedQueue q = a # pe_unorderedQueue q' \<and> pe_orderedQueue q' = pe_orderedQueue q
     else pe_orderedQueue q = a # pe_orderedQueue q' \<and> pe_unorderedQueue q' = pe_unorderedQueue q"
proof (cases "pe_unorderedQueue q = [] \<or> (pe_selected q \<and> \<not> pe_unorderedIsSelected q)")
  case True
  with assms obtain as where o: "pe_orderedQueue q = a # as"
    by (cases "pe_orderedQueue q") (auto simp: pendingQueue_peek_def pendingBaseQueue_get_def pend_inv_def split: if_splits)
  moreover have "(pe_selected q \<and> \<not> pe_unorderedIsSelected q) \<or> (\<not> pe_selected q \<and> pe_unorderedQueue q = [])"
    using True assms(1) by (auto simp: pend_inv_def)
  ultimately show ?thesis
    using pop_ordered [OF assms(1) o] that [of "take_ordered st q"] assms(1)
    by (auto simp: pend_inv_def take_ordered_def Let_def)
next
  case False
  with assms obtain as where u: "pe_unorderedQueue q = a # as"
    by (cases "pe_unorderedQueue q")
      (auto simp: pendingQueue_peek_def pendingBaseQueue_get_def pend_inv_def valid_ptr_def Let_def split: if_splits)
  moreover have "\<not> pe_selected q \<or> pe_unorderedIsSelected q" using False by auto
  ultimately show ?thesis
    using pop_unordered [OF assms(1) u] that [of "take_unordered st q"] assms(1)
    by (auto simp: pend_inv_def take_unordered_def Let_def)
qed

text \<open>The loop of \<^verbatim>\<open>sendPayloadData\<close> that pushes the fragments of a message, under the lock.\<close>

fun push_message :: "store \<Rightarrow> pendingQueue \<Rightarrow> addr list \<Rightarrow> (sctp_err, pendingQueue) res" where
  "push_message st q [] = ok q"
| "push_message st q (a # as) = bind_res (pendingQueue_push st q a) (\<lambda>q. push_message st q as)"

text \<open>The fragments of one message: valid, all of one kind, begun and ended.\<close>

definition is_message :: "store \<Rightarrow> bool \<Rightarrow> addr list \<Rightarrow> bool" where
  "is_message st u as \<longleftrightarrow> (\<forall>a \<in> set as. valid_ptr st a \<and> pd_unordered (chunk_at st a) = u) \<and> fragments_ok st False as"

lemma fragments_ok_append: "fragments_ok st m xs \<Longrightarrow> fragments_ok st False ys \<Longrightarrow> fragments_ok st m (xs @ ys)"
  by (induction xs arbitrary: m) auto

lemma push_message_eq:
  "\<forall>a \<in> set as. valid_ptr st a \<and> pd_unordered (chunk_at st a) = u \<Longrightarrow>
   push_message st q as =
     ok (if u then q\<lparr>pe_unorderedQueue := pe_unorderedQueue q @ as, pe_nBytes := pe_nBytes q + bytes_of st as\<rparr>
         else q\<lparr>pe_orderedQueue := pe_orderedQueue q @ as, pe_nBytes := pe_nBytes q + bytes_of st as\<rparr>)"
  by (induction as arbitrary: q) (auto simp: pendingQueue_push_def pendingBaseQueue_push_def Let_def)

lemma push_message_ok:
  assumes "pend_inv st q" "is_message st u as"
  obtains q' where "push_message st q as = ok q'" "pend_inv st q'" "in_message q' = in_message q"
    "pe_unorderedQueue q' = pe_unorderedQueue q @ (if u then as else [])"
    "pe_orderedQueue q' = pe_orderedQueue q @ (if u then [] else as)"
proof -
  have *: "\<forall>a \<in> set as. valid_ptr st a \<and> pd_unordered (chunk_at st a) = u" using assms(2) by (simp add: is_message_def)
  show ?thesis
  proof (rule that)
    show "push_message st q as =
     ok (if u then q\<lparr>pe_unorderedQueue := pe_unorderedQueue q @ as, pe_nBytes := pe_nBytes q + bytes_of st as\<rparr>
         else q\<lparr>pe_orderedQueue := pe_orderedQueue q @ as, pe_nBytes := pe_nBytes q + bytes_of st as\<rparr>)"
      by (rule push_message_eq [OF *])
  qed (use assms * in \<open>auto simp: pend_inv_def is_message_def in_message_def fragments_ok_append\<close>)
qed

text \<open>Producers push whole messages; the write loop peeks and pops one fragment at a time.\<close>

datatype pend_op = PushMessage bool "addr list" | Send

fun pend_run :: "store \<Rightarrow> pendingQueue \<Rightarrow> pend_op list \<Rightarrow> (sctp_err, addr list \<times> pendingQueue) res" where
  "pend_run st q [] = ok ([], q)"
| "pend_run st q (PushMessage u as # ops) = bind_res (push_message st q as) (\<lambda>q. pend_run st q ops)"
| "pend_run st q (Send # ops) =
     (let a = pendingQueue_peek q
      in if a = nil then pend_run st q ops
         else bind_res (pendingQueue_pop st q a) (\<lambda>(err, q).
           case err of
             Some e \<Rightarrow> fail (AssocE e)
           | None \<Rightarrow> bind_res (pend_run st q ops) (\<lambda>(out, q). ok (a # out, q))))"

text \<open>A fragment follows another only inside its message; other messages wait.\<close>

fun contiguous :: "store \<Rightarrow> bool option \<Rightarrow> addr list \<Rightarrow> bool" where
  "contiguous st m [] \<longleftrightarrow> True"
| "contiguous st m (a # as) \<longleftrightarrow> continues st m a \<and> contiguous st (message_after st a) as"

fun pushed :: "bool \<Rightarrow> pend_op list \<Rightarrow> addr list" where
  "pushed u [] = []"
| "pushed u (PushMessage v as # ops) = (if u = v then as else []) @ pushed u ops"
| "pushed u (Send # ops) = pushed u ops"

definition messages_only :: "store \<Rightarrow> pend_op list \<Rightarrow> bool" where
  "messages_only st ops \<longleftrightarrow> list_all (\<lambda>p. case p of PushMessage u as \<Rightarrow> is_message st u as | Send \<Rightarrow> True) ops"

lemma pend_run_ok:
  "pend_inv st q \<Longrightarrow> messages_only st ops \<Longrightarrow>
   \<exists>out q'. pend_run st q ops = ok (out, q') \<and> contiguous st (in_message q) out \<and>
     filter (\<lambda>a. pd_unordered (chunk_at st a)) out @ pe_unorderedQueue q' = pe_unorderedQueue q @ pushed True ops \<and>
     filter (\<lambda>a. \<not> pd_unordered (chunk_at st a)) out @ pe_orderedQueue q' = pe_orderedQueue q @ pushed False ops"
proof (induction ops arbitrary: q)
  case Nil
  then show ?case by simp
next
  case (Cons p ops)
  from Cons.prems(2) have rest: "messages_only st ops" by (simp add: messages_only_def)
  show ?case
  proof (cases p)
    case (PushMessage u as)
    with Cons.prems(2) have "is_message st u as" by (simp add: messages_only_def)
    from push_message_ok [OF Cons.prems(1) this] obtain q1 where
      "push_message st q as = ok q1" "pend_inv st q1" "in_message q1 = in_message q"
      "pe_unorderedQueue q1 = pe_unorderedQueue q @ (if u then as else [])"
      "pe_orderedQueue q1 = pe_orderedQueue q @ (if u then [] else as)" by metis
    with Cons.IH [of q1] rest PushMessage show ?thesis by auto
  next
    case Send
    show ?thesis
    proof (cases "pendingQueue_peek q = nil")
      case True
      with Cons.IH [OF Cons.prems(1) rest] Send show ?thesis by simp
    next
      case False
      from peek_pop [OF Cons.prems(1) refl False] obtain q1 where q1:
        "pendingQueue_pop st q (pendingQueue_peek q) = ok (None, q1)" "pend_inv st q1"
        "continues st (in_message q) (pendingQueue_peek q)" "in_message q1 = message_after st (pendingQueue_peek q)"
        "if pd_unordered (chunk_at st (pendingQueue_peek q))
         then pe_unorderedQueue q = pendingQueue_peek q # pe_unorderedQueue q1 \<and> pe_orderedQueue q1 = pe_orderedQueue q
         else pe_orderedQueue q = pendingQueue_peek q # pe_orderedQueue q1 \<and> pe_unorderedQueue q1 = pe_unorderedQueue q"
        by metis
      from Cons.IH [OF q1(2) rest] q1 Send False show ?thesis by (auto simp: Let_def split: if_splits)
    qed
  qed
qed

section \<open>Properties\<close>

text \<open>C20: the scheduler of \<^verbatim>\<open>pending_queue.go\<close> never interleaves messages and never gets stuck: whatever
  the order in which whole messages are pushed and single fragments are peeked and popped, every
  \<^verbatim>\<open>pop\<close> of a peeked chunk succeeds, between the first and the last fragment of a message only its own
  fragments are sent, and the ordered and the unordered fragments each leave in the order in which
  they were pushed.\<close>

theorem pendingQueue_sends_whole_messages:
  assumes "messages_only st ops"
  shows "\<exists>out q. pend_run st newPendingQueue ops = ok (out, q) \<and> contiguous st None out \<and>
    filter (\<lambda>a. pd_unordered (chunk_at st a)) out @ pe_unorderedQueue q = pushed True ops \<and>
    filter (\<lambda>a. \<not> pd_unordered (chunk_at st a)) out @ pe_orderedQueue q = pushed False ops"
  using pend_run_ok [OF pend_inv_new assms]
  by (simp add: newPendingQueue_def newPendingBaseQueue_def in_message_def)

definition sample_store :: store where
  "sample_store =
     [1 \<mapsto> zero_payload\<lparr>pd_beginningFragment := True\<rparr>, 2 \<mapsto> zero_payload\<lparr>pd_endingFragment := True\<rparr>,
      3 \<mapsto> zero_payload\<lparr>pd_beginningFragment := True, pd_endingFragment := True, pd_unordered := True\<rparr>]"

theorem pendingQueue_sends_whole_messages_witness:
  "\<exists>out q. pend_run sample_store newPendingQueue
      [PushMessage False [1, 2], Send, PushMessage True [3], Send, Send] = ok (out, q) \<and>
    contiguous sample_store None out \<and>
    filter (\<lambda>a. pd_unordered (chunk_at sample_store a)) out @ pe_unorderedQueue q =
      pushed True [PushMessage False [1, 2], Send, PushMessage True [3], Send, Send] \<and>
    filter (\<lambda>a. \<not> pd_unordered (chunk_at sample_store a)) out @ pe_orderedQueue q =
      pushed False [PushMessage False [1, 2], Send, PushMessage True [3], Send, Send]"
  by (rule pendingQueue_sends_whole_messages)
    (simp add: messages_only_def is_message_def valid_ptr_def chunk_at_def sample_store_def zero_payload_def)

text \<open>C22: \<^verbatim>\<open>payloadQueue.get\<close> compares TSNs with the plain \<^verbatim>\<open><\<close>, not with serial number arithmetic: in a
  queue of consecutive TSNs from \<open>b\<close>, the \<open>i\<close>-th chunk is found by its TSN if and only if \<open>b + i\<close>
  does not wrap around \<open>2 ^ 32\<close>. A chunk in flight beyond the wrap-around is not found.\<close>

theorem payloadQueue_get_until_wrap:
  assumes "pq_inv st b q" "i < length (pq_elems q)" "i < 2 ^ 32"
  shows "payloadQueue_get st q (b + of_nat i) =
    ok (if unat b + i < 2 ^ 32 then Some (pq_elems q ! i) else None)"
  using assms by (rule payloadQueue_get_nth)

definition wrap_store :: store where
  "wrap_store = [1 \<mapsto> zero_payload\<lparr>pd_tsn := 0xffffffff\<rparr>, 2 \<mapsto> zero_payload\<lparr>pd_tsn := 0\<rparr>]"

definition wrap_queue :: payloadQueue where
  "wrap_queue = \<lparr>pq_chunks = \<lparr>q_buf = [1, 2], q_head = 0, q_tail = 0, q_count = 2\<rparr>, pq_nBytes = 0\<rparr>"

theorem payloadQueue_get_until_wrap_witness:
  "pq_inv wrap_store 0xffffffff wrap_queue \<and>
   payloadQueue_get wrap_store wrap_queue (0xffffffff + of_nat 0) = ok (Some 1) \<and>
   payloadQueue_get wrap_store wrap_queue (0xffffffff + of_nat 1) = ok None"
proof -
  have el: "pq_elems wrap_queue = [1, 2]"
    by (simp add: wrap_queue_def queue_elems_def upt_rec)
  then have inv: "pq_inv wrap_store 0xffffffff wrap_queue"
    by (simp add: pq_inv_def) (simp add: wrap_queue_def queue_inv_def wrap_store_def valid_ptr_def chunk_at_def zero_payload_def bytes_of_def)
  then show ?thesis
    using payloadQueue_get_until_wrap [OF inv, of 0] payloadQueue_get_until_wrap [OF inv, of 1] el by simp
qed

end
