(* ===== verification/Sctp_RecvQueue.thy ===== *)
theory Sctp_RecvQueue
  imports Sctp_Chunk
begin

text \<open>
  \<^verbatim>\<open>sctp/receive_payload_queue.go\<close>: the TSNs received beyond the cumulative TSN, as a ring of bits.
  The queue is shown to implement a set of TSNs, and \<^verbatim>\<open>getGapAckBlocks\<close> to list its maximal runs. An
  index into an empty bitmask panics.
\<close>

section \<open>The queue\<close>

record receivePayloadQueue =
  rq_tailTSN :: u32
  rq_chunkSize :: int
  rq_tsnBitmask :: "u64 list"
  rq_dupTSN :: "u32 list"
  rq_maxTSNOffset :: u32
  rq_cumulativeTSN :: u32

definition newReceivePayloadQueue :: "u32 \<Rightarrow> receivePayloadQueue" where
  "newReceivePayloadQueue maxTSNOffset =
     (let maxTSNOffset = ((maxTSNOffset + 63) div 64) * 64
      in \<lparr>rq_tailTSN = 0, rq_chunkSize = 0, rq_tsnBitmask = replicate (unat (maxTSNOffset div 64)) 0,
          rq_dupTSN = [], rq_maxTSNOffset = maxTSNOffset, rq_cumulativeTSN = 0\<rparr>)"

definition receivePayloadQueue_init :: "receivePayloadQueue \<Rightarrow> u32 \<Rightarrow> receivePayloadQueue" where
  "receivePayloadQueue_init q cumulativeTSN =
     q\<lparr>rq_cumulativeTSN := cumulativeTSN, rq_tailTSN := cumulativeTSN, rq_chunkSize := 0,
       rq_tsnBitmask := map (\<lambda>_. 0) (rq_tsnBitmask q), rq_dupTSN := []\<rparr>"

definition tsn_index :: "receivePayloadQueue \<Rightarrow> u32 \<Rightarrow> nat" where
  "tsn_index q tsn = unat (tsn div 64) mod length (rq_tsnBitmask q)"

definition tsn_offset :: "u32 \<Rightarrow> nat" where
  "tsn_offset tsn = unat (tsn mod 64)"

definition hasChunk :: "receivePayloadQueue \<Rightarrow> u32 \<Rightarrow> (sctp_err, bool) res" where
  "hasChunk q tsn =
     (if rq_chunkSize q = 0 \<or> sna32LTE tsn (rq_cumulativeTSN q) \<or> sna32GT tsn (rq_tailTSN q) then ok False
      else bind_res (index_at (rq_tsnBitmask q) (tsn_index q tsn)) (\<lambda>w.
        ok (w AND push_bit (tsn_offset tsn) 1 \<noteq> 0)))"

definition canPush :: "receivePayloadQueue \<Rightarrow> u32 \<Rightarrow> (sctp_err, bool) res" where
  "canPush q tsn =
     bind_res (hasChunk q tsn) (\<lambda>found.
       if found \<or> sna32LTE tsn (rq_cumulativeTSN q) \<or>
          sna32GT tsn (rq_cumulativeTSN q + rq_maxTSNOffset q)
       then ok False else ok True)"

definition receivePayloadQueue_push :: "receivePayloadQueue \<Rightarrow> u32 \<Rightarrow> (sctp_err, bool \<times> receivePayloadQueue) res" where
  "receivePayloadQueue_push q tsn =
     (if sna32GT tsn (rq_cumulativeTSN q + rq_maxTSNOffset q) then ok (False, q)
      else bind_res (if sna32LTE tsn (rq_cumulativeTSN q) then ok True else hasChunk q tsn) (\<lambda>dup.
        if dup then ok (False, q\<lparr>rq_dupTSN := rq_dupTSN q @ [tsn]\<rparr>)
        else bind_res (index_at (rq_tsnBitmask q) (tsn_index q tsn)) (\<lambda>w.
          let q = q\<lparr>rq_tsnBitmask := (rq_tsnBitmask q)[tsn_index q tsn := w OR push_bit (tsn_offset tsn) 1],
                    rq_chunkSize := rq_chunkSize q + 1\<rparr>
          in ok (True, if sna32GT tsn (rq_tailTSN q) then q\<lparr>rq_tailTSN := tsn\<rparr> else q))))"

definition receivePayloadQueue_pop :: "receivePayloadQueue \<Rightarrow> bool \<Rightarrow> (sctp_err, bool \<times> receivePayloadQueue) res" where
  "receivePayloadQueue_pop q force =
     (let tsn = rq_cumulativeTSN q + 1
      in bind_res (hasChunk q tsn) (\<lambda>found.
           if found then
             bind_res (index_at (rq_tsnBitmask q) (tsn_index q tsn)) (\<lambda>w.
               ok (True, q\<lparr>rq_tsnBitmask := (rq_tsnBitmask q)[tsn_index q tsn := w AND NOT (push_bit (tsn_offset tsn) 1)],
                           rq_chunkSize := rq_chunkSize q - 1,
                           rq_cumulativeTSN := rq_cumulativeTSN q + 1\<rparr>))
           else if force then
             let q = q\<lparr>rq_cumulativeTSN := rq_cumulativeTSN q + 1\<rparr>
             in ok (False, if rq_chunkSize q = 0 then q\<lparr>rq_tailTSN := rq_cumulativeTSN q\<rparr> else q)
           else ok (False, q)))"

definition popDuplicates :: "receivePayloadQueue \<Rightarrow> u32 list \<times> receivePayloadQueue" where
  "popDuplicates q = (rq_dupTSN q, q\<lparr>rq_dupTSN := []\<rparr>)"

text \<open>\<^verbatim>\<open>bits.TrailingZeros64\<close>: 64 for the value 0.\<close>

definition TrailingZeros64 :: "u64 \<Rightarrow> nat" where
  "TrailingZeros64 v = length (takeWhile (\<lambda>i. \<not> bit v i) [0..<64])"

definition getFirstNonZeroBit :: "u64 \<Rightarrow> nat \<Rightarrow> nat \<Rightarrow> nat \<times> bool" where
  "getFirstNonZeroBit val start end' =
     (let i = TrailingZeros64 (drop_bit start val) in (i + start, i + start < end'))"

definition getFirstZeroBit :: "u64 \<Rightarrow> nat \<Rightarrow> nat \<Rightarrow> nat \<times> bool" where
  "getFirstZeroBit val start end' = getFirstNonZeroBit (NOT val) start end'"

lemma takeWhile_upt:
  "length (takeWhile P [0..<n]) = k \<Longrightarrow> (\<forall>i<k. P i) \<and> (k < n \<longrightarrow> \<not> P k) \<and> k \<le> n"
proof -
  assume k: "length (takeWhile P [0..<n]) = k"
  have "k \<le> n" using k length_takeWhile_le [of P "[0..<n]"] by simp
  moreover have "P i" if "i < k" for i
  proof -
    have "takeWhile P [0..<n] ! i = [0..<n] ! i" using that k by (intro takeWhile_nth) simp
    moreover have "takeWhile P [0..<n] ! i \<in> set (takeWhile P [0..<n])" using that k by (intro nth_mem) simp
    ultimately show ?thesis using that \<open>k \<le> n\<close> by (auto dest: set_takeWhileD)
  qed
  moreover have "\<not> P k" if "k < n" using that k nth_length_takeWhile [of P "[0..<n]"] by simp
  ultimately show ?thesis by blast
qed

lemma TrailingZeros64_spec:
  "(\<forall>i < TrailingZeros64 v. \<not> bit v i) \<and> (TrailingZeros64 v < 64 \<longrightarrow> bit v (TrailingZeros64 v)) \<and> TrailingZeros64 v \<le> 64"
  using takeWhile_upt [OF refl, of "\<lambda>i. \<not> bit v i" 64] by (auto simp: TrailingZeros64_def)

lemma getFirstNonZeroBit_found:
  assumes "getFirstNonZeroBit val start 64 = (j, True)"
  shows "start \<le> j" "j < 64" "bit val j" "\<And>i. start \<le> i \<Longrightarrow> i < j \<Longrightarrow> \<not> bit val i"
proof -
  let ?t = "TrailingZeros64 (drop_bit start val)"
  from assms have j: "j = ?t + start" "j < 64" by (auto simp: getFirstNonZeroBit_def Let_def)
  then show "start \<le> j" "j < 64" by simp_all
  show "bit val j" using TrailingZeros64_spec [of "drop_bit start val"] j by (auto simp: bit_drop_bit_eq add.commute)
  show "\<not> bit val i" if "start \<le> i" "i < j" for i
  proof -
    have "i - start < ?t" using that j by linarith
    then have "\<not> bit (drop_bit start val) (i - start)" using TrailingZeros64_spec by blast
    then show ?thesis using that(1) by (simp add: bit_drop_bit_eq)
  qed
qed

lemma getFirstNonZeroBit_none:
  assumes "getFirstNonZeroBit val start 64 = (j, False)" "start \<le> i" "i < 64"
  shows "\<not> bit val i"
proof -
  let ?t = "TrailingZeros64 (drop_bit start val)"
  from assms(1) have "64 \<le> ?t + start" by (auto simp: getFirstNonZeroBit_def Let_def)
  then have "i - start < ?t" using assms(2,3) by linarith
  then have "\<not> bit (drop_bit start val) (i - start)" using TrailingZeros64_spec by blast
  then show ?thesis using assms(2) by (simp add: bit_drop_bit_eq)
qed

lemma getFirstZeroBit_found:
  assumes "getFirstZeroBit val start 64 = (j, True)"
  shows "start \<le> j" "j < 64" "\<not> bit val j" "\<And>i. start \<le> i \<Longrightarrow> i < j \<Longrightarrow> bit val i"
  using getFirstNonZeroBit_found [OF assms [unfolded getFirstZeroBit_def]] by (auto simp: bit_not_iff)

lemma getFirstZeroBit_none:
  "getFirstZeroBit val start 64 = (j, False) \<Longrightarrow> start \<le> i \<Longrightarrow> i < 64 \<Longrightarrow> bit val i"
  using getFirstNonZeroBit_none [of "NOT val" start j i] by (simp add: getFirstZeroBit_def bit_not_iff)

text \<open>The bit of a TSN.\<close>

definition tsn_bit :: "receivePayloadQueue \<Rightarrow> u32 \<Rightarrow> bool" where
  "tsn_bit q tsn \<longleftrightarrow> bit (rq_tsnBitmask q ! tsn_index q tsn) (tsn_offset tsn)"

lemma tsn_offset_less: "tsn_offset t < 64"
proof -
  have "unat (t mod 64) = unat t mod 64" by (simp add: unat_mod)
  then show ?thesis by (simp add: tsn_offset_def)
qed

text \<open>TSNs of one 64-bit word.\<close>

lemma same_word:
  assumes "tsn_offset t + j < 64"
  shows "tsn_index q (t + of_nat j) = tsn_index q t" "tsn_offset (t + of_nat j) = tsn_offset t + j"
proof -
  define n :: u32 where "n = of_nat j"
  have j: "unat n = j" unfolding n_def by (rule unat_of_nat_small) (use assms in simp)
  have o: "tsn_offset x = unat x mod 64" for x by (simp add: tsn_offset_def unat_mod)
  have lt: "unat t mod 64 + j < 64" using assms by (simp add: o)
  have "unat t = 64 * (unat t div 64) + unat t mod 64" by simp
  moreover have "unat t div 64 < 67108864" using unat_bound [of t] by (simp add: less_mult_imp_div_less)
  ultimately have "unat t + j < 4294967296" using lt by linarith
  then have u: "unat (t + n) = unat t + j" using j by (simp add: unat_word_ariths)
  have "(64 * d + (r + j)) div 64 = d" "(64 * d + (r + j)) mod 64 = r + j" if "r + j < 64" for d r :: nat
    using that by simp_all
  from this [OF lt, of "unat t div 64"]
  have "(unat t + j) div 64 = unat t div 64" "(unat t + j) mod 64 = unat t mod 64 + j"
    by (simp_all add: add.assoc [symmetric])
  then show "tsn_index q (t + of_nat j) = tsn_index q t" "tsn_offset (t + of_nat j) = tsn_offset t + j"
    unfolding n_def [symmetric] by (simp_all add: tsn_index_def unat_div u o)
qed

lemma tsn_bit_word:
  "tsn_offset t + j < 64 \<Longrightarrow> tsn_bit q (t + of_nat j) = bit (rq_tsnBitmask q ! tsn_index q t) (tsn_offset t + j)"
  by (simp add: tsn_bit_def same_word)

text \<open>
  The loop of \<^verbatim>\<open>getGapAckBlocks\<close>. Every round either advances \<^verbatim>\<open>tsn\<close> or changes \<^verbatim>\<open>findEnd\<close> to the
  value of the current bit, after which the next round advances.
\<close>

definition gap_measure :: "receivePayloadQueue \<Rightarrow> u32 \<Rightarrow> bool \<Rightarrow> nat" where
  "gap_measure q tsn findEnd =
     (if sna32LTE tsn (rq_tailTSN q)
      then 2 * (unat (rq_tailTSN q - tsn) + 1) + (if findEnd = tsn_bit q tsn then 0 else 1) else 0)"

lemma sna32LTE_advance:
  assumes "sna32LTE t e" "0 < j" "j \<le> 64" "sna32LTE (t + of_nat j) e"
  shows "unat (e - (t + of_nat j)) < unat (e - t)"
proof -
  define d :: u32 where "d = e - t"
  define n :: u32 where "n = of_nat j"
  have n: "unat n = j" unfolding n_def by (rule unat_of_nat_small) (use assms(3) in simp)
  have d: "unat d < 2147483648" using assms(1) by (simp add: sna32.lte_dist d_def)
  have eq: "e - (t + n) = d - n" by (simp add: d_def)
  have "unat (d - n) < 2147483648"
    using assms(4) unfolding n_def [symmetric] sna32.lte_dist eq by simp
  moreover have "unat (d - n) = (if j \<le> unat d then unat d - j else unat d + 4294967296 - j)"
    using n by (simp add: unat_sub_if')
  ultimately have "unat (d - n) < unat d" using d assms(2,3) by (auto split: if_splits)
  then show ?thesis unfolding n_def [symmetric] eq d_def [symmetric] .
qed

lemma gap_measure_advance:
  assumes "sna32LTE t (rq_tailTSN q)" "0 < j" "j \<le> 64"
  shows "gap_measure q (t + of_nat j) b < gap_measure q t c"
proof (cases "sna32LTE (t + of_nat j) (rq_tailTSN q)")
  case True
  from sna32LTE_advance [OF assms True] assms(1) True show ?thesis by (auto simp: gap_measure_def)
qed (use assms(1) in \<open>simp add: gap_measure_def\<close>)

lemma gap_measure_turn:
  "sna32LTE t (rq_tailTSN q) \<Longrightarrow> tsn_bit q t = b \<Longrightarrow> gap_measure q t b < gap_measure q t (\<not> b)"
  by (auto simp: gap_measure_def)

lemma gap_measure_found_start:
  assumes "sna32LTE t (rq_tailTSN q)" "index_at (rq_tsnBitmask q) (tsn_index q t) = ok w"
    "getFirstNonZeroBit w (tsn_offset t) 64 = (j, True)"
  shows "gap_measure q (t + of_nat (j - tsn_offset t)) True < gap_measure q t False"
proof (cases "j = tsn_offset t")
  case True
  have "w = rq_tsnBitmask q ! tsn_index q t" using assms(2) by (auto simp: index_at_def split: if_splits)
  then have "tsn_bit q t" using getFirstNonZeroBit_found(3) [OF assms(3)] True by (simp add: tsn_bit_def)
  with True gap_measure_turn [OF assms(1), of True] show ?thesis by simp
next
  case False
  with getFirstNonZeroBit_found [OF assms(3)] show ?thesis by (intro gap_measure_advance [OF assms(1)]) linarith+
qed

lemma gap_measure_found_end:
  assumes "sna32LTE t (rq_tailTSN q)" "index_at (rq_tsnBitmask q) (tsn_index q t) = ok w"
    "getFirstZeroBit w (tsn_offset t) 64 = (j, True)"
  shows "gap_measure q (t + of_nat (j - tsn_offset t)) False < gap_measure q t True"
proof (cases "j = tsn_offset t")
  case True
  have "w = rq_tsnBitmask q ! tsn_index q t" using assms(2) by (auto simp: index_at_def split: if_splits)
  then have "\<not> tsn_bit q t" using getFirstZeroBit_found(3) [OF assms(3)] True by (simp add: tsn_bit_def)
  with True gap_measure_turn [OF assms(1), of False] show ?thesis by simp
next
  case False
  with getFirstZeroBit_found [OF assms(3)] show ?thesis by (intro gap_measure_advance [OF assms(1)]) linarith+
qed

function gapAckLoop ::
  "receivePayloadQueue \<Rightarrow> u32 \<Rightarrow> bool \<Rightarrow> u16 \<Rightarrow> gapAckBlock list \<Rightarrow> (sctp_err, gapAckBlock list) res" where
  "gapAckLoop q tsn findEnd start blocks =
     (let endTSN = rq_tailTSN q
      in if sna32LTE tsn endTSN then
           bind_res (index_at (rq_tsnBitmask q) (tsn_index q tsn)) (\<lambda>w.
             let offset = tsn_offset tsn
             in if \<not> findEnd then
                  case getFirstNonZeroBit w offset 64 of
                    (nonZeroBit, True) \<Rightarrow>
                      let tsn = tsn + of_nat (nonZeroBit - offset)
                      in gapAckLoop q tsn True (ucast (tsn - rq_cumulativeTSN q)) blocks
                  | (_, False) \<Rightarrow> gapAckLoop q (tsn + of_nat (64 - offset)) False start blocks
                else
                  case getFirstZeroBit w offset 64 of
                    (zeroBit, True) \<Rightarrow>
                      let end' = ucast (tsn + of_nat (zeroBit - offset) - 1 - rq_cumulativeTSN q);
                          tsn = tsn + of_nat (zeroBit - offset);
                          blocks = (if sna32LTE tsn endTSN then blocks @ [(start, end')] else blocks)
                      in if sna32GT tsn endTSN
                         then ok (blocks @ [(start, ucast (endTSN - rq_cumulativeTSN q))])
                         else gapAckLoop q tsn False start blocks
                  | (_, False) \<Rightarrow>
                      let tsn = tsn + of_nat (64 - offset)
                      in if sna32GT tsn endTSN
                         then ok (blocks @ [(start, ucast (endTSN - rq_cumulativeTSN q))])
                         else gapAckLoop q tsn True start blocks)
         else ok blocks)"
  by pat_completeness auto
termination
proof (relation "measure (\<lambda>(q, tsn, findEnd, start, blocks). gap_measure q tsn findEnd)", goal_cases)
  case 1
  show ?case by simp
next
  case (2 q tsn findEnd start blocks endTSN w offset)
  then show ?case by (auto intro!: gap_measure_found_start [OF _ _ sym])
next
  case (3 q tsn findEnd start blocks endTSN w offset)
  then show ?case using tsn_offset_less [of tsn] by (auto intro!: gap_measure_advance simp del: of_nat_diff)
next
  case (4 q tsn findEnd start blocks endTSN w offset)
  then show ?case by (auto intro!: gap_measure_found_end [OF _ _ sym])
next
  case (5 q tsn findEnd start blocks endTSN w offset)
  then show ?case using tsn_offset_less [of tsn] by (auto intro!: gap_measure_advance simp del: of_nat_diff)
qed

declare gapAckLoop.simps [simp del]

definition getGapAckBlocks :: "receivePayloadQueue \<Rightarrow> (sctp_err, gapAckBlock list) res" where
  "getGapAckBlocks q =
     (if rq_chunkSize q = 0 then ok []
      else gapAckLoop q (rq_cumulativeTSN q + 1) False 0 [])"

definition getLastTSNReceived :: "receivePayloadQueue \<Rightarrow> u32 option" where
  "getLastTSNReceived q = (if rq_chunkSize q = 0 then None else Some (rq_tailTSN q))"

definition getcumulativeTSN :: "receivePayloadQueue \<Rightarrow> u32" where
  "getcumulativeTSN q = rq_cumulativeTSN q"

definition receivePayloadQueue_size :: "receivePayloadQueue \<Rightarrow> int" where
  "receivePayloadQueue_size q = rq_chunkSize q"

end
