(* ===== verification/Sctp_RecvQueue_Laws.thy ===== *)
theory Sctp_RecvQueue_Laws
  imports Sctp_RecvQueue
begin

text \<open>
  The receive queue implements a set of TSNs: membership, \<^verbatim>\<open>push\<close> and \<^verbatim>\<open>pop\<close> are those of the set of
  TSNs received beyond the cumulative TSN, and \<^verbatim>\<open>getGapAckBlocks\<close> returns its maximal runs. The ring
  identifies a TSN with its position modulo the capacity; across the wrap-around of TSNs this is
  faithful only when the capacity divides \<open>2 ^ 32\<close>.
\<close>

section \<open>Positions in the ring\<close>

abbreviation rq_words :: "receivePayloadQueue \<Rightarrow> nat" where
  "rq_words q \<equiv> length (rq_tsnBitmask q)"

definition tsn_pos :: "receivePayloadQueue \<Rightarrow> u32 \<Rightarrow> nat" where
  "tsn_pos q t = unat t mod (64 * rq_words q)"

text \<open>The distance of a TSN beyond the cumulative TSN.\<close>

definition tsn_dist :: "receivePayloadQueue \<Rightarrow> u32 \<Rightarrow> nat" where
  "tsn_dist q t = unat (t - rq_cumulativeTSN q)"

definition window_ok :: "nat \<Rightarrow> u32 \<Rightarrow> bool" where
  "window_ok n c \<longleftrightarrow> 64 * n dvd 2 ^ 32 \<or> unat c + 64 * n < 2 ^ 32"

lemma pos_components: "tsn_index q t = tsn_pos q t div 64" "tsn_offset t = tsn_pos q t mod 64"
proof -
  have "tsn_pos q t = 64 * (unat t div 64 mod rq_words q) + unat t mod 64"
    by (simp add: tsn_pos_def mod_mult2_eq)
  then show "tsn_index q t = tsn_pos q t div 64" "tsn_offset t = tsn_pos q t mod 64"
    by (simp_all add: tsn_index_def tsn_offset_def unat_div unat_mod)
qed

lemma same_pos_iff: "tsn_index q s = tsn_index q t \<and> tsn_offset s = tsn_offset t \<longleftrightarrow> tsn_pos q s = tsn_pos q t"
proof
  assume "tsn_index q s = tsn_index q t \<and> tsn_offset s = tsn_offset t"
  then have "tsn_pos q s div 64 = tsn_pos q t div 64" "tsn_pos q s mod 64 = tsn_pos q t mod 64"
    by (simp_all add: pos_components [symmetric])
  then show "tsn_pos q s = tsn_pos q t" by (metis div_mod_decomp)
next
  assume "tsn_pos q s = tsn_pos q t"
  then show "tsn_index q s = tsn_index q t \<and> tsn_offset s = tsn_offset t"
    by (simp add: pos_components(1)) (simp add: pos_components(2) [of _ q])
qed

lemma tsn_index_less: "0 < rq_words q \<Longrightarrow> tsn_index q t < rq_words q"
  by (simp add: tsn_index_def)

lemma tsn_of_dist: "t = rq_cumulativeTSN q + of_nat (tsn_dist q t)"
  by (simp add: tsn_dist_def)

lemma window_pos:
  assumes "window_ok n c" "unat (t - c) \<le> 64 * n"
  shows "unat t mod (64 * n) = (unat c + unat (t - c)) mod (64 * n)"
proof -
  have "unat t = (unat c + unat (t - c)) mod 2 ^ 32"
    using unat_word_ariths(1) [of c "t - c"] by simp
  then show ?thesis
    using assms by (auto simp: window_ok_def mod_mod_cancel)
qed

lemma mod_window_inj:
  assumes "(u + i) mod m = (u + j) mod m" "0 < i" "i \<le> m" "0 < j" "j \<le> (m::nat)"
  shows "i = j"
proof -
  have *: "j \<le> i" if eq: "(u + i) mod m = (u + j) mod m" and "i \<le> j" "0 < i" "j \<le> m" for i j
  proof -
    have "m dvd (u + j) - (u + i)" by (subst mod_eq_dvd_iff_nat [symmetric]) (use eq that(2) in auto)
    then have "m dvd j - i" by simp
    moreover have "j - i < m" using that by linarith
    ultimately show ?thesis by (metis diff_is_0_eq dvd_imp_le linorder_not_less not_gr_zero)
  qed
  show ?thesis using * [of i j] * [of j i] assms by (metis le_antisym nat_le_linear)
qed

lemma window_inj:
  assumes "window_ok (rq_words q) (rq_cumulativeTSN q)" "tsn_pos q s = tsn_pos q t"
    "0 < tsn_dist q s" "tsn_dist q s \<le> 64 * rq_words q" "0 < tsn_dist q t" "tsn_dist q t \<le> 64 * rq_words q"
  shows "s = t"
proof -
  have "(unat (rq_cumulativeTSN q) + tsn_dist q s) mod (64 * rq_words q) =
      (unat (rq_cumulativeTSN q) + tsn_dist q t) mod (64 * rq_words q)"
    using assms(2,4,6) window_pos [OF assms(1), of s] window_pos [OF assms(1), of t]
    by (simp add: tsn_pos_def tsn_dist_def)
  from mod_window_inj [OF this assms(3-6)] show ?thesis by (metis tsn_of_dist)
qed

section \<open>Comparisons as distances\<close>

lemma unat_minus_dist:
  fixes c e t :: u32
  shows "unat (t - e) = (if unat (e - c) \<le> unat (t - c) then unat (t - c) - unat (e - c)
     else unat (t - c) + 2 ^ 32 - unat (e - c))"
proof -
  have "t - e = (t - c) - (e - c)" by simp
  then show ?thesis using unat_sub_if' [of "t - c" "e - c"] by simp
qed

lemma lte_cum_dist: "sna32LTE t (rq_cumulativeTSN q) \<longleftrightarrow> tsn_dist q t = 0 \<or> 2 ^ 31 < tsn_dist q t"
  using unat_minus_dist [of "rq_cumulativeTSN q" t "rq_cumulativeTSN q"] unat_bound [of "t - rq_cumulativeTSN q"]
  by (simp add: sna32.lte_dist tsn_dist_def) linarith

lemma gt_dist_dist:
  "sna32GT t e \<longleftrightarrow> (tsn_dist q e < tsn_dist q t \<and> tsn_dist q t \<le> tsn_dist q e + 2 ^ 31) \<or>
     (tsn_dist q t + 2 ^ 31 \<le> tsn_dist q e)"
  using unat_minus_dist [of t e "rq_cumulativeTSN q"] unat_bound [of "t - rq_cumulativeTSN q"]
    unat_bound [of "e - rq_cumulativeTSN q"]
  by (simp add: sna32.gt_dist tsn_dist_def) linarith

section \<open>The invariant and the set\<close>

definition rq_tsns :: "receivePayloadQueue \<Rightarrow> u32 set" where
  "rq_tsns q = {t. 0 < tsn_dist q t \<and> tsn_dist q t \<le> 64 * rq_words q \<and> tsn_bit q t}"

definition rq_inv :: "receivePayloadQueue \<Rightarrow> bool" where
  "rq_inv q \<longleftrightarrow> 0 < rq_words q \<and> unat (rq_maxTSNOffset q) = 64 * rq_words q \<and> 64 * rq_words q < 2 ^ 31 \<and>
     window_ok (rq_words q) (rq_cumulativeTSN q) \<and> rq_chunkSize q = int (card (rq_tsns q)) \<and>
     (if rq_tsns q = {} then rq_tailTSN q = rq_cumulativeTSN q
      else rq_tailTSN q \<in> rq_tsns q \<and> (\<forall>t \<in> rq_tsns q. tsn_dist q t \<le> tsn_dist q (rq_tailTSN q)))"

lemma rq_tsns_D: "t \<in> rq_tsns q \<Longrightarrow> 0 < tsn_dist q t \<and> tsn_dist q t \<le> 64 * rq_words q \<and> tsn_bit q t"
  by (simp add: rq_tsns_def)

lemma rq_inv_size: "rq_inv q \<Longrightarrow> rq_chunkSize q = 0 \<longleftrightarrow> rq_tsns q = {}"
  by (simp add: rq_inv_def)

lemma dist_max: "tsn_dist q (rq_cumulativeTSN q + rq_maxTSNOffset q) = unat (rq_maxTSNOffset q)"
  by (simp add: tsn_dist_def)

lemma word_and_bit: "(w :: u64) AND 2 ^ n \<noteq> 0 \<longleftrightarrow> bit w n"
  by (simp add: bit_iff_and_push_bit_not_eq_0)

lemma hasChunk_eq:
  assumes "rq_inv q"
  shows "hasChunk q t = ok (t \<in> rq_tsns q)"
proof (cases "rq_tsns q = {}")
  case True
  then show ?thesis using rq_inv_size [OF assms] by (simp add: hasChunk_def)
next
  case False
  let ?k = "tsn_dist q t" and ?m = "tsn_dist q (rq_tailTSN q)"
  have n: "0 < rq_words q" and m: "0 < ?m" "?m \<le> 64 * rq_words q" "64 * rq_words q < 2 ^ 31"
    and top: "\<And>s. s \<in> rq_tsns q \<Longrightarrow> tsn_dist q s \<le> ?m"
    using assms False by (auto simp: rq_inv_def dest: rq_tsns_D)
  have size: "rq_chunkSize q \<noteq> 0" using False rq_inv_size [OF assms] by simp
  have out: "sna32LTE t (rq_cumulativeTSN q) \<or> sna32GT t (rq_tailTSN q) \<longleftrightarrow> \<not> (0 < ?k \<and> ?k \<le> ?m)"
    unfolding lte_cum_dist gt_dist_dist [of t "rq_tailTSN q" q] using m by linarith
  have bit: "rq_tsnBitmask q ! tsn_index q t AND push_bit (tsn_offset t) 1 \<noteq> 0 \<longleftrightarrow> tsn_bit q t"
    by (simp add: word_and_bit tsn_bit_def)
  show ?thesis
    using size out bit m top [of t] tsn_index_less [OF n, of t]
    by (auto simp: hasChunk_def rq_tsns_def)
qed

lemma canPush_eq:
  assumes "rq_inv q"
  shows "canPush q t = ok (0 < tsn_dist q t \<and> tsn_dist q t \<le> 64 * rq_words q \<and> t \<notin> rq_tsns q)"
proof -
  have b: "unat (rq_maxTSNOffset q) = 64 * rq_words q" "64 * rq_words q < 2 ^ 31"
    using assms by (simp_all add: rq_inv_def)
  have "sna32LTE t (rq_cumulativeTSN q) \<or> sna32GT t (rq_cumulativeTSN q + rq_maxTSNOffset q) \<longleftrightarrow>
      \<not> (0 < tsn_dist q t \<and> tsn_dist q t \<le> 64 * rq_words q)"
    unfolding lte_cum_dist gt_dist_dist [of t _ q] dist_max b(1) using b(2) by linarith
  then show ?thesis by (auto simp: canPush_def hasChunk_eq [OF assms])
qed

section \<open>push and pop\<close>

definition set_tsn :: "receivePayloadQueue \<Rightarrow> u32 \<Rightarrow> receivePayloadQueue" where
  "set_tsn q t = q\<lparr>rq_tsnBitmask := (rq_tsnBitmask q)[tsn_index q t :=
     rq_tsnBitmask q ! tsn_index q t OR push_bit (tsn_offset t) 1]\<rparr>"

definition clear_tsn :: "receivePayloadQueue \<Rightarrow> u32 \<Rightarrow> receivePayloadQueue" where
  "clear_tsn q t = q\<lparr>rq_tsnBitmask := (rq_tsnBitmask q)[tsn_index q t :=
     rq_tsnBitmask q ! tsn_index q t AND NOT (push_bit (tsn_offset t) 1)]\<rparr>"

lemma set_tsn_words [simp]: "rq_words (set_tsn q t) = rq_words q" "rq_words (clear_tsn q t) = rq_words q"
  by (simp_all add: set_tsn_def clear_tsn_def)

lemma set_tsn_fields [simp]:
  "rq_cumulativeTSN (set_tsn q t) = rq_cumulativeTSN q" "rq_tailTSN (set_tsn q t) = rq_tailTSN q"
  "rq_maxTSNOffset (set_tsn q t) = rq_maxTSNOffset q" "rq_chunkSize (set_tsn q t) = rq_chunkSize q"
  "rq_dupTSN (set_tsn q t) = rq_dupTSN q"
  "rq_cumulativeTSN (clear_tsn q t) = rq_cumulativeTSN q" "rq_tailTSN (clear_tsn q t) = rq_tailTSN q"
  "rq_maxTSNOffset (clear_tsn q t) = rq_maxTSNOffset q" "rq_chunkSize (clear_tsn q t) = rq_chunkSize q"
  "rq_dupTSN (clear_tsn q t) = rq_dupTSN q"
  by (simp_all add: set_tsn_def clear_tsn_def)

lemma tsn_bit_set:
  assumes "0 < rq_words q"
  shows "tsn_bit (set_tsn q t) s \<longleftrightarrow> tsn_bit q s \<or> tsn_pos q s = tsn_pos q t"
proof -
  have "tsn_index (set_tsn q t) s = tsn_index q s" by (simp add: tsn_index_def)
  then show ?thesis
    using tsn_index_less [OF assms, of t] tsn_offset_less [of s]
    unfolding same_pos_iff [symmetric]
    by (auto simp: tsn_bit_def set_tsn_def nth_list_update bit_simps simp del: push_bit_of_1)
qed

lemma tsn_bit_clear:
  assumes "0 < rq_words q"
  shows "tsn_bit (clear_tsn q t) s \<longleftrightarrow> tsn_bit q s \<and> tsn_pos q s \<noteq> tsn_pos q t"
proof -
  have "tsn_index (clear_tsn q t) s = tsn_index q s" by (simp add: tsn_index_def)
  then show ?thesis
    using tsn_index_less [OF assms, of t] tsn_offset_less [of s]
    unfolding same_pos_iff [symmetric]
    by (auto simp: tsn_bit_def clear_tsn_def nth_list_update bit_simps simp del: push_bit_of_1)
qed

lemma rq_tsns_set:
  assumes "rq_inv q" "0 < tsn_dist q t" "tsn_dist q t \<le> 64 * rq_words q"
  shows "rq_tsns (set_tsn q t) = insert t (rq_tsns q)"
proof -
  have "0 < rq_words q" "window_ok (rq_words q) (rq_cumulativeTSN q)" using assms(1) by (simp_all add: rq_inv_def)
  moreover have "tsn_dist (set_tsn q t) s = tsn_dist q s" for s by (simp add: tsn_dist_def)
  ultimately show ?thesis
    using assms(2,3) window_inj [of q _ t] by (auto simp: rq_tsns_def tsn_bit_set)
qed

text \<open>Only the bits, the cumulative TSN and the size of the ring determine the set.\<close>

lemma rq_tsns_cong:
  "rq_tsnBitmask q' = rq_tsnBitmask q \<Longrightarrow> rq_cumulativeTSN q' = rq_cumulativeTSN q \<Longrightarrow> rq_tsns q' = rq_tsns q"
  by (simp add: rq_tsns_def tsn_dist_def tsn_bit_def tsn_index_def)

lemma push_new:
  assumes inv: "rq_inv q" and t: "0 < tsn_dist q t" "tsn_dist q t \<le> 64 * rq_words q" "t \<notin> rq_tsns q"
  obtains q' where "receivePayloadQueue_push q t = ok (True, q')" "rq_inv q'" "rq_tsns q' = insert t (rq_tsns q)"
    "rq_cumulativeTSN q' = rq_cumulativeTSN q" "rq_words q' = rq_words q" "rq_dupTSN q' = rq_dupTSN q"
proof -
  have n: "0 < rq_words q" "unat (rq_maxTSNOffset q) = 64 * rq_words q" "64 * rq_words q < 2 ^ 31"
    using inv by (simp_all add: rq_inv_def)
  let ?r = "(set_tsn q t)\<lparr>rq_chunkSize := rq_chunkSize q + 1\<rparr>"
  let ?q' = "if sna32GT t (rq_tailTSN q) then ?r\<lparr>rq_tailTSN := t\<rparr> else ?r"
  have near: "\<not> sna32GT t (rq_cumulativeTSN q + rq_maxTSNOffset q)" "\<not> sna32LTE t (rq_cumulativeTSN q)"
    unfolding lte_cum_dist gt_dist_dist [of t _ q] dist_max n(2) using t n(3) by linarith+
  have fields: "rq_cumulativeTSN ?q' = rq_cumulativeTSN q" "rq_words ?q' = rq_words q" "rq_dupTSN ?q' = rq_dupTSN q"
    "rq_tsnBitmask ?q' = rq_tsnBitmask (set_tsn q t)" "rq_maxTSNOffset ?q' = rq_maxTSNOffset q"
    "rq_chunkSize ?q' = rq_chunkSize q + 1"
    by simp_all
  have push: "receivePayloadQueue_push q t = ok (True, ?q')"
    using near hasChunk_eq [OF inv, of t] t(3) tsn_index_less [OF n(1), of t]
    by (simp add: receivePayloadQueue_push_def set_tsn_def Let_def)
  have tsns: "rq_tsns ?q' = insert t (rq_tsns q)"
    using rq_tsns_cong [of ?q' "set_tsn q t"] rq_tsns_set [OF inv t(1,2)] fields by simp
  have dist: "tsn_dist ?q' s = tsn_dist q s" for s by (simp add: tsn_dist_def)
  have tail: "sna32GT t (rq_tailTSN q) \<longleftrightarrow> tsn_dist q (rq_tailTSN q) < tsn_dist q t"
  proof -
    have "tsn_dist q (rq_tailTSN q) \<le> 64 * rq_words q"
      using inv by (auto simp: rq_inv_def tsn_dist_def dest: rq_tsns_D split: if_splits)
    then show ?thesis unfolding gt_dist_dist [of t "rq_tailTSN q" q] using t n(3) by linarith
  qed
  have "card (rq_tsns ?q') = Suc (card (rq_tsns q))" unfolding tsns using t(3) by simp
  moreover have "rq_tailTSN ?q' \<in> rq_tsns ?q' \<and> (\<forall>s \<in> rq_tsns ?q'. tsn_dist ?q' s \<le> tsn_dist ?q' (rq_tailTSN ?q'))"
    unfolding dist tsns using inv tail t by (auto simp: rq_inv_def tsn_dist_def split: if_splits)
  ultimately have "rq_inv ?q'" using inv fields tsns by (simp add: rq_inv_def)
  with push tsns fields show ?thesis using that by blast
qed

lemma push_dup:
  assumes "rq_inv q" "tsn_dist q t = 0 \<or> 64 * rq_words q + 2 ^ 31 < tsn_dist q t \<or> t \<in> rq_tsns q"
  shows "receivePayloadQueue_push q t = ok (False, q\<lparr>rq_dupTSN := rq_dupTSN q @ [t]\<rparr>)"
proof -
  have n: "unat (rq_maxTSNOffset q) = 64 * rq_words q" "64 * rq_words q < 2 ^ 31"
    using assms(1) by (simp_all add: rq_inv_def)
  have "\<not> sna32GT t (rq_cumulativeTSN q + rq_maxTSNOffset q)"
    unfolding gt_dist_dist [of t _ q] dist_max n(1) using assms(2) n(2) rq_tsns_D [of t q] by linarith
  moreover have "sna32LTE t (rq_cumulativeTSN q) \<or> t \<in> rq_tsns q"
    unfolding lte_cum_dist using assms(2) by linarith
  ultimately show ?thesis by (auto simp: receivePayloadQueue_push_def hasChunk_eq [OF assms(1)])
qed

lemma push_far:
  assumes "rq_inv q" "64 * rq_words q < tsn_dist q t" "tsn_dist q t \<le> 64 * rq_words q + 2 ^ 31"
  shows "receivePayloadQueue_push q t = ok (False, q)"
proof -
  have "unat (rq_maxTSNOffset q) = 64 * rq_words q" using assms(1) by (simp add: rq_inv_def)
  then have "sna32GT t (rq_cumulativeTSN q + rq_maxTSNOffset q)"
    unfolding gt_dist_dist [of t _ q] dist_max using assms(2,3) by simp
  then show ?thesis by (simp add: receivePayloadQueue_push_def)
qed

lemma dist_step:
  assumes "rq_cumulativeTSN r = rq_cumulativeTSN q + 1"
  shows "tsn_dist r s = (if tsn_dist q s = 0 then 2 ^ 32 - 1 else tsn_dist q s - 1)"
proof -
  define d where "d = s - rq_cumulativeTSN q"
  have "s - rq_cumulativeTSN r = d - 1" using assms by (simp add: d_def)
  moreover have "unat (d - 1) = (if unat d = 0 then 2 ^ 32 - 1 else unat d - 1)"
    using unat_sub_if' [of d 1] by auto
  ultimately show ?thesis by (simp only: tsn_dist_def d_def)
qed

text \<open>Advancing the cumulative TSN over \<open>t\<close>, whose bit is clear afterwards.\<close>

lemma rq_tsns_advance:
  assumes "0 < rq_words q" "64 * rq_words q < 2 ^ 31" "window_ok (rq_words q) (rq_cumulativeTSN q)"
    and w: "window_ok (rq_words q) (rq_cumulativeTSN q + 1)"
    and r: "rq_cumulativeTSN r = rq_cumulativeTSN q + 1" "rq_words r = rq_words q"
    and bits: "\<And>s. tsn_bit r s \<longleftrightarrow> tsn_bit q s \<and> tsn_pos q s \<noteq> tsn_pos q (rq_cumulativeTSN q + 1)"
  shows "rq_tsns r = rq_tsns q - {rq_cumulativeTSN q + 1}"
proof (rule set_eqI)
  fix s
  let ?t = "rq_cumulativeTSN q + 1"
  have dt: "tsn_dist q ?t = 1" by (simp add: tsn_dist_def)
  have last: "tsn_pos q s = tsn_pos q ?t" if "tsn_dist q s = 64 * rq_words q + 1"
  proof -
    have d: "unat (s - ?t) = 64 * rq_words q"
      using dist_step [OF r(1), of s] that r(1) by (simp add: tsn_dist_def)
    then show ?thesis using window_pos [OF w, of s] by (simp add: tsn_pos_def)
  qed
  have inj: "tsn_pos q s \<noteq> tsn_pos q ?t" if "0 < tsn_dist q s" "tsn_dist q s \<le> 64 * rq_words q" "s \<noteq> ?t"
  proof
    assume "tsn_pos q s = tsn_pos q ?t"
    from window_inj [OF assms(3) this] that dt assms(1) show False by linarith
  qed
  have one: "s = ?t" if "tsn_dist q s = 1" using tsn_of_dist [of s q] that by simp
  have mem: "s \<in> rq_tsns r \<longleftrightarrow> 0 < tsn_dist r s \<and> tsn_dist r s \<le> 64 * rq_words q \<and> tsn_bit q s \<and> tsn_pos q s \<noteq> tsn_pos q ?t"
    unfolding rq_tsns_def r(2) bits by simp
  note step = dist_step [OF r(1), of s]
  consider "tsn_dist q s = 0" | "tsn_dist q s = 1" | "2 \<le> tsn_dist q s" "tsn_dist q s \<le> 64 * rq_words q"
    | "tsn_dist q s = 64 * rq_words q + 1" | "64 * rq_words q + 1 < tsn_dist q s" by linarith
  then show "s \<in> rq_tsns r \<longleftrightarrow> s \<in> rq_tsns q - {?t}"
  proof cases
    case 1
    then have "tsn_dist r s = 4294967295" using step by simp
    then show ?thesis using mem 1 assms(2) by (simp add: rq_tsns_def)
  next
    case 2
    then have "tsn_dist r s = 0" using step by simp
    then show ?thesis using mem one [OF 2] by simp
  next
    case 3
    then have "s \<noteq> ?t" "tsn_dist r s = tsn_dist q s - 1" using dt step by auto
    then show ?thesis using mem inj 3 by (auto simp: rq_tsns_def)
  next
    case 4
    then show ?thesis using mem last by (simp add: rq_tsns_def)
  next
    case 5
    then have "tsn_dist r s = tsn_dist q s - 1" using step by simp
    then have "\<not> tsn_dist r s \<le> 64 * rq_words q" using 5 by linarith
    then show ?thesis unfolding mem using 5 by (simp add: rq_tsns_def)
  qed
qed

lemma rq_invI:
  assumes "0 < rq_words r" "unat (rq_maxTSNOffset r) = 64 * rq_words r" "64 * rq_words r < 2 ^ 31"
    "window_ok (rq_words r) (rq_cumulativeTSN r)" "rq_chunkSize r = int (card (rq_tsns r))"
    "rq_tsns r = {} \<Longrightarrow> rq_tailTSN r = rq_cumulativeTSN r" "rq_tsns r \<noteq> {} \<Longrightarrow> rq_tailTSN r \<in> rq_tsns r"
    "\<And>s. s \<in> rq_tsns r \<Longrightarrow> tsn_dist r s \<le> tsn_dist r (rq_tailTSN r)"
  shows "rq_inv r"
  unfolding rq_inv_def using assms by simp

lemma rq_inv_D:
  assumes "rq_inv q"
  shows "0 < rq_words q" "unat (rq_maxTSNOffset q) = 64 * rq_words q" "64 * rq_words q < 2 ^ 31"
    "window_ok (rq_words q) (rq_cumulativeTSN q)" "rq_chunkSize q = int (card (rq_tsns q))"
    "rq_tsns q = {} \<Longrightarrow> rq_tailTSN q = rq_cumulativeTSN q" "rq_tsns q \<noteq> {} \<Longrightarrow> rq_tailTSN q \<in> rq_tsns q"
    "\<And>s. s \<in> rq_tsns q \<Longrightarrow> tsn_dist q s \<le> tsn_dist q (rq_tailTSN q)"
proof -
  show "0 < rq_words q" "unat (rq_maxTSNOffset q) = 64 * rq_words q" "64 * rq_words q < 2 ^ 31"
    "window_ok (rq_words q) (rq_cumulativeTSN q)" "rq_chunkSize q = int (card (rq_tsns q))"
    using assms by (simp_all add: rq_inv_def)
  show "rq_tsns q = {} \<Longrightarrow> rq_tailTSN q = rq_cumulativeTSN q" using assms by (simp add: rq_inv_def)
  show "rq_tsns q \<noteq> {} \<Longrightarrow> rq_tailTSN q \<in> rq_tsns q" using assms by (simp add: rq_inv_def)
  show "tsn_dist q s \<le> tsn_dist q (rq_tailTSN q)" if "s \<in> rq_tsns q" for s
    using assms that unfolding rq_inv_def by (cases "rq_tsns q = {}") simp_all
qed

lemma dist_step_tsns:
  "rq_cumulativeTSN r = rq_cumulativeTSN q + 1 \<Longrightarrow> s \<in> rq_tsns q \<Longrightarrow> tsn_dist r s = tsn_dist q s - 1"
  using dist_step [of r q s] rq_tsns_D [of s q] by simp

lemma pop_found:
  assumes inv: "rq_inv q" and w: "window_ok (rq_words q) (rq_cumulativeTSN q + 1)"
    and t: "rq_cumulativeTSN q + 1 \<in> rq_tsns q"
  obtains q' where "receivePayloadQueue_pop q force = ok (True, q')" "rq_inv q'"
    "rq_tsns q' = rq_tsns q - {rq_cumulativeTSN q + 1}" "rq_cumulativeTSN q' = rq_cumulativeTSN q + 1"
    "rq_words q' = rq_words q" "rq_dupTSN q' = rq_dupTSN q"
proof -
  note n = rq_inv_D [OF inv]
  define u where "u = rq_cumulativeTSN q + 1"
  define r where "r = (clear_tsn q u)\<lparr>rq_chunkSize := rq_chunkSize q - 1, rq_cumulativeTSN := u\<rparr>"
  have r: "rq_words r = rq_words q" "rq_maxTSNOffset r = rq_maxTSNOffset q" "rq_cumulativeTSN r = u"
    "rq_chunkSize r = rq_chunkSize q - 1" "rq_tailTSN r = rq_tailTSN q" "rq_dupTSN r = rq_dupTSN q"
    by (simp_all add: r_def)
  have pop: "receivePayloadQueue_pop q force = ok (True, r)"
    using hasChunk_eq [OF inv, of u] t tsn_index_less [OF n(1), of u]
    by (simp add: receivePayloadQueue_pop_def clear_tsn_def Let_def r_def u_def)
  have b: "tsn_bit r s = tsn_bit (clear_tsn q u) s" for s by (simp add: r_def tsn_bit_def tsn_index_def)
  have tsns: "rq_tsns r = rq_tsns q - {u}" unfolding u_def
    by (rule rq_tsns_advance [OF n(1,3,4) w]) (simp_all add: r u_def b tsn_bit_clear [OF n(1)])
  have du: "tsn_dist q u = 1" by (simp add: tsn_dist_def u_def)
  have u: "u \<in> rq_tsns q" using t by (simp add: u_def)
  have tail: "rq_tailTSN q \<in> rq_tsns q" using n(7) u by blast
  have "rq_inv r"
  proof (rule rq_invI)
    have "0 < card (rq_tsns q)" using u by (auto simp: card_gt_0_iff)
    then show "rq_chunkSize r = int (card (rq_tsns r))" using u n(5) r(4) by (simp add: tsns card_Diff_singleton)
    show "rq_tailTSN r = rq_cumulativeTSN r" if "rq_tsns r = {}" using that tail by (auto simp: tsns r)
    show "rq_tailTSN r \<in> rq_tsns r" if ne: "rq_tsns r \<noteq> {}"
    proof -
      obtain s where s: "s \<in> rq_tsns q" "s \<noteq> u" using ne unfolding tsns by auto
      have "s = u" if "tsn_dist q s = 1" using tsn_of_dist [of s q] that by (simp add: u_def)
      then have "1 < tsn_dist q s" using s rq_tsns_D [OF s(1)] by linarith
      then have "rq_tailTSN q \<noteq> u" using n(8) [OF s(1)] du by force
      then show ?thesis using tail by (simp add: tsns r)
    qed
    show "tsn_dist r s \<le> tsn_dist r (rq_tailTSN r)" if "s \<in> rq_tsns r" for s
    proof -
      have "s \<in> rq_tsns q" using that unfolding tsns by simp
      then show ?thesis
        using dist_step_tsns [of r q s] dist_step_tsns [of r q "rq_tailTSN q"] tail n(8) [of s]
        by (simp add: r u_def diff_le_mono)
    qed
  qed (use n(1-3) w r in \<open>simp_all add: u_def\<close>)
  then show ?thesis by (intro that [of r]) (use pop tsns r in \<open>simp_all add: u_def\<close>)
qed

lemma pop_missing:
  assumes inv: "rq_inv q" and t: "rq_cumulativeTSN q + 1 \<notin> rq_tsns q"
  shows "receivePayloadQueue_pop q False = ok (False, q)"
  using hasChunk_eq [OF inv, of "rq_cumulativeTSN q + 1"] t by (simp add: receivePayloadQueue_pop_def)

lemma pop_forced:
  assumes inv: "rq_inv q" and w: "window_ok (rq_words q) (rq_cumulativeTSN q + 1)"
    and t: "rq_cumulativeTSN q + 1 \<notin> rq_tsns q"
  obtains q' where "receivePayloadQueue_pop q True = ok (False, q')" "rq_inv q'" "rq_tsns q' = rq_tsns q"
    "rq_cumulativeTSN q' = rq_cumulativeTSN q + 1" "rq_words q' = rq_words q" "rq_dupTSN q' = rq_dupTSN q"
proof -
  note n = rq_inv_D [OF inv]
  define u where "u = rq_cumulativeTSN q + 1"
  define r where "r = (if rq_chunkSize q = 0 then q\<lparr>rq_cumulativeTSN := u, rq_tailTSN := u\<rparr> else q\<lparr>rq_cumulativeTSN := u\<rparr>)"
  have r: "rq_words r = rq_words q" "rq_maxTSNOffset r = rq_maxTSNOffset q" "rq_cumulativeTSN r = u"
    "rq_chunkSize r = rq_chunkSize q" "rq_tailTSN r = (if rq_tsns q = {} then u else rq_tailTSN q)"
    "rq_dupTSN r = rq_dupTSN q"
    using rq_inv_size [OF inv] by (simp_all add: r_def)
  have pop: "receivePayloadQueue_pop q True = ok (False, r)"
    using hasChunk_eq [OF inv, of u] t by (simp add: receivePayloadQueue_pop_def Let_def r_def u_def)
  have b: "tsn_bit r s = tsn_bit q s" for s by (simp add: r_def tsn_bit_def tsn_index_def)
  have "tsn_dist q u = 1" by (simp add: tsn_dist_def u_def)
  then have "0 < tsn_dist q u" "tsn_dist q u \<le> 64 * rq_words q" using n(1) by linarith+
  with t have "\<not> tsn_bit q u" unfolding rq_tsns_def u_def by blast
  then have clear: "tsn_bit q s \<Longrightarrow> tsn_pos q s \<noteq> tsn_pos q u" for s
    unfolding same_pos_iff [symmetric] by (auto simp: tsn_bit_def)
  have "rq_tsns r = rq_tsns q - {u}" unfolding u_def
    by (rule rq_tsns_advance [OF n(1,3,4) w]) (use clear in \<open>auto simp: r u_def b\<close>)
  then have tsns: "rq_tsns r = rq_tsns q" using t by (simp add: u_def)
  have "rq_inv r"
  proof (rule rq_invI)
    show "rq_tailTSN r \<in> rq_tsns r" if "rq_tsns r \<noteq> {}" using that n(7) by (simp add: tsns r)
    show "tsn_dist r s \<le> tsn_dist r (rq_tailTSN r)" if "s \<in> rq_tsns r" for s
    proof -
      have s: "s \<in> rq_tsns q" using that tsns by simp
      then have "rq_tailTSN q \<in> rq_tsns q" "rq_tailTSN r = rq_tailTSN q" using n(7) r(5) by auto
      then show ?thesis
        using dist_step_tsns [of r q s] dist_step_tsns [of r q "rq_tailTSN q"] s n(8) [of s] r(3)
        by (simp add: u_def diff_le_mono)
    qed
  qed (use n(1-3,5) w r tsns in \<open>simp_all add: u_def\<close>)
  then show ?thesis by (intro that [of r]) (use pop tsns r in \<open>simp_all add: u_def\<close>)
qed

section \<open>Gap ack blocks\<close>

text \<open>The bit \<open>j\<close> TSNs beyond the cumulative one, and the offsets that a list of blocks reports.\<close>

definition gap_bit :: "receivePayloadQueue \<Rightarrow> nat \<Rightarrow> bool" where
  "gap_bit q j \<longleftrightarrow> tsn_bit q (rq_cumulativeTSN q + of_nat j)"

definition covered :: "gapAckBlock list \<Rightarrow> nat \<Rightarrow> bool" where
  "covered bs j \<longleftrightarrow> (\<exists>(s, e) \<in> set bs. unat s \<le> j \<and> j \<le> unat e)"

text \<open>Ascending blocks with at least one offset between neighbours.\<close>

fun separated :: "nat \<Rightarrow> gapAckBlock list \<Rightarrow> bool" where
  "separated lo [] \<longleftrightarrow> True"
| "separated lo ((s, e) # bs) \<longleftrightarrow> lo < unat s \<and> unat s \<le> unat e \<and> separated (unat e + 1) bs"

lemma covered_snoc [simp]: "covered (bs @ [(s, e)]) j \<longleftrightarrow> covered bs j \<or> (unat s \<le> j \<and> j \<le> unat e)"
  by (auto simp: covered_def)

lemma separated_snoc:
  "separated lo bs \<Longrightarrow> lo < unat s \<Longrightarrow> (\<forall>(s', e') \<in> set bs. unat e' + 1 < unat s) \<Longrightarrow> unat s \<le> unat e \<Longrightarrow>
   separated lo (bs @ [(s, e)])"
  by (induction lo bs rule: separated.induct) auto

lemma gap_bit_word:
  assumes "tsn_offset (rq_cumulativeTSN q + of_nat k) + i < 64"
  shows "gap_bit q (k + i) = bit (rq_tsnBitmask q ! tsn_index q (rq_cumulativeTSN q + of_nat k))
    (tsn_offset (rq_cumulativeTSN q + of_nat k) + i)"
  using tsn_bit_word [OF assms, of q] by (simp add: gap_bit_def add.assoc)

lemma scan_nonzero:
  assumes "getFirstNonZeroBit (rq_tsnBitmask q ! tsn_index q t) (tsn_offset t) 64 = (j, b)"
    and t: "t = rq_cumulativeTSN q + of_nat k"
  shows "b \<Longrightarrow> tsn_offset t \<le> j \<and> j < 64 \<and> gap_bit q (k + (j - tsn_offset t)) \<and> (\<forall>i < j - tsn_offset t. \<not> gap_bit q (k + i))"
    and "\<not> b \<Longrightarrow> \<forall>i < 64 - tsn_offset t. \<not> gap_bit q (k + i)"
proof -
  note w = gap_bit_word [of q k, folded t]
  show "tsn_offset t \<le> j \<and> j < 64 \<and> gap_bit q (k + (j - tsn_offset t)) \<and> (\<forall>i < j - tsn_offset t. \<not> gap_bit q (k + i))" if b
  proof -
    from that assms(1) have found: "getFirstNonZeroBit (rq_tsnBitmask q ! tsn_index q t) (tsn_offset t) 64 = (j, True)" by simp
    note f = getFirstNonZeroBit_found [OF found]
    have "gap_bit q (k + (j - tsn_offset t)) = bit (rq_tsnBitmask q ! tsn_index q t) j"
      using w [of "j - tsn_offset t"] f(1,2) by simp
    then show ?thesis using f w by auto
  qed
  show "\<forall>i < 64 - tsn_offset t. \<not> gap_bit q (k + i)" if "\<not> b"
    using getFirstNonZeroBit_none [of "rq_tsnBitmask q ! tsn_index q t" "tsn_offset t" j] assms(1) that w by auto
qed

lemma scan_zero:
  assumes "getFirstZeroBit (rq_tsnBitmask q ! tsn_index q t) (tsn_offset t) 64 = (j, b)"
    and t: "t = rq_cumulativeTSN q + of_nat k"
  shows "b \<Longrightarrow> tsn_offset t \<le> j \<and> j < 64 \<and> \<not> gap_bit q (k + (j - tsn_offset t)) \<and> (\<forall>i < j - tsn_offset t. gap_bit q (k + i))"
    and "\<not> b \<Longrightarrow> \<forall>i < 64 - tsn_offset t. gap_bit q (k + i)"
proof -
  note w = gap_bit_word [of q k, folded t]
  show "tsn_offset t \<le> j \<and> j < 64 \<and> \<not> gap_bit q (k + (j - tsn_offset t)) \<and> (\<forall>i < j - tsn_offset t. gap_bit q (k + i))" if b
  proof -
    from that assms(1) have found: "getFirstZeroBit (rq_tsnBitmask q ! tsn_index q t) (tsn_offset t) 64 = (j, True)" by simp
    note f = getFirstZeroBit_found [OF found]
    have "gap_bit q (k + (j - tsn_offset t)) = bit (rq_tsnBitmask q ! tsn_index q t) j"
      using w [of "j - tsn_offset t"] f(1,2) by simp
    then show ?thesis using f w by auto
  qed
  show "\<forall>i < 64 - tsn_offset t. gap_bit q (k + i)" if "\<not> b"
    using getFirstZeroBit_none [of "rq_tsnBitmask q ! tsn_index q t" "tsn_offset t" j] assms(1) that w by auto
qed

text \<open>The loop invariant at offset \<open>k\<close>, \<open>m\<close> being the offset of the tail.\<close>

definition gap_inv :: "receivePayloadQueue \<Rightarrow> nat \<Rightarrow> nat \<Rightarrow> bool \<Rightarrow> nat \<Rightarrow> gapAckBlock list \<Rightarrow> bool" where
  "gap_inv q m k findEnd s bs \<longleftrightarrow> 1 \<le> k \<and> separated 0 bs \<and> (\<forall>(a, e) \<in> set bs. unat e \<le> m) \<and>
     (if findEnd then
        1 \<le> s \<and> s \<le> k \<and> (k \<le> m \<or> s = k) \<and> gap_bit q s \<and> (\<forall>j. s \<le> j \<and> j < k \<longrightarrow> gap_bit q j) \<and>
        (\<forall>(a, e) \<in> set bs. unat e + 1 < s) \<and> (\<forall>j. 1 \<le> j \<and> j < s \<longrightarrow> covered bs j = gap_bit q j)
      else
        (\<forall>(a, e) \<in> set bs. unat e < k \<and> (unat e + 1 = k \<longrightarrow> \<not> gap_bit q k)) \<and>
        (\<forall>j. 1 \<le> j \<and> j < k \<longrightarrow> covered bs j = gap_bit q j))"

definition gap_result :: "receivePayloadQueue \<Rightarrow> nat \<Rightarrow> gapAckBlock list \<Rightarrow> bool" where
  "gap_result q m bs \<longleftrightarrow> separated 0 bs \<and> (\<forall>(a, e) \<in> set bs. unat e \<le> m) \<and>
     (\<forall>j. 1 \<le> j \<and> j \<le> m \<longrightarrow> covered bs j = gap_bit q j)"

lemma gap_inv_exit: "gap_inv q m k f s bs \<Longrightarrow> m < k \<Longrightarrow> gap_result q m bs"
  by (auto simp: gap_inv_def gap_result_def split: if_splits)

lemma gap_inv_start:
  assumes "gap_inv q m k False s bs" "gap_bit q (k + d)" "\<forall>i < d. \<not> gap_bit q (k + i)"
  shows "gap_inv q m (k + d) True (k + d) bs"
proof -
  have none: "\<not> gap_bit q j" if "k \<le> j" "j < k + d" for j
    using assms(3) that by (metis add_diff_inverse_nat linorder_not_less nat_add_left_cancel_less)
  have "\<not> covered bs j" if "k \<le> j" for j
    using assms(1) that by (fastforce simp: gap_inv_def covered_def)
  then have "covered bs j = gap_bit q j" if "1 \<le> j" "j < k + d" for j
    using none [of j] assms(1) that by (cases "j < k") (auto simp: gap_inv_def)
  moreover have "unat e + 1 < k + d" if "(a, e) \<in> set bs" for a e
    using assms(1,2) that by (cases "d = 0") (fastforce simp: gap_inv_def)+
  ultimately show ?thesis using assms(1,2) by (auto simp: gap_inv_def)
qed

lemma gap_inv_skip:
  assumes "gap_inv q m k False s bs" "\<forall>i < d. \<not> gap_bit q (k + i)" "0 < d"
  shows "gap_inv q m (k + d) False s bs"
proof -
  have none: "\<not> gap_bit q j" if "k \<le> j" "j < k + d" for j
    using assms(2) that by (metis add_diff_inverse_nat linorder_not_less nat_add_left_cancel_less)
  have "\<not> covered bs j" if "k \<le> j" for j
    using assms(1) that by (fastforce simp: gap_inv_def covered_def)
  then have "covered bs j = gap_bit q j" if "1 \<le> j" "j < k + d" for j
    using none [of j] assms(1) that by (cases "j < k") (auto simp: gap_inv_def)
  moreover have "unat e < k + d \<and> (unat e + 1 = k + d \<longrightarrow> \<not> gap_bit q (k + d))" if "(a, e) \<in> set bs" for a e
    using assms(1,3) that by (fastforce simp: gap_inv_def)
  ultimately show ?thesis using assms(1) by (auto simp: gap_inv_def)
qed

lemma gap_inv_through:
  assumes "gap_inv q m k True s bs" "\<forall>i < d. gap_bit q (k + i)" "k + d \<le> m"
  shows "gap_inv q m (k + d) True s bs"
proof -
  have "gap_bit q j" if "k \<le> j" "j < k + d" for j
    using assms(2) that by (metis add_diff_inverse_nat linorder_not_less nat_add_left_cancel_less)
  then have "gap_bit q j" if "s \<le> j" "j < k + d" for j
    using assms(1) that by (cases "j < k") (auto simp: gap_inv_def)
  then show ?thesis using assms(1,3) by (auto simp: gap_inv_def)
qed

text \<open>Closing a block, before the tail or at it.\<close>

lemma gap_inv_close:
  assumes "gap_inv q m k True s bs" "\<forall>i < d. gap_bit q (k + i)" "\<not> gap_bit q (k + d)" "k + d \<le> m" "m < 2 ^ 16"
    and w: "unat a = s" "unat e = k + d - 1"
  shows "gap_inv q m (k + d) False s (bs @ [(a, e)])"
proof -
  note thru = gap_inv_through [OF assms(1,2,4)]
  have s: "1 \<le> s" "s \<le> k" "gap_bit q s" using assms(1) by (auto simp: gap_inv_def)
  have "s \<noteq> k + d" using s assms(3) by auto
  then have le: "s \<le> k + d - 1" "s < k + d" using s by linarith+
  have sep: "separated 0 (bs @ [(a, e)])"
    using assms(1) s le w by (intro separated_snoc) (auto simp: gap_inv_def)
  have "\<not> covered bs j" if "s \<le> j" for j
    using assms(1) that by (fastforce simp: gap_inv_def covered_def)
  then have "covered (bs @ [(a, e)]) j = gap_bit q j" if "1 \<le> j" "j < k + d" for j
    using thru that w le by (cases "j < s") (auto simp: gap_inv_def)
  with sep show ?thesis
    using thru w le assms(3,4) by (fastforce simp: gap_inv_def)
qed

lemma gap_result_close:
  assumes "gap_inv q m k True s bs" "k \<le> m" "\<forall>j. k \<le> j \<and> j \<le> m \<longrightarrow> gap_bit q j"
    and w: "unat a = s" "unat e = m"
  shows "gap_result q m (bs @ [(a, e)])"
proof -
  have s: "1 \<le> s" "s \<le> k" using assms(1) by (auto simp: gap_inv_def)
  have sep: "separated 0 (bs @ [(a, e)])"
    using assms(1,2) s w by (intro separated_snoc) (auto simp: gap_inv_def)
  have "\<not> covered bs j" if "s \<le> j" for j
    using assms(1) that by (fastforce simp: gap_inv_def covered_def)
  moreover have "gap_bit q j" if "s \<le> j" "j \<le> m" for j
    using assms(1,3) that by (cases "j < k") (auto simp: gap_inv_def)
  ultimately have "covered (bs @ [(a, e)]) j = gap_bit q j" if "1 \<le> j" "j \<le> m" for j
    using assms(1) that w by (cases "j < s") (auto simp: gap_inv_def)
  with sep show ?thesis using assms(1) w by (auto simp: gap_result_def gap_inv_def)
qed

text \<open>The rounds of the loop, one equation per branch.\<close>

lemma gapAckLoop_rounds:
  fixes q t st bs
  defines "w \<equiv> rq_tsnBitmask q ! tsn_index q t" and "off \<equiv> tsn_offset t"
  assumes n: "0 < rq_words q" and t: "sna32LTE t (rq_tailTSN q)"
  shows
    "getFirstNonZeroBit w off 64 = (j, True) \<Longrightarrow> gapAckLoop q t False st bs =
       gapAckLoop q (t + of_nat (j - off)) True (ucast (t + of_nat (j - off) - rq_cumulativeTSN q)) bs"
    "getFirstNonZeroBit w off 64 = (j, False) \<Longrightarrow> gapAckLoop q t False st bs =
       gapAckLoop q (t + of_nat (64 - off)) False st bs"
    "getFirstZeroBit w off 64 = (j, True) \<Longrightarrow> gapAckLoop q t True st bs =
       (if sna32LTE (t + of_nat (j - off)) (rq_tailTSN q)
        then gapAckLoop q (t + of_nat (j - off)) False st
               (bs @ [(st, ucast (t + of_nat (j - off) - 1 - rq_cumulativeTSN q))])
        else ok (bs @ [(st, ucast (rq_tailTSN q - rq_cumulativeTSN q))]))"
    "getFirstZeroBit w off 64 = (j, False) \<Longrightarrow> gapAckLoop q t True st bs =
       (if sna32LTE (t + of_nat (64 - off)) (rq_tailTSN q)
        then gapAckLoop q (t + of_nat (64 - off)) True st bs
        else ok (bs @ [(st, ucast (rq_tailTSN q - rq_cumulativeTSN q))]))"
  using t tsn_index_less [OF n, of t] unfolding w_def off_def
  by (subst gapAckLoop.simps, simp add: Let_def sna32.gt_iff_not_lte del: of_nat_diff)+

lemma gap_loop:
  assumes inv: "rq_inv q" and m: "m = tsn_dist q (rq_tailTSN q)" "m < 2 ^ 16"
  shows "gap_inv q m k findEnd s bs \<Longrightarrow> k < m + 65 \<Longrightarrow>
    \<exists>bs'. gapAckLoop q (rq_cumulativeTSN q + of_nat k) findEnd (of_nat s) bs = ok bs' \<and> gap_result q m bs'"
proof (induction "gap_measure q (rq_cumulativeTSN q + of_nat k) findEnd" arbitrary: k findEnd s bs rule: less_induct)
  case less
  let ?c = "rq_cumulativeTSN q" and ?tail = "rq_tailTSN q"
  let ?t = "?c + of_nat k" and ?w = "rq_tsnBitmask q ! tsn_index q (?c + of_nat k)"
  let ?o = "tsn_offset ?t"
  have tail: "?tail = ?c + of_nat m" using tsn_of_dist [of ?tail q] m(1) by simp
  have lte: "sna32LTE (?c + of_nat x) ?tail \<longleftrightarrow> x \<le> m" if "x < 2 ^ 17" for x
  proof -
    have "x < 2 ^ (LENGTH(32) - 1)" "m < 2 ^ (LENGTH(32) - 1)" using that m(2) by simp_all
    then show ?thesis unfolding tail by (rule sna32.lte_window)
  qed
  have n: "0 < rq_words q" by (rule rq_inv_D(1) [OF inv])
  have o: "?o < 64" by (rule tsn_offset_less)
  have u16: "unat (of_nat x :: u16) = x" if "x \<le> m" for x
    using that m(2) by (intro unat_of_nat_small) simp
  have cast: "ucast (?c + of_nat x - ?c) = (of_nat x :: u16)" if "x < 2 ^ 17" for x :: nat
  proof -
    have "take_bit 32 x = x" using that by (simp add: take_bit_nat_eq_self_iff)
    then show ?thesis by (simp add: unsigned_of_nat)
  qed
  show ?case
  proof (cases "k \<le> m")
    case False
    then show ?thesis
      using less.prems gap_inv_exit [OF less.prems(1)] lte [of k] m(2)
      by (subst gapAckLoop.simps) (simp add: Let_def)
  next
    case km: True
    have here: "sna32LTE ?t ?tail" using lte [of k] km m(2) by simp
    have idx: "index_at (rq_tsnBitmask q) (tsn_index q ?t) = ok ?w" using tsn_index_less [OF n, of ?t] by simp
    have next_tsn: "?t + of_nat d = ?c + of_nat (k + d)" for d by (simp add: add.assoc)
    have small: "k + d < 2 ^ 17" "k + d < m + 65" if "d \<le> 64" for d using that km m(2) by simp_all
    note rounds = gapAckLoop_rounds [OF n here]
    note IH = less.hyps
    have sk: "1 \<le> s" "s \<le> k" "s \<le> m" if findEnd using less.prems(1) that km by (auto simp: gap_inv_def)
    have closing: "gap_result q m (bs @ [(of_nat s, ucast (?tail - ?c))])"
      if findEnd "\<forall>i < d. gap_bit q (k + i)" "m < k + d" for d
    proof -
      have "gap_bit q j" if "k \<le> j" "j \<le> m" for j
        using \<open>\<forall>i < d. gap_bit q (k + i)\<close> [rule_format, of "j - k"] \<open>m < k + d\<close> that by simp
      then show ?thesis using less.prems(1) that(1) km sk m(2) cast [of m] unfolding tail
        by (intro gap_result_close) (auto simp: u16)
    qed
    obtain j b where z: "(if findEnd then getFirstZeroBit ?w ?o 64 else getFirstNonZeroBit ?w ?o 64) = (j, b)"
      by fastforce
    define d where "d = (if b then j - ?o else 64 - ?o)"
    show ?thesis
    proof (cases findEnd; cases b)
      assume fe: "\<not> findEnd" and b: b
      with z have found: "getFirstNonZeroBit ?w ?o 64 = (j, True)" by simp
      have d: "d = j - ?o" using b by (simp add: d_def)
      have bits: "?o \<le> j \<and> j < 64 \<and> gap_bit q (k + d) \<and> (\<forall>i < d. \<not> gap_bit q (k + i))"
        unfolding d by (rule scan_nonzero(1) [OF found refl]) simp
      then have d64: "d \<le> 64" unfolding d by linarith
      have "gap_measure q (?c + of_nat (k + d)) True < gap_measure q ?t findEnd"
        using gap_measure_found_start [OF here idx found] fe unfolding d [symmetric] next_tsn by simp
      moreover have "gap_inv q m (k + d) True (k + d) bs"
        using gap_inv_start [of q m k s bs d] less.prems fe bits by simp
      ultimately show ?thesis
        using IH small(2) [OF d64] fe rounds(1) [OF found, folded d, unfolded next_tsn cast [OF small(1) [OF d64]]]
        by (simp del: of_nat_add)
    next
      assume fe: "\<not> findEnd" and b: "\<not> b"
      with z have found: "getFirstNonZeroBit ?w ?o 64 = (j, False)" by simp
      have d: "d = 64 - ?o" using b by (simp add: d_def)
      have d64: "d \<le> 64" "0 < d" using o by (simp_all add: d)
      have bits: "\<forall>i < d. \<not> gap_bit q (k + i)" unfolding d by (rule scan_nonzero(2) [OF found refl]) simp
      have "gap_measure q (?c + of_nat (k + d)) False < gap_measure q ?t findEnd"
        using gap_measure_advance [OF here d64(2,1)] unfolding next_tsn .
      moreover have "gap_inv q m (k + d) False s bs"
        using gap_inv_skip [of q m k s bs d] less.prems fe bits d64 by simp
      ultimately show ?thesis
        using IH small(2) [OF d64(1)] fe rounds(2) [OF found, folded d, unfolded next_tsn] by (simp del: of_nat_add)
    next
      assume fe: findEnd and b: b
      with z have found: "getFirstZeroBit ?w ?o 64 = (j, True)" by simp
      have d: "d = j - ?o" using b by (simp add: d_def)
      have bits: "?o \<le> j \<and> j < 64 \<and> \<not> gap_bit q (k + d) \<and> (\<forall>i < d. gap_bit q (k + i))"
        unfolding d by (rule scan_zero(1) [OF found refl]) simp
      then have d64: "d \<le> 64" unfolding d by linarith
      have dec: "gap_measure q (?c + of_nat (k + d)) False < gap_measure q ?t findEnd"
        using gap_measure_found_end [OF here idx found] fe unfolding d [symmetric] next_tsn by simp
      note eq = rounds(3) [OF found, folded d, unfolded next_tsn lte [OF small(1) [OF d64]]]
      show ?thesis
      proof (cases "k + d \<le> m")
        case True
        have prev: "?c + of_nat (k + d) - 1 = ?c + of_nat (k + d - 1)" using sk(1,2) [OF fe] by (simp add: of_nat_diff)
        have "gap_inv q m (k + d) False s (bs @ [(of_nat s, of_nat (k + d - 1))])"
          using less.prems(1) fe bits True m(2) sk [OF fe] by (intro gap_inv_close) (simp_all add: u16 del: of_nat_add of_nat_diff)
        from IH [OF dec this] True small(2) [OF d64] show ?thesis
          using eq fe cast [of "k + d - 1"] small(1) [OF d64] unfolding prev by (simp del: of_nat_add)
      next
        case False
        with bits have "\<forall>i < d. gap_bit q (k + i)" "m < k + d" by simp_all
        from closing [OF _ this] fe False show ?thesis using eq by simp
      qed
    next
      assume fe: findEnd and b: "\<not> b"
      with z have found: "getFirstZeroBit ?w ?o 64 = (j, False)" by simp
      have d: "d = 64 - ?o" using b by (simp add: d_def)
      have d64: "d \<le> 64" "0 < d" using o by (simp_all add: d)
      have bits: "\<forall>i < d. gap_bit q (k + i)" unfolding d by (rule scan_zero(2) [OF found refl]) simp
      have dec: "gap_measure q (?c + of_nat (k + d)) True < gap_measure q ?t findEnd"
        using gap_measure_advance [OF here d64(2,1)] unfolding next_tsn .
      note eq = rounds(4) [OF found, folded d, unfolded next_tsn lte [OF small(1) [OF d64(1)]]]
      show ?thesis
      proof (cases "k + d \<le> m")
        case True
        from IH [OF dec] gap_inv_through [OF _ bits True, of s bs] less.prems(1) fe small(2) [OF d64(1)] True
        show ?thesis using eq by (simp del: of_nat_add)
      next
        case False
        with closing [OF _ bits] fe show ?thesis using eq by simp
      qed
    qed
  qed
qed

lemma gap_bit_dist: "gap_bit q (tsn_dist q t) = tsn_bit q t"
  by (simp add: gap_bit_def tsn_dist_def)

lemma covered_Cons [simp]: "covered ((s, e) # bs) j \<longleftrightarrow> (unat s \<le> j \<and> j \<le> unat e) \<or> covered bs j"
  by (auto simp: covered_def)

lemma covered_Nil [simp]: "\<not> covered [] j"
  by (simp add: covered_def)

lemma separated_ge: "separated lo bs \<Longrightarrow> covered bs j \<Longrightarrow> lo < j"
  by (induction lo bs rule: separated.induct) auto

lemma covered_tsns:
  assumes inv: "rq_inv q" and r: "gap_result q m bs" and m: "m = tsn_dist q (rq_tailTSN q)"
  shows "covered bs (tsn_dist q t) \<longleftrightarrow> t \<in> rq_tsns q"
proof -
  have le: "m \<le> 64 * rq_words q"
    using rq_inv_D(6,7) [OF inv] m rq_tsns_D [of "rq_tailTSN q" q] by (cases "rq_tsns q = {}") (auto simp: tsn_dist_def)
  have "1 \<le> tsn_dist q t \<and> tsn_dist q t \<le> m" if "covered bs (tsn_dist q t)"
    using that separated_ge [of 0 bs "tsn_dist q t"] r by (fastforce simp: gap_result_def covered_def)
  moreover have "1 \<le> tsn_dist q t \<and> tsn_dist q t \<le> m" if "t \<in> rq_tsns q"
    using rq_tsns_D [OF that] rq_inv_D(8) [OF inv that] m by simp
  moreover have "covered bs (tsn_dist q t) = tsn_bit q t" if "1 \<le> tsn_dist q t" "tsn_dist q t \<le> m"
    using that r gap_bit_dist [of q t] by (simp add: gap_result_def)
  ultimately show ?thesis using le by (fastforce simp: rq_tsns_def)
qed

lemma rq_init_inv:
  assumes "0 < unat n" "unat n + 63 < 2 ^ 31" "window_ok (rq_words (newReceivePayloadQueue n)) c"
  shows "rq_inv (receivePayloadQueue_init (newReceivePayloadQueue n) c)"
    "rq_tsns (receivePayloadQueue_init (newReceivePayloadQueue n) c) = {}"
proof -
  let ?k = "(unat n + 63) div 64"
  have "unat (n + 63) = unat n + 63" using assms(2) by (simp add: unat_word_ariths)
  then have k: "unat ((n + 63) div 64) = ?k" by (simp add: unat_div)
  have kb: "0 < ?k" "64 * ?k < 2 ^ 31" using assms(1,2) by simp_all
  have mul: "unat ((n + 63) div 64 * 64) = 64 * ?k"
    using kb by (simp add: unat_word_ariths k mult.commute)
  then have len: "rq_words (newReceivePayloadQueue n) = ?k"
    by (simp add: newReceivePayloadQueue_def Let_def unat_div)
  let ?q = "receivePayloadQueue_init (newReceivePayloadQueue n) c"
  have bit: "\<not> tsn_bit ?q t" for t
    using kb len tsn_index_less [of ?q t]
    by (simp add: tsn_bit_def receivePayloadQueue_init_def)
  then show none: "rq_tsns ?q = {}" by (simp add: rq_tsns_def)
  show "rq_inv ?q"
    using kb len mul assms(3) none
    by (intro rq_invI) (simp_all add: receivePayloadQueue_init_def newReceivePayloadQueue_def Let_def)
qed

section \<open>The queue as a set of TSNs\<close>

text \<open>
  The contract: a cumulative TSN, the set of TSNs received beyond it, and the duplicates to report.
\<close>

type_synonym rq_spec = "u32 \<times> u32 set \<times> u32 list"

datatype rq_op = RqPush u32 | RqPop bool

fun spec_op :: "nat \<Rightarrow> rq_spec \<Rightarrow> rq_op \<Rightarrow> bool \<times> rq_spec" where
  "spec_op n (c, S, D) (RqPush t) =
     (let d = unat (t - c)
      in if 0 < d \<and> d \<le> n \<and> t \<notin> S then (True, c, insert t S, D)
         else if n < d \<and> d \<le> n + 2 ^ 31 then (False, c, S, D)
         else (False, c, S, D @ [t]))"
| "spec_op n (c, S, D) (RqPop force) =
     (if c + 1 \<in> S then (True, c + 1, S - {c + 1}, D)
      else (False, if force then c + 1 else c, S, D))"

fun spec_run :: "nat \<Rightarrow> rq_spec \<Rightarrow> rq_op list \<Rightarrow> bool list \<times> rq_spec" where
  "spec_run n s [] = ([], s)"
| "spec_run n s (x # xs) =
     (case spec_op n s x of (r, s) \<Rightarrow> case spec_run n s xs of (rs, s) \<Rightarrow> (r # rs, s))"

fun rq_apply :: "receivePayloadQueue \<Rightarrow> rq_op \<Rightarrow> (sctp_err, bool \<times> receivePayloadQueue) res" where
  "rq_apply q (RqPush t) = receivePayloadQueue_push q t"
| "rq_apply q (RqPop force) = receivePayloadQueue_pop q force"

fun rq_run :: "receivePayloadQueue \<Rightarrow> rq_op list \<Rightarrow> (sctp_err, bool list \<times> receivePayloadQueue) res" where
  "rq_run q [] = ok ([], q)"
| "rq_run q (x # xs) =
     bind_res (rq_apply q x) (\<lambda>(r, q). bind_res (rq_run q xs) (\<lambda>(rs, q). ok (r # rs, q)))"

definition rq_abs :: "receivePayloadQueue \<Rightarrow> rq_spec" where
  "rq_abs q = (rq_cumulativeTSN q, rq_tsns q, rq_dupTSN q)"

lemma rq_apply_refines:
  assumes inv: "rq_inv q" and w: "window_ok (rq_words q) (rq_cumulativeTSN q + 1)"
  obtains r q' where "rq_apply q x = ok (r, q')" "rq_inv q'" "rq_words q' = rq_words q"
    "spec_op (64 * rq_words q) (rq_abs q) x = (r, rq_abs q')"
    "rq_cumulativeTSN q' = rq_cumulativeTSN q \<or> rq_cumulativeTSN q' = rq_cumulativeTSN q + 1"
proof (cases x)
  case (RqPush t)
  have d: "unat (t - rq_cumulativeTSN q) = tsn_dist q t" by (simp add: tsn_dist_def)
  consider (new) "0 < tsn_dist q t" "tsn_dist q t \<le> 64 * rq_words q" "t \<notin> rq_tsns q"
    | (dup) "tsn_dist q t = 0 \<or> 64 * rq_words q + 2 ^ 31 < tsn_dist q t \<or> t \<in> rq_tsns q"
    | (far) "64 * rq_words q < tsn_dist q t" "tsn_dist q t \<le> 64 * rq_words q + 2 ^ 31"
    by linarith
  then show ?thesis
  proof cases
    case new
    from push_new [OF inv this] obtain q' where q': "receivePayloadQueue_push q t = ok (True, q')" "rq_inv q'"
      "rq_tsns q' = insert t (rq_tsns q)" "rq_cumulativeTSN q' = rq_cumulativeTSN q" "rq_words q' = rq_words q"
      "rq_dupTSN q' = rq_dupTSN q" .
    then show ?thesis using RqPush new d by (intro that [of True q']) (simp_all add: rq_abs_def)
  next
    case dup
    let ?q = "q\<lparr>rq_dupTSN := rq_dupTSN q @ [t]\<rparr>"
    have "rq_tsns ?q = rq_tsns q" by (rule rq_tsns_cong) simp_all
    moreover have "rq_inv ?q" by (rule rq_invI) (use rq_inv_D [OF inv] calculation in \<open>simp_all add: tsn_dist_def\<close>)
    moreover have "\<not> (64 * rq_words q < tsn_dist q t \<and> tsn_dist q t \<le> 64 * rq_words q + 2 ^ 31)"
      using dup rq_tsns_D [of t q] by auto
    moreover have "\<not> (0 < tsn_dist q t \<and> tsn_dist q t \<le> 64 * rq_words q \<and> t \<notin> rq_tsns q)"
      using dup by linarith
    ultimately show ?thesis using RqPush d push_dup [OF inv dup]
      by (intro that [of False ?q]) (simp_all add: rq_abs_def Let_def)
  next
    case far
    then show ?thesis using RqPush d push_far [OF inv far] inv
      by (intro that [of False q]) (simp_all add: rq_abs_def Let_def)
  qed
next
  case (RqPop force)
  show ?thesis
  proof (cases "rq_cumulativeTSN q + 1 \<in> rq_tsns q")
    case True
    from pop_found [OF inv w this, of force] obtain q' where "receivePayloadQueue_pop q force = ok (True, q')" "rq_inv q'"
      "rq_tsns q' = rq_tsns q - {rq_cumulativeTSN q + 1}" "rq_cumulativeTSN q' = rq_cumulativeTSN q + 1"
      "rq_words q' = rq_words q" "rq_dupTSN q' = rq_dupTSN q" .
    then show ?thesis using RqPop True by (intro that [of True q']) (simp_all add: rq_abs_def)
  next
    case False
    show ?thesis
    proof (cases force)
      case True
      from pop_forced [OF inv w False] obtain q' where "receivePayloadQueue_pop q True = ok (False, q')" "rq_inv q'"
        "rq_tsns q' = rq_tsns q" "rq_cumulativeTSN q' = rq_cumulativeTSN q + 1" "rq_words q' = rq_words q"
        "rq_dupTSN q' = rq_dupTSN q" .
      then show ?thesis using RqPop False True by (intro that [of False q']) (simp_all add: rq_abs_def)
    next
      case nf: False
      then show ?thesis using RqPop False pop_missing [OF inv False] inv
        by (intro that [of False q]) (simp_all add: rq_abs_def)
    qed
  qed
qed

lemma rq_run_refines:
  assumes "rq_inv q" "\<And>i. i \<le> length xs \<Longrightarrow> window_ok (rq_words q) (rq_cumulativeTSN q + of_nat i)"
  shows "\<exists>rs q'. rq_run q xs = ok (rs, q') \<and> rq_inv q' \<and>
    spec_run (64 * rq_words q) (rq_abs q) xs = (rs, rq_abs q')"
  using assms
proof (induction xs arbitrary: q)
  case (Cons x xs)
  have "window_ok (rq_words q) (rq_cumulativeTSN q + 1)" using Cons.prems(2) [of 1] by simp
  from rq_apply_refines [OF Cons.prems(1) this, of x] obtain r q' where q': "rq_apply q x = ok (r, q')" "rq_inv q'"
    "rq_words q' = rq_words q" "spec_op (64 * rq_words q) (rq_abs q) x = (r, rq_abs q')"
    "rq_cumulativeTSN q' = rq_cumulativeTSN q \<or> rq_cumulativeTSN q' = rq_cumulativeTSN q + 1" .
  have "window_ok (rq_words q') (rq_cumulativeTSN q' + of_nat i)" if "i \<le> length xs" for i
    using q'(3,5) Cons.prems(2) [of i] Cons.prems(2) [of "Suc i"] that by (auto simp: add.assoc)
  from Cons.IH [OF q'(2) this] q' show ?case by fastforce
qed simp


lemma rq_run_words: "rq_run q xs = ok (rs, q') \<Longrightarrow> rq_words q' = rq_words q"
proof (induction xs arbitrary: q rs)
  case (Cons x xs)
  then obtain r q1 rs' where "rq_apply q x = ok (r, q1)" "rq_run q1 xs = ok (rs', q')"
    by (auto simp: bind_res_def split: sum.splits prod.splits)
  moreover from this(1) have "rq_words q1 = rq_words q"
    by (cases x) (auto simp: receivePayloadQueue_push_def receivePayloadQueue_pop_def Let_def bind_res_def
      split: sum.splits if_splits)
  ultimately show ?case using Cons.IH by simp
qed simp

lemma init_64:
  "rq_inv (receivePayloadQueue_init (newReceivePayloadQueue 64) 5)"
  "rq_words (receivePayloadQueue_init (newReceivePayloadQueue 64) 5) = 1"
  "rq_abs (receivePayloadQueue_init (newReceivePayloadQueue 64) 5) = (5, {}, [])"
proof -
  have len: "rq_words (newReceivePayloadQueue 64) = 1" by (simp add: newReceivePayloadQueue_def Let_def)
  have "window_ok (rq_words (newReceivePayloadQueue 64)) 5" unfolding len by (simp add: window_ok_def)
  note init = rq_init_inv [OF _ _ this]
  show "rq_inv (receivePayloadQueue_init (newReceivePayloadQueue 64) 5)" by (rule init(1)) simp_all
  show "rq_words (receivePayloadQueue_init (newReceivePayloadQueue 64) 5) = 1"
    using len by (simp add: receivePayloadQueue_init_def)
  show "rq_abs (receivePayloadQueue_init (newReceivePayloadQueue 64) 5) = (5, {}, [])"
    using init(2) by (simp add: rq_abs_def receivePayloadQueue_init_def)
qed





end
