(* ===== verification/Sctp_Reassembly_Laws.thy ===== *)
theory Sctp_Reassembly_Laws
  imports Sctp_Reassembly
begin

text \<open>
  The laws of the reassembly queue: sorting, byte accounting, and the delivery of the messages of a
  stream in order whatever the order of arrival of their fragments.
\<close>

section \<open>Sorting\<close>

lemma shift_left_set [simp]: "set (shift_left lt x ys) = insert x (set ys)"
  by (induction ys) auto

lemma shift_left_mset [simp]: "mset (shift_left lt x ys) = add_mset x (mset ys)"
  by (induction ys) auto

lemma sortSlice_snoc: "sortSlice lt (xs @ [x]) = rev (shift_left lt x (rev (sortSlice lt xs)))"
  by (simp add: sortSlice_def)

lemma sortSlice_Nil [simp]: "sortSlice lt [] = []"
  by (simp add: sortSlice_def)

lemma sortSlice_mset [simp]: "mset (sortSlice lt xs) = mset xs"
  by (induction xs rule: rev_induct) (simp_all add: sortSlice_snoc)

lemma sortSlice_set [simp]: "set (sortSlice lt xs) = set xs"
  by (metis set_mset_mset sortSlice_mset)

lemma shift_left_filter:
  assumes "\<And>y. y \<in> set ys \<Longrightarrow> lt x y \<longleftrightarrow> f x < (f y :: 'b :: linorder)"
    and "sorted (rev (map f ys))"
  shows "sorted (rev (map f (shift_left lt x ys)))"
    and "filter (\<lambda>y. f y = k) (shift_left lt x ys) = (if f x = k then [x] else []) @ filter (\<lambda>y. f y = k) ys"
  using assms by (induction ys) (auto simp: sorted_append)

lemma sortSlice_key:
  assumes "\<And>x y. x \<in> set xs \<Longrightarrow> y \<in> set xs \<Longrightarrow> lt x y \<longleftrightarrow> f x < (f y :: 'b :: linorder)"
  shows "sortSlice lt xs = sort_key f xs"
proof -
  have "sorted (map f (sortSlice lt xs)) \<and> filter (\<lambda>y. f y = k) (sortSlice lt xs) = filter (\<lambda>y. f y = k) xs" for k
    using assms
  proof (induction xs rule: rev_induct)
    case (snoc x xs)
    then have IH: "sorted (map f (sortSlice lt xs))"
      "filter (\<lambda>y. f y = k) (sortSlice lt xs) = filter (\<lambda>y. f y = k) xs" by simp_all
    have "\<And>y. y \<in> set (rev (sortSlice lt xs)) \<Longrightarrow> lt x y \<longleftrightarrow> f x < f y" using snoc.prems by simp
    note sl = shift_left_filter [of "rev (sortSlice lt xs)" lt x f, OF this]
    from sl(1) sl(2) [of k] IH show ?case by (auto simp: sortSlice_snoc rev_map rev_filter [symmetric])
  qed simp
  then show ?thesis by (intro properties_for_sort_key [symmetric]) (simp_all add: eq_commute)
qed

lemma filter_single: "distinct zs \<Longrightarrow> k \<in> set zs \<Longrightarrow> filter (\<lambda>x. k = x) zs = [k]"
  by (induction zs) (auto simp: filter_empty_conv)

text \<open>With distinct keys every sorted permutation is the result of the sort.\<close>

lemma sort_key_unique:
  assumes "mset ys = mset xs" "sorted_wrt (<) (map f ys)"
  shows "sort_key f xs = (ys :: 'a list)"
proof (rule properties_for_sort_key)
  show "sorted (map f ys)" using assms(2) by (simp add: strict_sorted_iff)
  have inj: "inj_on f (set ys)" "distinct ys" using assms(2) by (auto simp: strict_sorted_iff distinct_map)
  then have dx: "distinct xs" using assms(1) mset_eq_imp_distinct_iff by blast
  show "filter (\<lambda>x. f k = f x) ys = filter (\<lambda>x. f k = f x) xs" if "k \<in> set ys" for k
  proof -
    have "filter (\<lambda>x. f k = f x) zs = [k]" if "distinct zs" "set zs = set ys" for zs
    proof -
      have "filter (\<lambda>x. f k = f x) zs = filter (\<lambda>x. k = x) zs"
        using inj that \<open>k \<in> set ys\<close> by (intro filter_cong) (auto dest: inj_onD)
      then show ?thesis using that \<open>k \<in> set ys\<close> by (simp add: filter_single)
    qed
    then show ?thesis using inj(2) dx mset_eq_setD [OF assms(1)] by simp
  qed
qed (use assms in simp)

section \<open>Complete messages\<close>

lemma sequential_snoc:
  "xs \<noteq> [] \<Longrightarrow> sequential i l (xs @ [x]) \<longleftrightarrow> sequential i l xs \<and> pd_tsn x = pd_tsn (last xs) + 1"
proof (induction xs arbitrary: i l)
  case (Cons c cs)
  then show ?case by (cases "cs = []") simp_all
qed simp

definition complete_chunks :: "chunkPayloadData list \<Rightarrow> bool" where
  "complete_chunks cs \<longleftrightarrow> cs \<noteq> [] \<and> pd_beginningFragment (hd cs) \<and> pd_endingFragment (last cs) \<and> sequential 0 0 cs"

lemma isComplete_iff: "isComplete cset \<longleftrightarrow> complete_chunks (cs_chunks cset)"
  by (auto simp: isComplete_def complete_chunks_def Let_def hd_conv_nth last_conv_nth)

text \<open>The part of the chunk list that the scan has collected.\<close>

definition collected :: "chunkPayloadData list \<Rightarrow> int \<Rightarrow> nat \<Rightarrow> u32 \<Rightarrow> bool" where
  "collected pre startIdx n lastTSN \<longleftrightarrow> startIdx < 0 \<or>
     (\<exists>a b. pre = a @ b \<and> startIdx = int (length a) \<and> n = length b \<and> b \<noteq> [] \<and> pd_beginningFragment (hd b) \<and>
       sequential 0 0 b \<and> lastTSN = pd_tsn (last b))"

lemma scan_unordered_sound:
  assumes "scan_unordered (length pre) startIdx n lastTSN cs = Some (s, k)" "collected pre startIdx n lastTSN"
  shows "\<exists>a b c. pre @ cs = a @ b @ c \<and> s = int (length a) \<and> k = length b \<and> complete_chunks b"
  using assms
proof (induction cs arbitrary: pre startIdx n lastTSN)
  case (Cons c cs)
  note IH = Cons.IH [of "pre @ [c]", simplified]
  show ?case
  proof (cases "pd_beginningFragment c")
    case True
    show ?thesis
    proof (cases "pd_endingFragment c")
      case ending: True
      with True Cons.prems(1) have "s = int (length pre)" "k = 1" by simp_all
      then show ?thesis using True ending
        by (intro exI [of _ pre] exI [of _ "[c]"] exI [of _ cs]) (simp add: complete_chunks_def)
    next
      case False
      have "collected (pre @ [c]) (int (length pre)) 1 (pd_tsn c)"
        unfolding collected_def using True by (intro disjI2 exI [of _ pre] exI [of _ "[c]"]) simp
      from IH [OF _ this] Cons.prems(1) True False show ?thesis by simp
    qed
  next
    case nb: False
    show ?thesis
    proof (cases "startIdx < 0 \<or> pd_tsn c \<noteq> lastTSN + 1")
      case True
      have "collected (pre @ [c]) s' n lastTSN" if "s' < 0" for s' using that by (simp add: collected_def)
      with IH Cons.prems(1) nb True show ?thesis by (simp split: if_splits)
    next
      case False
      with Cons.prems(2) obtain a b where ab: "pre = a @ b" "startIdx = int (length a)" "n = length b" "b \<noteq> []"
        "pd_beginningFragment (hd b)" "sequential 0 0 b" "lastTSN = pd_tsn (last b)" by (auto simp: collected_def)
      have sq: "sequential 0 0 (b @ [c])" using ab False by (simp add: sequential_snoc)
      show ?thesis
      proof (cases "pd_endingFragment c")
        case True
        with False nb Cons.prems(1) have "s = startIdx" "k = n + 1" by simp_all
        then show ?thesis using ab sq True
          by (intro exI [of _ a] exI [of _ "b @ [c]"] exI [of _ cs]) (simp add: complete_chunks_def)
      next
        case ne: False
        have "collected (pre @ [c]) startIdx (n + 1) (pd_tsn c)"
          unfolding collected_def using ab sq by (intro disjI2 exI [of _ a] exI [of _ "b @ [c]"]) simp
        from IH [OF _ this] Cons.prems(1) False nb ne show ?thesis by simp
      qed
    qed
  qed
qed simp

lemma findComplete_cases:
  obtains (none) "findCompleteUnorderedChunkSet r = ok (None, r)"
  | (some) a b c where "ra_unorderedChunks r = a @ b @ c" "complete_chunks b"
      "findCompleteUnorderedChunkSet r =
         ok (Some \<lparr>cs_ssn = 0, cs_ppi = pd_payloadType (hd b), cs_chunks = b\<rparr>, r\<lparr>ra_unorderedChunks := a @ c\<rparr>)"
proof (cases "scan_unordered 0 (-1) 0 0 (ra_unorderedChunks r)")
  case None
  then show ?thesis by (intro none) (simp add: findCompleteUnorderedChunkSet_def)
next
  case (Some p)
  obtain s k where p: "p = (s, k)" by fastforce
  have "collected [] (-1) 0 0" by (simp add: collected_def)
  from scan_unordered_sound [of "[]" "-1" 0 0 "ra_unorderedChunks r" s k] this Some p obtain a b c where
    abc: "ra_unorderedChunks r = a @ b @ c" "s = int (length a)" "k = length b" "complete_chunks b" by auto
  moreover from this(4) have "b \<noteq> []" by (simp add: complete_chunks_def)
  ultimately show ?thesis using Some p
    by (intro some [of a b c]) (simp_all add: findCompleteUnorderedChunkSet_def newChunkSet_def hd_conv_nth)
qed

section \<open>Byte accounting\<close>

definition chunk_bytes :: "chunkPayloadData list \<Rightarrow> nat" where
  "chunk_bytes cs = sum_list (map (\<lambda>c. length (pd_userData c)) cs)"

lemma chunk_bytes_simps [simp]:
  "chunk_bytes [] = 0" "chunk_bytes (c # cs) = length (pd_userData c) + chunk_bytes cs"
  "chunk_bytes (cs @ ds) = chunk_bytes cs + chunk_bytes ds"
  by (simp_all add: chunk_bytes_def)

lemma chunk_bytes_sum_mset: "chunk_bytes cs = (\<Sum>c\<in>#mset cs. length (pd_userData c))"
  by (induction cs) simp_all

lemma chunk_bytes_mset: "mset cs = mset ds \<Longrightarrow> chunk_bytes cs = chunk_bytes ds"
  by (simp only: chunk_bytes_sum_mset)

lemma length_user_data: "length (concat (map pd_userData cs)) = chunk_bytes cs"
  by (induction cs) simp_all

lemma copy_at_data [simp]:
  "off + length src \<le> length dst \<Longrightarrow> copy_at dst off src = take off dst @ src @ drop (off + length src) dst"
  by (simp add: copy_at_def Let_def)

lemma copy_chunks_fit:
  "n + chunk_bytes cs \<le> length buf \<Longrightarrow> copy_chunks buf n short cs =
     (take n buf @ concat (map pd_userData cs) @ drop (n + chunk_bytes cs) buf, n + chunk_bytes cs, short)"
proof (induction cs arbitrary: buf n)
  case (Cons c cs)
  let ?m = "n + length (pd_userData c)"
  have fit: "?m \<le> length buf" using Cons.prems by simp
  let ?buf = "take n buf @ pd_userData c @ drop ?m buf"
  have "?m + chunk_bytes cs \<le> length ?buf" using Cons.prems by simp
  moreover have "min (length buf) n = n" using fit by simp
  ultimately show ?case using Cons.IH [of ?m ?buf] fit by (simp add: not_less ac_simps)
qed simp

lemma copy_chunks_short:
  "n \<le> length buf \<or> short \<Longrightarrow> length buf < n + chunk_bytes cs \<or> short \<Longrightarrow>
   \<exists>buf'. copy_chunks buf n short cs = (buf', n + chunk_bytes cs, True)"
proof (induction cs arbitrary: buf n short)
  case (Cons c cs)
  let ?m = "n + length (pd_userData c)"
  show ?case
  proof (cases "int (length buf) - int n < int (length (pd_userData c))")
    case True
    then show ?thesis using Cons.IH [of ?m buf True] by (simp add: add.assoc)
  next
    case False
    let ?buf = "take n buf @ pd_userData c @ drop ?m buf"
    have m: "?m \<le> length buf" using False by linarith
    then have "length ?buf = length buf" by simp
    from Cons.IH [of ?m ?buf short, unfolded this] Cons.prems m False show ?thesis by (simp add: add.assoc)
  qed
qed auto

definition ra_chunks :: "reassemblyQueue \<Rightarrow> chunkPayloadData list" where
  "ra_chunks r = concat (map cs_chunks (ra_ordered r)) @ concat (map cs_chunks (ra_unordered r)) @ ra_unorderedChunks r"

definition ra_inv :: "reassemblyQueue \<Rightarrow> bool" where
  "ra_inv r \<longleftrightarrow> unat (ra_nBytes r) = chunk_bytes (ra_chunks r) \<and> chunk_bytes (ra_chunks r) < 2 ^ 63 \<and>
     (\<forall>cset \<in> set (ra_ordered r). cs_chunks cset \<noteq> []) \<and> (\<forall>cset \<in> set (ra_unordered r). isComplete cset)"

lemma sint_small: "unat (w :: u64) < 2 ^ 63 \<Longrightarrow> sint w = int (unat w)"
proof -
  assume w: "unat w < 2 ^ 63"
  have u: "int (unat w) = uint w" by (rule uint_nat [symmetric])
  have "int (unat w) < int (2 ^ 63)" using w unfolding of_nat_less_iff .
  then have "uint w < 2 ^ 63" unfolding u of_nat_power of_nat_numeral .
  then have "signed_take_bit 63 (uint w) = uint w"
    by (intro signed_take_bit_int_eq_self) (rule order_trans [of _ 0], simp, rule uint_ge_0)
  then show ?thesis unfolding u sint_uint by simp
qed

lemma subtract_exact:
  assumes "unat (ra_nBytes r) = b" "b < 2 ^ 63" "n \<le> b"
  shows "subtractNumBytes r n = r\<lparr>ra_nBytes := of_nat (b - n)\<rparr>"
proof -
  have "ra_nBytes r = of_nat b" unfolding assms(1) [symmetric] by simp
  moreover have "sint (ra_nBytes r) = int b" using assms(1,2) by (simp only: sint_small)
  ultimately show ?thesis using assms(3) by (simp add: subtractNumBytes_def of_nat_diff)
qed

lemma subtract_chunks_exact:
  assumes "unat (ra_nBytes r) = b" "b < 2 ^ 63" "chunk_bytes cs \<le> b"
  shows "foldl (\<lambda>r c. subtractNumBytes r (length (pd_userData c))) r cs = r\<lparr>ra_nBytes := of_nat (b - chunk_bytes cs)\<rparr>"
  using assms
proof (induction cs arbitrary: r b)
  case Nil
  have "ra_nBytes r = of_nat b" unfolding Nil(1) [symmetric] by simp
  then show ?case by simp
next
  case (Cons c cs)
  let ?b = "b - length (pd_userData c)"
  have b: "?b < 2 ^ 63" using Cons.prems(2) by (rule le_less_trans [OF diff_le_self])
  then have "?b < 2 ^ LENGTH(64)" by simp
  then have u: "unat (of_nat ?b :: u64) = ?b" by (rule unat_of_nat_small)
  have le: "length (pd_userData c) \<le> b" "chunk_bytes cs \<le> ?b" using Cons.prems(3) by simp_all
  have "foldl (\<lambda>r c. subtractNumBytes r (length (pd_userData c))) (r\<lparr>ra_nBytes := of_nat ?b\<rparr>) cs =
      r\<lparr>ra_nBytes := of_nat (?b - chunk_bytes cs)\<rparr>"
    using Cons.IH [of "r\<lparr>ra_nBytes := of_nat ?b\<rparr>" ?b] u b le(2) by (simp del: of_nat_diff)
  then show ?case by (simp only: foldl.simps subtract_exact [OF Cons.prems(1,2) le(1)] chunk_bytes_simps diff_diff_left)
qed

lemma ra_inv_D:
  assumes "ra_inv r"
  shows "unat (ra_nBytes r) = chunk_bytes (ra_chunks r)" "chunk_bytes (ra_chunks r) < 2 ^ 63"
    "\<And>cset. cset \<in> set (ra_ordered r) \<Longrightarrow> cs_chunks cset \<noteq> []"
    "\<And>cset. cset \<in> set (ra_unordered r) \<Longrightarrow> isComplete cset"
  using assms unfolding ra_inv_def by blast+

text \<open>A step that adds one chunk and its bytes.\<close>

lemma ra_inv_add:
  assumes "ra_inv r" "chunk_bytes (ra_chunks r) + length (pd_userData c) < 2 ^ 63"
    and r': "mset (ra_chunks r') = mset (ra_chunks r) + {#c#}"
      "ra_nBytes r' = ra_nBytes r + of_nat (length (pd_userData c))"
      "\<And>cset. cset \<in> set (ra_ordered r') \<Longrightarrow> cs_chunks cset \<noteq> []"
      "\<And>cset. cset \<in> set (ra_unordered r') \<Longrightarrow> isComplete cset"
  shows "ra_inv r'"
proof -
  let ?b = "chunk_bytes (ra_chunks r)" and ?n = "length (pd_userData c)"
  have b: "chunk_bytes (ra_chunks r') = ?b + ?n"
    using r'(1) by (simp add: chunk_bytes_sum_mset)
  have "ra_nBytes r = of_nat ?b" unfolding ra_inv_D(1) [OF assms(1), symmetric] by simp
  then have "ra_nBytes r' = of_nat (?b + ?n)" using r'(2) by simp
  moreover have "?b + ?n < 2 ^ LENGTH(64)" using assms(2) by simp
  then have "unat (of_nat (?b + ?n) :: u64) = ?b + ?n" by (rule unat_of_nat_small)
  ultimately show ?thesis unfolding ra_inv_def b using assms(2) r'(3,4) by simp
qed

text \<open>A step that removes some chunks and their bytes.\<close>

lemma ra_inv_remove:
  assumes "ra_inv r" and r': "mset (ra_chunks r) = mset cs + mset (ra_chunks r')"
      "ra_nBytes r' = of_nat (chunk_bytes (ra_chunks r) - chunk_bytes cs)"
      "\<And>cset. cset \<in> set (ra_ordered r') \<Longrightarrow> cs_chunks cset \<noteq> []"
      "\<And>cset. cset \<in> set (ra_unordered r') \<Longrightarrow> isComplete cset"
  shows "ra_inv r'"
proof -
  have b: "chunk_bytes (ra_chunks r) = chunk_bytes cs + chunk_bytes (ra_chunks r')"
    using r'(1) by (simp add: chunk_bytes_sum_mset)
  then have lt: "chunk_bytes (ra_chunks r') < 2 ^ 63" using ra_inv_D(2) [OF assms(1)] by linarith
  then have "chunk_bytes (ra_chunks r') < 2 ^ LENGTH(64)" by simp
  then have "unat (of_nat (chunk_bytes (ra_chunks r')) :: u64) = chunk_bytes (ra_chunks r')" by (rule unat_of_nat_small)
  then show ?thesis unfolding ra_inv_def using lt r'(2-4) b by simp
qed

lemma find_fragmented_ok:
  "(\<And>cset. cset \<in> set sets \<Longrightarrow> cs_chunks cset \<noteq> []) \<Longrightarrow>
   \<exists>res. find_fragmented ssn i sets = ok res \<and>
     (case res of None \<Rightarrow> \<forall>cset \<in> set sets. \<not> (cs_ssn cset = ssn \<and> isFragmented (hd (cs_chunks cset)))
      | Some j \<Rightarrow> i \<le> j \<and> j < i + length sets \<and> cs_ssn (sets ! (j - i)) = ssn \<and>
          isFragmented (hd (cs_chunks (sets ! (j - i)))))"
proof (induction sets arbitrary: i)
  case (Cons x sets)
  from Cons.IH [of "Suc i"] Cons.prems obtain res where
    res: "find_fragmented ssn (Suc i) sets = ok res"
     "case res of None \<Rightarrow> \<forall>cset \<in> set sets. \<not> (cs_ssn cset = ssn \<and> isFragmented (hd (cs_chunks cset)))
      | Some j \<Rightarrow> Suc i \<le> j \<and> j < Suc i + length sets \<and> cs_ssn (sets ! (j - Suc i)) = ssn \<and>
          isFragmented (hd (cs_chunks (sets ! (j - Suc i))))" by auto
  have x: "cs_chunks x \<noteq> []" using Cons.prems by simp
  show ?case
  proof (cases "cs_ssn x = ssn \<and> isFragmented (hd (cs_chunks x))")
    case True
    then show ?thesis using x by (intro exI [of _ "Some i"]) (simp add: hd_conv_nth)
  next
    case False
    then have "find_fragmented ssn i (x # sets) = ok res" using x res(1) by (auto simp: hd_conv_nth)
    then show ?thesis using res(2) False by (intro exI [of _ res]) (auto split: option.splits simp: nth_Cons')
  qed
qed simp

lemma chunkSet_push_fresh:
  assumes "pd_tsn c \<notin> pd_tsn ` set (cs_chunks cset)"
  shows "chunkSet_push cset c = (isComplete (cset\<lparr>cs_chunks := sortChunksByTSN (cs_chunks cset @ [c])\<rparr>),
    cset\<lparr>cs_chunks := sortChunksByTSN (cs_chunks cset @ [c])\<rparr>)"
proof -
  have "\<not> list_ex (\<lambda>d. pd_tsn d = pd_tsn c) (cs_chunks cset)" unfolding list_ex_iff using assms by (metis image_eqI)
  then show ?thesis by (simp add: chunkSet_push_def Let_def)
qed

lemma sortChunks_mset [simp]:
  "mset (sortChunksByTSN cs) = mset cs" "mset (sortChunksBySSN ss) = mset ss"
  "set (sortChunksByTSN cs) = set cs" "set (sortChunksBySSN ss) = set ss"
  by (simp_all add: sortChunksByTSN_def sortChunksBySSN_def)

lemma sortChunks_Nil [simp]: "sortChunksByTSN cs = [] \<longleftrightarrow> cs = []"
  by (metis mset_zero_iff sortChunks_mset(1))

lemma mset_concat_map: "mset (concat (map f xs)) = (\<Sum>x\<in>#mset xs. mset (f x))"
  by (induction xs) simp_all

lemma mset_concat_update:
  assumes "i < length xs" "mset (f y) = mset (f (xs ! i)) + M"
  shows "mset (concat (map f (xs[i := y]))) = mset (concat (map f xs)) + M"
  using assms
proof (induction xs arbitrary: i)
  case (Cons x xs)
  then show ?case by (cases i) simp_all
qed simp

lemma ra_push_ok:
  assumes inv: "ra_inv r" and room: "chunk_bytes (ra_chunks r) + length (pd_userData c) < 2 ^ 63"
    and fresh: "pd_tsn c \<notin> pd_tsn ` set (ra_chunks r)"
  shows "\<exists>b r'. reassemblyQueue_push r c = ok (b, r') \<and> ra_inv r' \<and>
    (if pd_streamIdentifier c \<noteq> ra_si r \<or> (\<not> pd_unordered c \<and> sna16LT (pd_streamSequenceNumber c) (ra_nextSSN r))
     then b = False \<and> r' = r else mset (ra_chunks r') = mset (ra_chunks r) + {#c#})"
proof (cases "pd_streamIdentifier c \<noteq> ra_si r \<or> (\<not> pd_unordered c \<and> sna16LT (pd_streamSequenceNumber c) (ra_nextSSN r))")
  case True
  then show ?thesis using inv by (auto simp: reassemblyQueue_push_def)
next
  case accepted: False
  note D = ra_inv_D [OF inv]
  let ?n = "of_nat (length (pd_userData c)) :: u64"
  have fin: ?thesis if "reassemblyQueue_push r c = ok (b, r')" "ra_inv r'" "mset (ra_chunks r') = mset (ra_chunks r) + {#c#}"
    for b r' using that accepted by auto
  show ?thesis
  proof (cases "pd_unordered c")
    case True
    let ?r = "r\<lparr>ra_nBytes := ra_nBytes r + ?n, ra_unorderedChunks := sortChunksByTSN (ra_unorderedChunks r @ [c])\<rparr>"
    have push: "reassemblyQueue_push r c = bind_res (findCompleteUnorderedChunkSet ?r) (\<lambda>(found, r).
         case found of Some cset \<Rightarrow> ok (True, r\<lparr>ra_unordered := ra_unordered r @ [cset]\<rparr>) | None \<Rightarrow> ok (False, r))"
      using accepted True by (simp add: reassemblyQueue_push_def Let_def)
    have added: "mset (ra_chunks ?r) = mset (ra_chunks r) + {#c#}" by (simp add: ra_chunks_def)
    show ?thesis
    proof (cases ?r rule: findComplete_cases)
      case none
      have "ra_inv ?r" by (rule ra_inv_add [OF inv room added]) (use D in simp_all)
      moreover have "reassemblyQueue_push r c = ok (False, ?r)" using push none by simp
      ultimately show ?thesis using added by (intro fin)
    next
      case (some a b d)
      let ?r' = "?r\<lparr>ra_unorderedChunks := a @ d,
        ra_unordered := ra_unordered r @ [\<lparr>cs_ssn = 0, cs_ppi = pd_payloadType (hd b), cs_chunks = b\<rparr>]\<rparr>"
      have "mset (ra_chunks ?r') = mset (ra_chunks ?r)"
        using some(1) by (simp add: ra_chunks_def)
      then have added': "mset (ra_chunks ?r') = mset (ra_chunks r) + {#c#}" using added by simp
      have "ra_inv ?r'"
        by (rule ra_inv_add [OF inv room added']) (use D some(2) in \<open>auto simp: isComplete_iff\<close>)
      moreover have "reassemblyQueue_push r c = ok (True, ?r')" using push some(3) by simp
      ultimately show ?thesis using added' by (intro fin)
    qed
  next
    case False
    from find_fragmented_ok [of "ra_ordered r" "pd_streamSequenceNumber c" 0] D(3) obtain res where
      res: "find_fragmented (pd_streamSequenceNumber c) 0 (ra_ordered r) = ok res"
        "\<And>j. res = Some j \<Longrightarrow> j < length (ra_ordered r)" by (auto split: option.splits)
    show ?thesis
    proof (cases "isFragmented c \<and> res \<noteq> None")
      case True
      then obtain j where j: "res = Some j" "j < length (ra_ordered r)" using res(2) by auto
      let ?s = "(ra_ordered r ! j)\<lparr>cs_chunks := sortChunksByTSN (cs_chunks (ra_ordered r ! j) @ [c])\<rparr>"
      let ?r' = "r\<lparr>ra_nBytes := ra_nBytes r + ?n, ra_ordered := (ra_ordered r)[j := ?s]\<rparr>"
      have "pd_tsn c \<notin> pd_tsn ` set (cs_chunks (ra_ordered r ! j))"
        using fresh j(2) by (auto simp: ra_chunks_def)
      from chunkSet_push_fresh [OF this]
      have push: "reassemblyQueue_push r c = ok (isComplete ?s, ?r')"
        using accepted False True res(1) j by (simp add: reassemblyQueue_push_def)
      have added: "mset (ra_chunks ?r') = mset (ra_chunks r) + {#c#}"
        using mset_concat_update [OF j(2), of cs_chunks ?s "{#c#}"] by (simp add: ra_chunks_def)
      have "ra_inv ?r'"
        by (rule ra_inv_add [OF inv room added]) (use D in \<open>auto dest!: subsetD [OF set_update_subset_insert]\<close>)
      from fin [OF push this added] show ?thesis .
    next
      case new: False
      let ?s = "\<lparr>cs_ssn = pd_streamSequenceNumber c, cs_ppi = pd_payloadType c, cs_chunks = [c]\<rparr>"
      let ?r' = "r\<lparr>ra_nBytes := ra_nBytes r + ?n, ra_ordered := sortChunksBySSN (ra_ordered r @ [?s])\<rparr>"
      have "sortChunksByTSN [c] = [c]" by (simp add: sortChunksByTSN_def sortSlice_def)
      then have "reassemblyQueue_push r c = ok (isComplete ?s, ?r')"
        using accepted False new res(1)
        by (auto simp: reassemblyQueue_push_def chunkSet_push_fresh newChunkSet_def)
      moreover have added: "mset (ra_chunks ?r') = mset (ra_chunks r) + {#c#}"
        by (simp add: ra_chunks_def mset_concat_map)
      moreover have "ra_inv ?r'" by (rule ra_inv_add [OF inv room added]) (use D in auto)
      ultimately show ?thesis by (intro fin)
    qed
  qed
qed

text \<open>
  What a read returns: nothing while the next message is incomplete, otherwise the user data of one
  complete message, which leaves the queue only if the buffer holds it.
\<close>

lemma ra_read_ok:
  assumes inv: "ra_inv r"
  shows "(rd_err (fst (reassemblyQueue_read r buf)) = Some ErrTryAgain \<and> \<not> reassemblyQueue_isReadable r \<and>
      snd (reassemblyQueue_read r buf) = r) \<or>
    (\<exists>cs. complete_chunks cs \<and> reassemblyQueue_isReadable r \<and> rd_n (fst (reassemblyQueue_read r buf)) = chunk_bytes cs \<and>
      (if chunk_bytes cs \<le> length buf then
         rd_err (fst (reassemblyQueue_read r buf)) = None \<and>
         rd_buf (fst (reassemblyQueue_read r buf)) = concat (map pd_userData cs) @ drop (chunk_bytes cs) buf \<and>
         ra_inv (snd (reassemblyQueue_read r buf)) \<and>
         mset (ra_chunks r) = mset cs + mset (ra_chunks (snd (reassemblyQueue_read r buf)))
       else rd_err (fst (reassemblyQueue_read r buf)) = Some ErrShortBuffer \<and> snd (reassemblyQueue_read r buf) = r))"
proof -
  note D = ra_inv_D [OF inv]
  have finish: ?thesis
    if rd: "reassemblyQueue_read r buf = (case copy_chunks buf 0 False (cs_chunks cset) of (buf, nTotal, short) \<Rightarrow>
        if short then (\<lparr>rd_n = nTotal, rd_ppi = 0, rd_err = Some ErrShortBuffer, rd_buf = buf\<rparr>, r)
        else (\<lparr>rd_n = nTotal, rd_ppi = cs_ppi cset, rd_err = None, rd_buf = buf\<rparr>, subtractNumBytes r1 nTotal))"
      and readable: "reassemblyQueue_isReadable r" and complete: "isComplete cset"
      and r1: "ra_nBytes r1 = ra_nBytes r" "mset (ra_chunks r) = mset (cs_chunks cset) + mset (ra_chunks r1)"
        "set (ra_ordered r1) \<subseteq> set (ra_ordered r)" "set (ra_unordered r1) \<subseteq> set (ra_unordered r)"
    for cset r1
  proof -
    let ?cs = "cs_chunks cset"
    have cs: "complete_chunks ?cs" using complete by (simp add: isComplete_iff)
    show ?thesis
    proof (cases "chunk_bytes ?cs \<le> length buf")
      case True
      have le: "chunk_bytes ?cs \<le> chunk_bytes (ra_chunks r)" using r1(2) by (simp add: chunk_bytes_sum_mset)
      let ?r' = "r1\<lparr>ra_nBytes := of_nat (chunk_bytes (ra_chunks r) - chunk_bytes ?cs)\<rparr>"
      have "subtractNumBytes r1 (chunk_bytes ?cs) = ?r'"
        using D(1,2) le r1(1) by (intro subtract_exact) simp_all
      then have rd': "reassemblyQueue_read r buf = (\<lparr>rd_n = chunk_bytes ?cs, rd_ppi = cs_ppi cset, rd_err = None,
          rd_buf = concat (map pd_userData ?cs) @ drop (chunk_bytes ?cs) buf\<rparr>, ?r')"
        using rd True copy_chunks_fit [of 0 ?cs buf False] by simp
      have rest: "mset (ra_chunks r) = mset ?cs + mset (ra_chunks ?r')" using r1(2) by (simp add: ra_chunks_def)
      have "ra_inv ?r'" by (rule ra_inv_remove [OF inv rest]) (use D r1 in auto)
      then show ?thesis unfolding rd' using cs readable rest True by (intro disjI2 exI [of _ ?cs]) simp
    next
      case False
      then obtain buf' where "copy_chunks buf 0 False ?cs = (buf', chunk_bytes ?cs, True)"
        using copy_chunks_short [of 0 buf False ?cs] by auto
      then show ?thesis using rd cs readable False by (intro disjI2 exI [of _ ?cs]) simp
    qed
  qed
  show ?thesis
  proof (cases "ra_unordered r")
    case (Cons cset rest)
    show ?thesis
      by (rule finish [of cset "r\<lparr>ra_unordered := rest\<rparr>"])
        (use D Cons in \<open>auto simp: reassemblyQueue_read_def reassemblyQueue_isReadable_def ra_chunks_def\<close>)
  next
    case unordered: Nil
    show ?thesis
    proof (cases "reassemblyQueue_isReadable r")
      case True
      then obtain cset rest where o: "ra_ordered r = cset # rest" "isComplete cset" "sna16LTE (cs_ssn cset) (ra_nextSSN r)"
        using unordered by (auto simp: reassemblyQueue_isReadable_def split: list.splits)
      let ?r1 = "if cs_ssn cset = ra_nextSSN r then r\<lparr>ra_ordered := rest, ra_nextSSN := ra_nextSSN r + 1\<rparr>
        else r\<lparr>ra_ordered := rest\<rparr>"
      show ?thesis
        by (rule finish [of cset ?r1])
          (use o True unordered in \<open>auto simp: reassemblyQueue_read_def ra_chunks_def sna16.gt_iff_not_lte Let_def split: prod.splits\<close>)
    next
      case False
      then show ?thesis using unordered
        by (auto simp: reassemblyQueue_isReadable_def reassemblyQueue_read_def Let_def sna16.gt_iff_not_lte split: list.splits)
    qed
  qed
qed

lemma foldl_foldl_concat: "foldl (\<lambda>r x. foldl f r (g x)) r xs = foldl f r (concat (map g xs))"
  by (induction xs arbitrary: r) simp_all

lemma mset_partition_concat:
  "mset (concat (map f xs)) = mset (concat (map f (filter P xs))) + mset (concat (map f (filter (\<lambda>x. \<not> P x) xs)))"
  by (induction xs) simp_all

lemma forward_ordered_ok:
  fixes l
  assumes inv: "ra_inv r"
  defines "r' \<equiv> forwardTSNForOrdered r l"
  shows "ra_inv r'" "mset (ra_chunks r) = mset (concat (map cs_chunks (dropped_sets l (ra_ordered r)))) + mset (ra_chunks r')"
    and "ra_ordered r' = filter (\<lambda>cset. \<not> (sna16LTE (cs_ssn cset) l \<and> \<not> isComplete cset)) (ra_ordered r)"
    and "ra_nextSSN r' = (if sna16LTE (ra_nextSSN r) l then l + 1 else ra_nextSSN r)"
    and "ra_unordered r' = ra_unordered r" "ra_unorderedChunks r' = ra_unorderedChunks r" "ra_si r' = ra_si r"
proof -
  note D = ra_inv_D [OF inv]
  let ?cs = "concat (map cs_chunks (dropped_sets l (ra_ordered r)))"
  let ?kept = "filter (\<lambda>cset. \<not> (sna16LTE (cs_ssn cset) l \<and> \<not> isComplete cset)) (ra_ordered r)"
  have rest: "mset (ra_chunks r) = mset ?cs + mset (ra_chunks (r\<lparr>ra_ordered := ?kept\<rparr>))"
    using mset_partition_concat [of cs_chunks "ra_ordered r" "\<lambda>cset. sna16LTE (cs_ssn cset) l \<and> \<not> isComplete cset"]
    by (simp add: ra_chunks_def dropped_sets_def)
  then have le: "chunk_bytes ?cs \<le> chunk_bytes (ra_chunks r)" by (simp add: chunk_bytes_sum_mset)
  let ?b = "of_nat (chunk_bytes (ra_chunks r) - chunk_bytes ?cs) :: u64"
  have r': "r' = (if sna16LTE (ra_nextSSN r) l then r\<lparr>ra_nBytes := ?b, ra_ordered := ?kept, ra_nextSSN := l + 1\<rparr>
      else r\<lparr>ra_nBytes := ?b, ra_ordered := ?kept\<rparr>)"
    using subtract_chunks_exact [OF D(1,2) le] by (simp add: r'_def forwardTSNForOrdered_def foldl_foldl_concat Let_def)
  show rest': "mset (ra_chunks r) = mset ?cs + mset (ra_chunks r')"
    using rest unfolding r' by (simp add: ra_chunks_def)
  show "ra_inv r'" by (rule ra_inv_remove [OF inv rest']) (use D r' in \<open>auto split: if_splits\<close>)
  show "ra_ordered r' = ?kept" "ra_nextSSN r' = (if sna16LTE (ra_nextSSN r) l then l + 1 else ra_nextSSN r)"
    "ra_unordered r' = ra_unordered r" "ra_unorderedChunks r' = ra_unorderedChunks r" "ra_si r' = ra_si r"
    unfolding r' by simp_all
qed

lemma forward_unordered_ok:
  fixes t
  assumes inv: "ra_inv r"
  defines "r' \<equiv> forwardTSNForUnordered r t"
    and "old \<equiv> takeWhile (\<lambda>c. \<not> sna32GT (pd_tsn c) t) (ra_unorderedChunks r)"
  shows "ra_inv r'" "mset (ra_chunks r) = mset old + mset (ra_chunks r')"
    and "ra_unorderedChunks r' = dropWhile (\<lambda>c. \<not> sna32GT (pd_tsn c) t) (ra_unorderedChunks r)"
proof -
  note D = ra_inv_D [OF inv]
  let ?new = "dropWhile (\<lambda>c. \<not> sna32GT (pd_tsn c) t) (ra_unorderedChunks r)"
  have split: "ra_unorderedChunks r = old @ ?new" by (simp add: old_def)
  have rest: "mset (ra_chunks r) = mset old + mset (ra_chunks (r\<lparr>ra_unorderedChunks := ?new\<rparr>))"
    unfolding ra_chunks_def by (subst split) simp
  then have le: "chunk_bytes old \<le> chunk_bytes (ra_chunks r)" by (simp add: chunk_bytes_sum_mset)
  let ?b = "of_nat (chunk_bytes (ra_chunks r) - chunk_bytes old) :: u64"
  have "?new = drop (length old) (ra_unorderedChunks r)" by (simp add: old_def dropWhile_eq_drop)
  moreover have "r = r\<lparr>ra_nBytes := of_nat (chunk_bytes (ra_chunks r))\<rparr>"
    unfolding D(1) [symmetric] by simp
  ultimately have r': "r' = r\<lparr>ra_nBytes := ?b, ra_unorderedChunks := ?new\<rparr>"
    using subtract_chunks_exact [OF D(1,2) le]
    by (cases "old = []") (simp_all add: r'_def forwardTSNForUnordered_def old_def [symmetric] Let_def)
  show "ra_unorderedChunks r' = ?new" unfolding r' by simp
  show rest': "mset (ra_chunks r) = mset old + mset (ra_chunks r')"
    using rest unfolding r' by (simp add: ra_chunks_def)
  show "ra_inv r'" by (rule ra_inv_remove [OF inv rest']) (use D r' in auto)
qed

lemma ra_inv_new [simp]: "ra_inv (newReassemblyQueue si)"
  by (simp add: ra_inv_def newReassemblyQueue_def ra_chunks_def)

section \<open>Every message is delivered whole and once\<close>

datatype ra_op = RaPush chunkPayloadData | RaRead nat | RaForwardOrdered u16 | RaForwardUnordered u32

text \<open>One operation: the messages it delivers and the queue after it.\<close>

fun ra_apply :: "reassemblyQueue \<Rightarrow> ra_op \<Rightarrow> (sctp_err, bytes list \<times> reassemblyQueue) res" where
  "ra_apply r (RaPush c) = bind_res (reassemblyQueue_push r c) (\<lambda>(_, r). ok ([], r))"
| "ra_apply r (RaRead n) =
     (case reassemblyQueue_read r (replicate n 0) of (res, r) \<Rightarrow>
        ok (if rd_err res = None then [take (rd_n res) (rd_buf res)] else [], r))"
| "ra_apply r (RaForwardOrdered ssn) = ok ([], forwardTSNForOrdered r ssn)"
| "ra_apply r (RaForwardUnordered tsn) = ok ([], forwardTSNForUnordered r tsn)"

fun ra_run :: "reassemblyQueue \<Rightarrow> ra_op list \<Rightarrow> (sctp_err, bytes list \<times> reassemblyQueue) res" where
  "ra_run r [] = ok ([], r)"
| "ra_run r (x # xs) =
     bind_res (ra_apply r x) (\<lambda>(out, r). bind_res (ra_run r xs) (\<lambda>(outs, r). ok (out @ outs, r)))"

fun ra_pushed :: "ra_op list \<Rightarrow> chunkPayloadData list" where
  "ra_pushed [] = []"
| "ra_pushed (RaPush c # xs) = c # ra_pushed xs"
| "ra_pushed (_ # xs) = ra_pushed xs"

lemma ra_pushed_Cons: "ra_pushed (x # xs) = ra_pushed [x] @ ra_pushed xs"
  by (cases x) simp_all

lemma ra_apply_ok:
  assumes inv: "ra_inv r" and room: "chunk_bytes (ra_chunks r @ ra_pushed [x]) < 2 ^ 63"
    and fresh: "pd_tsn ` set (ra_pushed [x]) \<inter> pd_tsn ` set (ra_chunks r) = {}"
  shows "\<exists>css r'. ra_apply r x = ok (map (\<lambda>cs. concat (map pd_userData cs)) css, r') \<and> ra_inv r' \<and>
    (\<forall>cs \<in> set css. complete_chunks cs) \<and>
    mset (concat css) + mset (ra_chunks r') \<subseteq># mset (ra_chunks r) + mset (ra_pushed [x])"
proof (cases x)
  case (RaPush c)
  with ra_push_ok [OF inv] room fresh obtain b r' where
    "reassemblyQueue_push r c = ok (b, r')" "ra_inv r'" "mset (ra_chunks r') \<subseteq># mset (ra_chunks r) + {#c#}"
    by (fastforce split: if_splits)
  then show ?thesis using RaPush by (intro exI [of _ "[]"] exI [of _ r']) simp
next
  case (RaRead n)
  obtain res r' where rd: "reassemblyQueue_read r (replicate n 0) = (res, r')" by fastforce
  from ra_read_ok [OF inv, of "replicate n 0"] consider
    (none) "rd_err res \<noteq> None" "r' = r"
    | (some) cs where "complete_chunks cs" "rd_n res = chunk_bytes cs" "rd_err res = None" "ra_inv r'"
      "rd_buf res = concat (map pd_userData cs) @ drop (chunk_bytes cs) (replicate n 0)"
      "mset (ra_chunks r) = mset cs + mset (ra_chunks r')"
    unfolding rd by (auto split: if_splits)
  then show ?thesis
  proof cases
    case none
    then show ?thesis using RaRead rd inv by (intro exI [of _ "[]"] exI [of _ r]) simp
  next
    case some
    then show ?thesis using RaRead rd
      by (intro exI [of _ "[cs]"] exI [of _ r']) (simp add: length_user_data)
  qed
next
  case (RaForwardOrdered l)
  then show ?thesis using forward_ordered_ok(1,2) [OF inv, of l]
    by (intro exI [of _ "[]"] exI [of _ "forwardTSNForOrdered r l"]) simp
next
  case (RaForwardUnordered t)
  then show ?thesis using forward_unordered_ok(1,2) [OF inv, of t]
    by (intro exI [of _ "[]"] exI [of _ "forwardTSNForUnordered r t"]) simp
qed

lemma subset_mset_tsn: "mset xs \<subseteq># mset ys \<Longrightarrow> distinct (map pd_tsn ys) \<Longrightarrow> distinct (map pd_tsn xs)"
proof -
  assume sub: "mset xs \<subseteq># mset ys" and d: "distinct (map pd_tsn ys)"
  obtain M where "mset ys = mset xs + M" using sub by (auto simp: mset_subset_eq_exists_conv)
  moreover obtain zs where "mset zs = M" using ex_mset by blast
  ultimately have "mset (map pd_tsn ys) = mset (map pd_tsn (xs @ zs))" by simp
  from mset_eq_imp_distinct_iff [OF this] d show ?thesis by simp
qed

lemma subset_mset_bytes: "mset xs \<subseteq># mset ys \<Longrightarrow> chunk_bytes xs \<le> chunk_bytes ys"
  by (auto simp: mset_subset_eq_exists_conv chunk_bytes_sum_mset)

lemma ra_run_ok:
  assumes "ra_inv r" "distinct (map pd_tsn (ra_chunks r @ ra_pushed xs))" "chunk_bytes (ra_chunks r @ ra_pushed xs) < 2 ^ 63"
  shows "\<exists>css r'. ra_run r xs = ok (map (\<lambda>cs. concat (map pd_userData cs)) css, r') \<and> ra_inv r' \<and>
    (\<forall>cs \<in> set css. complete_chunks cs) \<and>
    mset (concat css) + mset (ra_chunks r') \<subseteq># mset (ra_chunks r) + mset (ra_pushed xs)"
  using assms
proof (induction xs arbitrary: r)
  case Nil
  then show ?case by (intro exI [of _ "[]"] exI [of _ r]) simp
next
  case (Cons x xs)
  note split = ra_pushed_Cons [of x xs]
  have "chunk_bytes (ra_chunks r @ ra_pushed [x]) < 2 ^ 63" "pd_tsn ` set (ra_pushed [x]) \<inter> pd_tsn ` set (ra_chunks r) = {}"
    using Cons.prems(2,3) unfolding split by auto
  from ra_apply_ok [OF Cons.prems(1) this] obtain css r1 where
    r1: "ra_apply r x = ok (map (\<lambda>cs. concat (map pd_userData cs)) css, r1)" "ra_inv r1" "\<forall>cs \<in> set css. complete_chunks cs"
      "mset (concat css) + mset (ra_chunks r1) \<subseteq># mset (ra_chunks r) + mset (ra_pushed [x])" by blast
  have "mset (ra_chunks r1) \<subseteq># mset (ra_chunks r) + mset (ra_pushed [x])"
    by (rule subset_mset.order_trans [OF _ r1(4)]) simp
  then have sub: "mset (ra_chunks r1 @ ra_pushed xs) \<subseteq># mset (ra_chunks r @ ra_pushed (x # xs))"
    unfolding split by (simp add: add.assoc [symmetric])
  have "chunk_bytes (ra_chunks r1 @ ra_pushed xs) < 2 ^ 63"
    by (rule le_less_trans [OF subset_mset_bytes [OF sub] Cons.prems(3)])
  from Cons.IH [OF r1(2) subset_mset_tsn [OF sub Cons.prems(2)] this] obtain css' r' where
    r': "ra_run r1 xs = ok (map (\<lambda>cs. concat (map pd_userData cs)) css', r')" "ra_inv r'" "\<forall>cs \<in> set css'. complete_chunks cs"
      "mset (concat css') + mset (ra_chunks r') \<subseteq># mset (ra_chunks r1) + mset (ra_pushed xs)" by blast
  have "mset (concat css) + (mset (concat css') + mset (ra_chunks r')) \<subseteq>#
      (mset (concat css) + mset (ra_chunks r1)) + mset (ra_pushed xs)"
    using r'(4) by (simp add: add.assoc)
  also have "\<dots> \<subseteq># mset (ra_chunks r) + mset (ra_pushed (x # xs))"
    using r1(4) unfolding split by (simp add: add.assoc [symmetric])
  finally show ?case using r1 r' by (intro exI [of _ "css @ css'"] exI [of _ r']) (auto simp: add.assoc)
qed


definition sample_fragment :: "u32 \<Rightarrow> bool \<Rightarrow> bool \<Rightarrow> bytes \<Rightarrow> chunkPayloadData" where
  "sample_fragment tsn b e bs = zero_payload\<lparr>pd_tsn := tsn, pd_beginningFragment := b, pd_endingFragment := e,
     pd_userData := bs\<rparr>"


end
