(* ===== verification/Sctp_Timer.thy ===== *)
theory Sctp_Timer
  imports Prelude Complex_Main
begin

text \<open>
  \<^verbatim>\<open>sctp/rtx_timer.go\<close> and \<^verbatim>\<open>sctp/ack_timer.go\<close>. Times are milliseconds as exact rationals, where the code
  has \<^verbatim>\<open>float64\<close>: rounding is not modelled.

  A \<^verbatim>\<open>time.Timer\<close> is its due time while it is armed and the number of calls of its function that have
  been launched but have not yet taken the mutex; \<^verbatim>\<open>Stop\<close> returns whether it disarmed the timer.
\<close>

section \<open>Go timers\<close>

record goTimer =
  gt_armed :: "rat option"
  gt_fired :: nat

definition goTimer_Reset :: "goTimer \<Rightarrow> rat \<Rightarrow> goTimer" where
  "goTimer_Reset g d = g\<lparr>gt_armed := Some d\<rparr>"

definition goTimer_Stop :: "goTimer \<Rightarrow> bool \<times> goTimer" where
  "goTimer_Stop g = (gt_armed g \<noteq> None, g\<lparr>gt_armed := None\<rparr>)"

text \<open>The run time launches the function of an armed timer.\<close>

definition goTimer_expire :: "goTimer \<Rightarrow> goTimer" where
  "goTimer_expire g = (if gt_armed g = None then g else g\<lparr>gt_armed := None, gt_fired := gt_fired g + 1\<rparr>)"

definition stoppedTimer :: goTimer where
  "stoppedTimer = \<lparr>gt_armed = None, gt_fired = 0\<rparr>"

section \<open>The retransmission timeout\<close>

definition rtoInitial :: rat where "rtoInitial = 1000"
definition rtoMin :: rat where "rtoMin = 1000"
definition defaultRTOMax :: rat where "defaultRTOMax = 60000"
definition rtoAlpha :: rat where "rtoAlpha = 1 / 8"
definition rtoBeta :: rat where "rtoBeta = 1 / 4"
definition maxInitRetrans :: nat where "maxInitRetrans = 8"
definition pathMaxRetrans :: nat where "pathMaxRetrans = 5"
definition noMaxRetrans :: nat where "noMaxRetrans = 0"

record rtoManager =
  rm_srtt :: rat
  rm_rttvar :: rat
  rm_rto :: rat
  rm_noUpdate :: bool
  rm_rtoMax :: rat

definition newRTOManager :: "rat \<Rightarrow> rtoManager" where
  "newRTOManager rtoMax =
     \<lparr>rm_srtt = 0, rm_rttvar = 0, rm_rto = rtoInitial, rm_noUpdate = False,
      rm_rtoMax = if rtoMax = 0 then defaultRTOMax else rtoMax\<rparr>"

definition setNewRTT :: "rtoManager \<Rightarrow> rat \<Rightarrow> rat \<times> rtoManager" where
  "setNewRTT m rtt =
     (if rm_noUpdate m then (rm_srtt m, m)
      else let m = (if rm_srtt m = 0 then m\<lparr>rm_srtt := rtt, rm_rttvar := rtt / 2\<rparr>
                    else let m' = m\<lparr>rm_rttvar := (1 - rtoBeta) * rm_rttvar m + rtoBeta * \<bar>rm_srtt m - rtt\<bar>\<rparr>
                         in m'\<lparr>rm_srtt := (1 - rtoAlpha) * rm_srtt m' + rtoAlpha * rtt\<rparr>);
               m = m\<lparr>rm_rto := min (max (rm_srtt m + 4 * rm_rttvar m) rtoMin) (rm_rtoMax m)\<rparr>
           in (rm_srtt m, m))"

definition getRTO :: "rtoManager \<Rightarrow> rat" where
  "getRTO m = rm_rto m"

definition rtoManager_reset :: "rtoManager \<Rightarrow> rtoManager" where
  "rtoManager_reset m =
     (if rm_noUpdate m then m else m\<lparr>rm_srtt := 0, rm_rttvar := 0, rm_rto := rtoInitial\<rparr>)"

definition setRTO :: "rtoManager \<Rightarrow> rat \<Rightarrow> bool \<Rightarrow> rtoManager" where
  "setRTO m rto noUpdate = m\<lparr>rm_rto := rto, rm_noUpdate := noUpdate\<rparr>"

section \<open>The retransmission timer\<close>

datatype timerState = TimerStopped | TimerStarted | TimerClosed

record rtxTimer =
  rt_timer :: goTimer
  rt_maxRetrans :: nat
  rt_rtoMax :: rat
  rt_rto :: rat
  rt_nRtos :: nat
  rt_state :: timerState
  rt_pending :: u8

definition newRTXTimer :: "nat \<Rightarrow> rat \<Rightarrow> rtxTimer" where
  "newRTXTimer maxRetrans rtoMax =
     \<lparr>rt_timer = stoppedTimer, rt_maxRetrans = maxRetrans,
      rt_rtoMax = if rtoMax = 0 then defaultRTOMax else rtoMax, rt_rto = 0, rt_nRtos = 0,
      rt_state = TimerStopped, rt_pending = 0\<rparr>"

definition calculateNextTimeout :: "rat \<Rightarrow> nat \<Rightarrow> rat \<Rightarrow> rat" where
  "calculateNextTimeout rto nRtos rtoMax = (if nRtos < 31 then min (rto * 2 ^ nRtos) rtoMax else rtoMax)"

text \<open>\<^verbatim>\<open>time.Duration(timeout)\<close> truncates to whole milliseconds.\<close>

definition rtxTimer_calculateNextTimeout :: "rtxTimer \<Rightarrow> rat" where
  "rtxTimer_calculateNextTimeout t =
     (let x = calculateNextTimeout (rt_rto t) (rt_nRtos t) (rt_rtoMax t)
      in if x < 0 then - of_int \<lfloor>- x\<rfloor> else of_int \<lfloor>x\<rfloor>)"

text \<open>The callback that \<^verbatim>\<open>timeout\<close> makes after it has released the mutex.\<close>

datatype rtxCall = RtxNone | RtxTimeout nat | RtxFailure

definition rtxTimer_timeout :: "rtxTimer \<Rightarrow> rtxCall \<times> rtxTimer" where
  "rtxTimer_timeout t =
     (let t = t\<lparr>rt_timer := (rt_timer t)\<lparr>gt_fired := gt_fired (rt_timer t) - 1\<rparr>\<rparr>;
          t = t\<lparr>rt_pending := rt_pending t - 1\<rparr>
      in if rt_pending t = 0 \<and> rt_state t = TimerStarted then
           let t = t\<lparr>rt_nRtos := rt_nRtos t + 1\<rparr>
           in if rt_maxRetrans t = 0 \<or> rt_nRtos t \<le> rt_maxRetrans t then
                (RtxTimeout (rt_nRtos t),
                 t\<lparr>rt_timer := goTimer_Reset (rt_timer t) (rtxTimer_calculateNextTimeout t),
                   rt_pending := rt_pending t + 1\<rparr>)
              else (RtxFailure, t\<lparr>rt_state := TimerStopped\<rparr>)
         else (RtxNone, t))"

definition rtxTimer_start :: "rtxTimer \<Rightarrow> rat \<Rightarrow> bool \<times> rtxTimer" where
  "rtxTimer_start t rto =
     (if rt_state t \<noteq> TimerStopped then (False, t)
      else let t = t\<lparr>rt_rto := rto, rt_nRtos := 0, rt_state := TimerStarted, rt_pending := rt_pending t + 1\<rparr>
           in (True, t\<lparr>rt_timer := goTimer_Reset (rt_timer t) (rtxTimer_calculateNextTimeout t)\<rparr>))"

definition rtxTimer_stop :: "rtxTimer \<Rightarrow> rtxTimer" where
  "rtxTimer_stop t =
     (if rt_state t = TimerStarted then
        case goTimer_Stop (rt_timer t) of (stopped, g) \<Rightarrow>
          let t = t\<lparr>rt_timer := g\<rparr>;
              t = (if stopped then t\<lparr>rt_pending := rt_pending t - 1\<rparr> else t)
          in t\<lparr>rt_state := TimerStopped\<rparr>
      else t)"

definition rtxTimer_close :: "rtxTimer \<Rightarrow> rtxTimer" where
  "rtxTimer_close t =
     (let t = (if rt_state t = TimerStarted then
                 case goTimer_Stop (rt_timer t) of (stopped, g) \<Rightarrow>
                   let t = t\<lparr>rt_timer := g\<rparr> in if stopped then t\<lparr>rt_pending := rt_pending t - 1\<rparr> else t
               else t)
      in t\<lparr>rt_state := TimerClosed\<rparr>)"

definition rtxTimer_isRunning :: "rtxTimer \<Rightarrow> bool" where
  "rtxTimer_isRunning t \<longleftrightarrow> rt_state t = TimerStarted"

section \<open>The acknowledgement timer\<close>

definition ackInterval :: rat where "ackInterval = 200"

record ackTimer =
  at_timer :: goTimer
  at_state :: timerState
  at_pending :: u8

definition newAckTimer :: ackTimer where
  "newAckTimer = \<lparr>at_timer = stoppedTimer, at_state = TimerStopped, at_pending = 0\<rparr>"

definition ackTimer_timeout :: "ackTimer \<Rightarrow> bool \<times> ackTimer" where
  "ackTimer_timeout t =
     (let t = t\<lparr>at_timer := (at_timer t)\<lparr>gt_fired := gt_fired (at_timer t) - 1\<rparr>\<rparr>;
          t = t\<lparr>at_pending := at_pending t - 1\<rparr>
      in if at_pending t = 0 \<and> at_state t = TimerStarted then (True, t\<lparr>at_state := TimerStopped\<rparr>) else (False, t))"

definition ackTimer_start :: "ackTimer \<Rightarrow> bool \<times> ackTimer" where
  "ackTimer_start t =
     (if at_state t \<noteq> TimerStopped then (False, t)
      else (True, t\<lparr>at_state := TimerStarted, at_pending := at_pending t + 1,
                    at_timer := goTimer_Reset (at_timer t) ackInterval\<rparr>))"

definition ackTimer_stop :: "ackTimer \<Rightarrow> ackTimer" where
  "ackTimer_stop t =
     (if at_state t = TimerStarted then
        case goTimer_Stop (at_timer t) of (stopped, g) \<Rightarrow>
          let t = t\<lparr>at_timer := g\<rparr>;
              t = (if stopped then t\<lparr>at_pending := at_pending t - 1\<rparr> else t)
          in t\<lparr>at_state := TimerStopped\<rparr>
      else t)"

definition ackTimer_close :: "ackTimer \<Rightarrow> ackTimer" where
  "ackTimer_close t =
     (let t = (if at_state t = TimerStarted then
                 case goTimer_Stop (at_timer t) of (stopped, g) \<Rightarrow>
                   let t = t\<lparr>at_timer := g\<rparr> in if stopped then t\<lparr>at_pending := at_pending t - 1\<rparr> else t
               else t)
      in t\<lparr>at_state := TimerClosed\<rparr>)"

definition ackTimer_isRunning :: "ackTimer \<Rightarrow> bool" where
  "ackTimer_isRunning t \<longleftrightarrow> at_state t = TimerStarted"

section \<open>A running timer always has a call outstanding\<close>

lemmas rtxTimer_defs = rtxTimer_timeout_def rtxTimer_start_def rtxTimer_stop_def rtxTimer_close_def
  goTimer_Reset_def goTimer_Stop_def goTimer_expire_def Let_def

definition armed :: "goTimer \<Rightarrow> nat" where
  "armed g = (if gt_armed g = None then 0 else 1)"

text \<open>
  The counter \<^verbatim>\<open>pending\<close> is the number of calls launched plus the one an armed timer will launch, a timer
  is armed only while it is started, and while it is started a call is outstanding.
\<close>

definition rtx_inv :: "rtxTimer \<Rightarrow> bool" where
  "rtx_inv t \<longleftrightarrow> rt_pending t = of_nat (gt_fired (rt_timer t) + armed (rt_timer t)) \<and>
     (gt_armed (rt_timer t) \<noteq> None \<longrightarrow> rt_state t = TimerStarted) \<and>
     (rt_state t = TimerStarted \<longrightarrow> 0 < gt_fired (rt_timer t) + armed (rt_timer t))"

datatype rtx_op = RtxStart rat | RtxStop | RtxClose | RtxExpire | RtxRun

text \<open>One step of the timer or of the run time; a launched call runs only if there is one.\<close>

fun rtx_step :: "rtxTimer \<Rightarrow> rtx_op \<Rightarrow> rtxCall list \<times> rtxTimer" where
  "rtx_step t (RtxStart rto) = ([], snd (rtxTimer_start t rto))"
| "rtx_step t RtxStop = ([], rtxTimer_stop t)"
| "rtx_step t RtxClose = ([], rtxTimer_close t)"
| "rtx_step t RtxExpire = ([], t\<lparr>rt_timer := goTimer_expire (rt_timer t)\<rparr>)"
| "rtx_step t RtxRun = (if gt_fired (rt_timer t) = 0 then ([], t) else case rtxTimer_timeout t of (c, t) \<Rightarrow> ([c], t))"

fun rtx_run :: "rtxTimer \<Rightarrow> rtx_op list \<Rightarrow> rtxCall list \<times> rtxTimer" where
  "rtx_run t [] = ([], t)"
| "rtx_run t (x # xs) = (case rtx_step t x of (c, t) \<Rightarrow> case rtx_run t xs of (cs, t) \<Rightarrow> (c @ cs, t))"

lemma u8_zero: "(of_nat n :: u8) = 0 \<Longrightarrow> n < 256 \<Longrightarrow> n = 0"
  using of_nat_word_inj [of n 0, where 'w = 8] by simp

lemma rtx_step_inv:
  assumes inv: "rtx_inv t" and few: "gt_fired (rt_timer t) < 255"
  shows "rtx_inv (snd (rtx_step t x))"
proof (cases x)
  case RtxRun
  let ?f = "gt_fired (rt_timer t)" and ?a = "armed (rt_timer t)"
  show ?thesis
  proof (cases "?f = 0")
    case False
    have p: "rt_pending t - 1 = of_nat (?f - 1 + ?a)" using inv False by (cases ?f) (simp_all add: rtx_inv_def)
    have "?f - 1 + ?a < 256" using few by (auto simp: armed_def)
    then have zero: "rt_pending t - 1 = 0 \<longleftrightarrow> ?f - 1 + ?a = 0" unfolding p using u8_zero by fastforce
    show ?thesis
    proof (cases "?f - 1 + ?a = 0")
      case True
      then have "gt_armed (rt_timer t) = None" "?f = 1" using False by (auto simp: armed_def split: if_splits)
      then show ?thesis using inv RtxRun False zero True by (auto simp: rtx_inv_def rtxTimer_defs armed_def)
    next
      case more: False
      then show ?thesis using inv RtxRun False zero p by (auto simp: rtx_inv_def rtxTimer_defs armed_def)
    qed
  qed (use inv RtxRun in simp)
next
  case (RtxStart rto)
  then show ?thesis using inv by (auto simp: rtx_inv_def rtxTimer_defs armed_def)
next
  case RtxStop
  then show ?thesis using inv by (auto simp: rtx_inv_def rtxTimer_defs armed_def)
next
  case RtxClose
  then show ?thesis using inv by (auto simp: rtx_inv_def rtxTimer_defs armed_def)
next
  case RtxExpire
  then show ?thesis using inv by (auto simp: rtx_inv_def rtxTimer_defs armed_def)
qed

text \<open>At most one call is launched per start or run, so short runs stay within the 8-bit counter.\<close>

lemma rtx_step_fired: "gt_fired (rt_timer (snd (rtx_step t x))) \<le> gt_fired (rt_timer t) + 1"
  by (cases x) (auto simp: rtxTimer_defs)

lemma rtx_run_Cons:
  "fst (rtx_run t (x # xs)) = fst (rtx_step t x) @ fst (rtx_run (snd (rtx_step t x)) xs)"
  "snd (rtx_run t (x # xs)) = snd (rtx_run (snd (rtx_step t x)) xs)"
  by (simp_all split: prod.splits)

lemma rtx_run_inv:
  "rtx_inv t \<Longrightarrow> gt_fired (rt_timer t) + length xs < 256 \<Longrightarrow> rtx_inv (snd (rtx_run t xs))"
proof (induction xs arbitrary: t)
  case (Cons x xs)
  have "rtx_inv (snd (rtx_step t x))" using Cons.prems by (intro rtx_step_inv) simp_all
  moreover have "gt_fired (rt_timer (snd (rtx_step t x))) + length xs < 256"
    using Cons.prems(2) rtx_step_fired [of t x] by simp
  ultimately show ?case unfolding rtx_run_Cons by (rule Cons.IH)
qed simp

lemma rtx_inv_new: "rtx_inv (newRTXTimer n m)"
  by (simp add: rtx_inv_def newRTXTimer_def stoppedTimer_def armed_def)



text \<open>The expiries of a timer that nobody stops.\<close>

definition running_at :: "rtxTimer \<Rightarrow> nat \<Rightarrow> bool" where
  "running_at t k \<longleftrightarrow> rt_state t = TimerStarted \<and> gt_armed (rt_timer t) \<noteq> None \<and> gt_fired (rt_timer t) = 0 \<and>
     rt_pending t = 1 \<and> rt_nRtos t = k"

lemma expire_run:
  assumes "running_at t k" "k < rt_maxRetrans t"
  defines "t' \<equiv> snd (rtx_step (snd (rtx_step t RtxExpire)) RtxRun)"
  shows "fst (rtx_run t (RtxExpire # RtxRun # xs)) = RtxTimeout (k + 1) # fst (rtx_run t' xs)"
    "snd (rtx_run t (RtxExpire # RtxRun # xs)) = snd (rtx_run t' xs)"
    "running_at t' (k + 1)" "rt_maxRetrans t' = rt_maxRetrans t"
  using assms(1,2) unfolding t'_def rtx_run_Cons by (auto simp: running_at_def rtxTimer_defs simp del: rtx_run.simps(2))

lemma expire_fail:
  assumes "running_at t (rt_maxRetrans t)" "0 < rt_maxRetrans t"
  shows "fst (rtx_run t [RtxExpire, RtxRun]) = [RtxFailure]" "rt_state (snd (rtx_run t [RtxExpire, RtxRun])) = TimerStopped"
  using assms by (auto simp: running_at_def rtxTimer_defs)

lemma expire_all:
  assumes "running_at t k" "k \<le> rt_maxRetrans t" "0 < rt_maxRetrans t"
  shows "fst (rtx_run t (concat (replicate (Suc (rt_maxRetrans t - k)) [RtxExpire, RtxRun]))) =
      map RtxTimeout [k + 1..<rt_maxRetrans t + 1] @ [RtxFailure] \<and>
    rt_state (snd (rtx_run t (concat (replicate (Suc (rt_maxRetrans t - k)) [RtxExpire, RtxRun])))) = TimerStopped"
  using assms
proof (induction "rt_maxRetrans t - k" arbitrary: t k)
  case 0
  then have "k = rt_maxRetrans t" by simp
  with 0 show ?case using expire_fail [of t] by simp
next
  case (Suc d)
  let ?xs = "concat (replicate (Suc d) [RtxExpire, RtxRun])"
  have lt: "k < rt_maxRetrans t" using Suc.hyps(2) by simp
  define t' where "t' = snd (rtx_step (snd (rtx_step t RtxExpire)) RtxRun)"
  note t' = expire_run [OF Suc.prems(1) lt, folded t'_def]
  have d: "d = rt_maxRetrans t' - (k + 1)" "Suc (rt_maxRetrans t - k) = Suc (Suc d)" using Suc.hyps(2) t'(4) by simp_all
  have "k + 1 \<le> rt_maxRetrans t'" "0 < rt_maxRetrans t'" using lt t'(4) by simp_all
  note IH = Suc.hyps(1) [OF d(1) t'(3) this, folded d(1)]
  have "[k + 1..<rt_maxRetrans t + 1] = (k + 1) # [k + 2..<rt_maxRetrans t + 1]" using lt by (simp add: upt_conv_Cons)
  then show ?case unfolding d(2) using t'(1,2) [of ?xs] t'(4) IH by (simp del: rtx_run.simps(2))
qed

text \<open>
  C25: retransmission is bounded: a timer with a limit of \<open>n\<close> that nobody stops calls back with the counts
  \<open>1\<close> to \<open>n\<close>, then reports the failure once and stops.
\<close>

theorem rtxTimer_gives_up:
  assumes "0 < n"
  shows "let (calls, t) = rtx_run (newRTXTimer n m) (RtxStart rto # concat (replicate (n + 1) [RtxExpire, RtxRun])) in
    calls = map RtxTimeout [1..<n + 1] @ [RtxFailure] \<and> \<not> rtxTimer_isRunning t"
proof -
  define t where "t = snd (rtx_step (newRTXTimer n m) (RtxStart rto))"
  have "running_at t 0" "rt_maxRetrans t = n"
    by (simp_all add: t_def running_at_def newRTXTimer_def stoppedTimer_def rtxTimer_defs)
  with expire_all [of t 0] assms show ?thesis
    unfolding Let_def case_prod_beta rtx_run_Cons [of "newRTXTimer n m"] rtxTimer_isRunning_def
    by (simp add: t_def del: rtx_run.simps(2))
qed

theorem rtxTimer_gives_up_witness:
  "let (calls, t) = rtx_run (newRTXTimer maxInitRetrans 0)
      (RtxStart rtoInitial # concat (replicate (maxInitRetrans + 1) [RtxExpire, RtxRun])) in
    calls = map RtxTimeout [1..<maxInitRetrans + 1] @ [RtxFailure] \<and> \<not> rtxTimer_isRunning t"
  by (rule rtxTimer_gives_up) (simp add: maxInitRetrans_def)

section \<open>Bounds of the retransmission timeout\<close>

definition measured :: "rat \<Rightarrow> rat \<Rightarrow> rtoManager \<Rightarrow> bool" where
  "measured lo hi m \<longleftrightarrow> lo \<le> rm_srtt m \<and> rm_srtt m \<le> hi \<and> 0 \<le> rm_rttvar m \<and> rm_rttvar m \<le> hi \<and>
     rtoMin \<le> rm_rto m \<and> rm_rto m \<le> rm_rtoMax m \<and> \<not> rm_noUpdate m"

lemma setNewRTT_measured:
  assumes m: "\<not> rm_noUpdate m" "rtoMin \<le> rm_rtoMax m" "rm_srtt m = 0 \<or> measured lo hi m" and rtt: "0 < lo" "lo \<le> rtt" "rtt \<le> hi"
  shows "measured lo hi (snd (setNewRTT m rtt))" "rm_rtoMax (snd (setNewRTT m rtt)) = rm_rtoMax m"
proof -
  have dev: "\<bar>s - rtt\<bar> \<le> hi" if "lo \<le> s" "s \<le> hi" for s using that rtt by (simp add: abs_le_iff)
  show "measured lo hi (snd (setNewRTT m rtt))"
  proof (cases "rm_srtt m = 0")
    case True
    then show ?thesis using m(1,2) rtt by (simp add: measured_def setNewRTT_def Let_def)
  next
    case False
    then have s: "lo \<le> rm_srtt m" "rm_srtt m \<le> hi" "0 \<le> rm_rttvar m" "rm_rttvar m \<le> hi"
      using m(3) by (simp_all add: measured_def)
    have "0 \<le> 3 / 4 * rm_rttvar m + 1 / 4 * \<bar>rm_srtt m - rtt\<bar>" using s by simp
    moreover have "3 / 4 * v + 1 / 4 * d \<le> hi" if "v \<le> hi" "d \<le> hi" for v d :: rat using that by linarith
    from this [OF s(4) dev [OF s(1,2)]] have "3 / 4 * rm_rttvar m + 1 / 4 * \<bar>rm_srtt m - rtt\<bar> \<le> hi" .
    moreover have "lo \<le> 7 / 8 * rm_srtt m + 1 / 8 * rtt" "7 / 8 * rm_srtt m + 1 / 8 * rtt \<le> hi" using s rtt by linarith+
    ultimately show ?thesis using False m(1,2)
      by (simp add: measured_def setNewRTT_def rtoAlpha_def rtoBeta_def Let_def)
  qed
qed (simp add: setNewRTT_def Let_def)

lemma fold_measured:
  assumes "rtoMin \<le> rm_rtoMax m" "measured lo hi m" "0 < lo" "\<forall>r \<in> set rtts. lo \<le> r \<and> r \<le> hi"
  shows "measured lo hi (foldl (\<lambda>m r. snd (setNewRTT m r)) m rtts) \<and> rm_rtoMax (foldl (\<lambda>m r. snd (setNewRTT m r)) m rtts) = rm_rtoMax m"
  using assms
proof (induction rtts arbitrary: m)
  case (Cons r rtts)
  have nu: "\<not> rm_noUpdate m" using Cons.prems(2) by (simp add: measured_def)
  note s = setNewRTT_measured [OF nu Cons.prems(1) disjI2 [OF Cons.prems(2)] Cons.prems(3), of r]
  then show ?case using Cons.IH [of "snd (setNewRTT m r)"] Cons.prems by simp
qed simp

text \<open>
  C26: for any sequence of round-trip times between \<open>lo\<close> and \<open>hi\<close>, the smoothed round-trip time stays
  between them, its variation does not exceed \<open>hi\<close>, and the retransmission timeout stays between
  \<^verbatim>\<open>RTO.Min\<close> and \<^verbatim>\<open>RTO.Max\<close>; every backed-off timeout computed from it is at least as long as the one
  before it and at most \<^verbatim>\<open>RTO.Max\<close>.
\<close>

theorem rto_bounds:
  assumes "rtoMin \<le> rtoMax" "rtts \<noteq> []" "0 < lo" "\<forall>r \<in> set rtts. lo \<le> r \<and> r \<le> hi"
  shows "let m = foldl (\<lambda>m r. snd (setNewRTT m r)) (newRTOManager rtoMax) rtts in
    lo \<le> rm_srtt m \<and> rm_srtt m \<le> hi \<and> rm_rttvar m \<le> hi \<and> rtoMin \<le> getRTO m \<and> getRTO m \<le> rtoMax \<and>
    calculateNextTimeout (getRTO m) n rtoMax \<le> calculateNextTimeout (getRTO m) (Suc n) rtoMax \<and>
    calculateNextTimeout (getRTO m) (Suc n) rtoMax \<le> rtoMax"
proof -
  obtain r rs where r: "rtts = r # rs" using assms(2) by (cases rtts) auto
  let ?m = "newRTOManager rtoMax"
  have new: "\<not> rm_noUpdate ?m" "rtoMin \<le> rm_rtoMax ?m" "rm_srtt ?m = 0" "rm_rtoMax ?m = rtoMax"
    using assms(1) by (auto simp: newRTOManager_def rtoMin_def defaultRTOMax_def)
  have "lo \<le> r" "r \<le> hi" using assms(4) r by simp_all
  note first = setNewRTT_measured [OF new(1,2) disjI1 [OF new(3)] assms(3) this]
  define m where "m = foldl (\<lambda>m r. snd (setNewRTT m r)) ?m rtts"
  have "measured lo hi m" "rm_rtoMax m = rtoMax"
    using fold_measured [of "snd (setNewRTT ?m r)" lo hi rs] first new assms r by (simp_all add: m_def)
  moreover have "0 \<le> rm_rto m" using calculation(1) by (simp add: measured_def rtoMin_def)
  then have "rm_rto m * 2 ^ n \<le> rm_rto m * 2 ^ Suc n" by simp
  ultimately show ?thesis
    unfolding m_def [symmetric] Let_def by (auto simp: measured_def getRTO_def calculateNextTimeout_def min_def)
qed

theorem rto_bounds_witness:
  "let m = foldl (\<lambda>m r. snd (setNewRTT m r)) (newRTOManager 60000) [100, 300] in
    100 \<le> rm_srtt m \<and> rm_srtt m \<le> 300 \<and> rm_rttvar m \<le> 300 \<and> rtoMin \<le> getRTO m \<and> getRTO m \<le> 60000 \<and>
    calculateNextTimeout (getRTO m) 3 60000 \<le> calculateNextTimeout (getRTO m) (Suc 3) 60000 \<and>
    calculateNextTimeout (getRTO m) (Suc 3) 60000 \<le> 60000"
  by (rule rto_bounds) (simp_all add: rtoMin_def)

end
