(* ===== verification/Transport_Deadline.thy ===== *)
theory Transport_Deadline
  imports Sctp_Timer
begin

text \<open>
  \<^verbatim>\<open>transport/deadline/deadline.go\<close>: a deadline that can be moved, with a channel that is closed when it
  is exceeded. Channels are numbers; the number for a channel that \<^verbatim>\<open>Set\<close> may have to make is an argument.
  An operation returns the channel that it closes, if any; \<^verbatim>\<open>timeout\<close> closes it after it has released
  the mutex. Times are rational numbers and \<open>None\<close> is the zero \<^verbatim>\<open>time.Time\<close>.
\<close>

section \<open>The deadline\<close>

datatype deadlineState = DeadlineStopped | DeadlineStarted | DeadlineExceeded

record Deadline =
  dl_timer :: "goTimer option"
  dl_done :: nat
  dl_deadline :: "rat option"
  dl_state :: deadlineState
  dl_pending :: u8

definition Deadline_New :: "nat \<Rightarrow> Deadline" where
  "Deadline_New done' =
     \<lparr>dl_timer = None, dl_done = done', dl_deadline = None, dl_state = DeadlineStopped, dl_pending = 0\<rparr>"

definition Deadline_timeout :: "Deadline \<Rightarrow> nat option \<times> Deadline" where
  "Deadline_timeout d =
     (let d = d\<lparr>dl_pending := dl_pending d - 1\<rparr>
      in if dl_pending d \<noteq> 0 \<or> dl_state d \<noteq> DeadlineStarted then (None, d)
         else (Some (dl_done d), d\<lparr>dl_state := DeadlineExceeded\<rparr>))"

definition stop_timer :: "Deadline \<Rightarrow> bool \<times> Deadline" where
  "stop_timer d =
     (case dl_timer d of
        None \<Rightarrow> (False, d)
      | Some g \<Rightarrow> (case goTimer_Stop g of (stopped, g) \<Rightarrow> (stopped, d\<lparr>dl_timer := Some g\<rparr>)))"

definition Deadline_Set :: "nat \<Rightarrow> rat \<Rightarrow> Deadline \<Rightarrow> rat option \<Rightarrow> nat option \<times> Deadline" where
  "Deadline_Set fresh now d setTo =
     (let d = (if dl_state d = DeadlineStarted then
                 case stop_timer d of (stopped, d) \<Rightarrow>
                   if stopped then d\<lparr>dl_pending := dl_pending d - 1\<rparr> else d
               else d);
          d = d\<lparr>dl_deadline := setTo\<rparr>;
          d = d\<lparr>dl_pending := dl_pending d + 1\<rparr>;
          d = (if dl_state d = DeadlineExceeded then d\<lparr>dl_done := fresh\<rparr> else d)
      in case setTo of
           None \<Rightarrow> (None, d\<lparr>dl_pending := dl_pending d - 1, dl_state := DeadlineStopped\<rparr>)
         | Some t \<Rightarrow>
             let dur = t - now
             in if dur > 0 then
                  let d = d\<lparr>dl_state := DeadlineStarted\<rparr>
                  in (None, case dl_timer d of
                        None \<Rightarrow> d\<lparr>dl_timer := Some (goTimer_Reset stoppedTimer dur)\<rparr>
                      | Some g \<Rightarrow> d\<lparr>dl_timer := Some (goTimer_Reset g dur)\<rparr>)
                else (Some (dl_done d), d\<lparr>dl_pending := dl_pending d - 1, dl_state := DeadlineExceeded\<rparr>))"

definition Deadline_Done :: "Deadline \<Rightarrow> nat" where
  "Deadline_Done d = dl_done d"

definition Deadline_Err :: "Deadline \<Rightarrow> bool" where
  "Deadline_Err d \<longleftrightarrow> dl_state d = DeadlineExceeded"

definition Deadline_Deadline :: "Deadline \<Rightarrow> rat option \<times> bool" where
  "Deadline_Deadline d = (if dl_deadline d = None then (dl_deadline d, False) else (dl_deadline d, True))"

section \<open>Runs\<close>

text \<open>
  A run of a deadline with the run time: calls of \<^verbatim>\<open>Set\<close>, expiries of the timer and launched calls that
  take the mutex. \<open>dw_closed\<close> collects the channels closed so far, with repetitions.
\<close>

record deadline_world =
  dw_deadline :: Deadline
  dw_next :: nat
  dw_closed :: "nat list"

datatype deadline_op = DlSet rat "rat option" | DlExpire | DlRun

definition dw_init :: deadline_world where
  "dw_init = \<lparr>dw_deadline = Deadline_New 0, dw_next = 1, dw_closed = []\<rparr>"

definition close_channel :: "nat option \<Rightarrow> nat list \<Rightarrow> nat list" where
  "close_channel c cs = (case c of None \<Rightarrow> cs | Some x \<Rightarrow> x # cs)"

fun dw_step :: "deadline_world \<Rightarrow> deadline_op \<Rightarrow> deadline_world" where
  "dw_step w (DlSet now setTo) =
     (case Deadline_Set (dw_next w) now (dw_deadline w) setTo of (c, d) \<Rightarrow>
        w\<lparr>dw_deadline := d, dw_next := dw_next w + 1, dw_closed := close_channel c (dw_closed w)\<rparr>)"
| "dw_step w DlExpire =
     w\<lparr>dw_deadline := (dw_deadline w)\<lparr>dl_timer := map_option goTimer_expire (dl_timer (dw_deadline w))\<rparr>\<rparr>"
| "dw_step w DlRun =
     (case dl_timer (dw_deadline w) of
        None \<Rightarrow> w
      | Some g \<Rightarrow>
          if gt_fired g = 0 then w
          else case Deadline_timeout ((dw_deadline w)\<lparr>dl_timer := Some (g\<lparr>gt_fired := gt_fired g - 1\<rparr>)\<rparr>) of (c, d) \<Rightarrow>
            w\<lparr>dw_deadline := d, dw_closed := close_channel c (dw_closed w)\<rparr>)"

definition calls :: "Deadline \<Rightarrow> nat" where
  "calls d = (case dl_timer d of None \<Rightarrow> 0 | Some g \<Rightarrow> gt_fired g + armed g)"

definition is_armed :: "Deadline \<Rightarrow> bool" where
  "is_armed d = (case dl_timer d of None \<Rightarrow> False | Some g \<Rightarrow> gt_armed g \<noteq> None)"

definition dw_inv :: "deadline_world \<Rightarrow> bool" where
  "dw_inv w \<longleftrightarrow>
     (let d = dw_deadline w
      in dl_pending d = of_nat (calls d) \<and> (is_armed d \<longrightarrow> dl_state d = DeadlineStarted) \<and>
         (dl_state d = DeadlineStarted \<longrightarrow> 0 < calls d) \<and>
         (dl_state d = DeadlineExceeded \<longleftrightarrow> dl_done d \<in> set (dw_closed w)) \<and>
         distinct (dw_closed w) \<and> dl_done d < dw_next w \<and> (\<forall>c \<in> set (dw_closed w). c < dw_next w))"

definition fired :: "deadline_world \<Rightarrow> nat" where
  "fired w = (case dl_timer (dw_deadline w) of None \<Rightarrow> 0 | Some g \<Rightarrow> gt_fired g)"

lemmas deadline_defs = Deadline_Set_def stop_timer_def Deadline_timeout_def goTimer_Reset_def goTimer_Stop_def
  goTimer_expire_def stoppedTimer_def close_channel_def calls_def is_armed_def armed_def fired_def Let_def

lemma dw_step_set_inv:
  assumes "dw_inv w"
  shows "dw_inv (dw_step w (DlSet now setTo))"
proof -
  let ?d = "dw_deadline w"
  have fresh: "dw_next w \<notin> set (dw_closed w)" using assms by (auto simp: dw_inv_def Let_def)
  show ?thesis
  proof (cases "dl_timer ?d")
    case None
    then show ?thesis using assms fresh
      by (cases setTo; cases "dl_state ?d") (auto simp: dw_inv_def deadline_defs)
  next
    case (Some g)
    then show ?thesis using assms fresh
      by (cases setTo; cases "dl_state ?d"; cases "gt_armed g") (auto simp: dw_inv_def deadline_defs)
  qed
qed

lemma dw_step_inv:
  assumes inv: "dw_inv w" and few: "fired w < 255"
  shows "dw_inv (dw_step w x)"
proof (cases x)
  case DlExpire
  then show ?thesis using inv by (auto simp: dw_inv_def deadline_defs split: option.splits)
next
  case DlRun
  show ?thesis
  proof (cases "fired w = 0")
    case False
    then obtain g where g: "dl_timer (dw_deadline w) = Some g" "gt_fired g \<noteq> 0" by (auto simp: fired_def split: option.splits)
    let ?n = "gt_fired g - 1 + armed g"
    have p: "dl_pending (dw_deadline w) - 1 = of_nat ?n"
      using inv g by (cases "gt_fired g") (simp_all add: dw_inv_def calls_def Let_def)
    have "?n < 256" using few g by (auto simp: armed_def fired_def)
    then have "dl_pending (dw_deadline w) - 1 = 0 \<longleftrightarrow> ?n = 0" unfolding p using u8_zero by fastforce
    then show ?thesis using inv g p DlRun
      by (cases "gt_armed g"; cases "dl_state (dw_deadline w)") (auto simp: dw_inv_def deadline_defs)
  qed (use inv DlRun in \<open>auto simp: fired_def split: option.splits\<close>)
qed (use dw_step_set_inv [OF inv] in simp)

lemma dw_step_fired: "fired (dw_step w x) \<le> fired w + 1"
  by (cases x) (auto simp: deadline_defs split: option.splits prod.splits)

lemma dw_run_inv:
  "dw_inv w \<Longrightarrow> fired w + length xs < 256 \<Longrightarrow> dw_inv (foldl dw_step w xs)"
proof (induction xs arbitrary: w)
  case (Cons x xs)
  have "dw_inv (dw_step w x)" using Cons.prems by (intro dw_step_inv) simp_all
  moreover have "fired (dw_step w x) + length xs < 256" using Cons.prems(2) dw_step_fired [of w x] by simp
  ultimately show ?case using Cons.IH by simp
qed simp



end
