(* ===== verification/Sctp_Stream.thy ===== *)
theory Sctp_Stream
  imports Sctp_SendQueues Sctp_Reassembly_Laws Transport_Deadline
begin

text \<open>
  \<^verbatim>\<open>sctp/stream.go\<close>. A stream's methods are functions of its record; the parts of \<^verbatim>\<open>WriteSCTP\<close> and
  \<^verbatim>\<open>Close\<close> that enter the association are in the theories of the association.

  The condition variable \<^verbatim>\<open>readNotifier\<close> is the number of readers that wait (\<open>sm_waiting\<close>) and the number
  of readers that were woken but have not yet taken the lock (\<open>sm_woken\<close>). The goroutine that
  \<^verbatim>\<open>SetReadDeadline\<close> starts has two steps of its own: the check of its cancel channel after the timer has
  expired, and its critical section.
\<close>

section \<open>The stream\<close>

definition ReliabilityTypeReliable :: u8 where "ReliabilityTypeReliable = 0"
definition ReliabilityTypeRexmit :: u8 where "ReliabilityTypeRexmit = 1"
definition ReliabilityTypeTimed :: u8 where "ReliabilityTypeTimed = 2"

definition PayloadTypeWebRTCDCEP :: u32 where "PayloadTypeWebRTCDCEP = 50"

datatype StreamState = StreamStateOpen | StreamStateClosing | StreamStateClosed

definition StreamState_String :: "StreamState \<Rightarrow> string" where
  "StreamState_String ss =
     (case ss of StreamStateOpen \<Rightarrow> ''open'' | StreamStateClosing \<Rightarrow> ''closing'' | StreamStateClosed \<Rightarrow> ''closed'')"

record Stream =
  sm_streamIdentifier :: u16
  sm_defaultPayloadType :: u32
  sm_reassemblyQueue :: reassemblyQueue
  sm_sequenceNumber :: u16
  sm_waiting :: nat
  sm_woken :: nat
  sm_readErr :: "sctp_err option"
  sm_readTimeoutCancel :: "nat option"
  sm_nextCancel :: nat
  sm_closedCancels :: "nat list"
  sm_writeDeadline :: Deadline
  sm_unordered :: bool
  sm_reliabilityType :: u8
  sm_reliabilityValue :: u32
  sm_bufferedAmount :: u64
  sm_bufferedAmountLow :: u64
  sm_onBufferedAmountLow :: bool
  sm_state :: StreamState

definition StreamIdentifier :: "Stream \<Rightarrow> u16" where
  "StreamIdentifier s = sm_streamIdentifier s"

definition SetDefaultPayloadType :: "Stream \<Rightarrow> u32 \<Rightarrow> Stream" where
  "SetDefaultPayloadType s defaultPayloadType = s\<lparr>sm_defaultPayloadType := defaultPayloadType\<rparr>"

definition setReliabilityParams :: "Stream \<Rightarrow> bool \<Rightarrow> u8 \<Rightarrow> u32 \<Rightarrow> Stream" where
  "setReliabilityParams s unordered relType relVal =
     s\<lparr>sm_unordered := unordered, sm_reliabilityType := relType, sm_reliabilityValue := relVal\<rparr>"

definition SetReliabilityParams :: "Stream \<Rightarrow> bool \<Rightarrow> u8 \<Rightarrow> u32 \<Rightarrow> Stream" where
  "SetReliabilityParams s unordered relType relVal = setReliabilityParams s unordered relType relVal"

section \<open>Reading\<close>

text \<open>\<^verbatim>\<open>sync.Cond\<close>: \<^verbatim>\<open>Signal\<close> wakes one waiting reader, \<^verbatim>\<open>Broadcast\<close> all of them.\<close>

definition Cond_Signal :: "Stream \<Rightarrow> Stream" where
  "Cond_Signal s =
     (if sm_waiting s = 0 then s else s\<lparr>sm_waiting := sm_waiting s - 1, sm_woken := sm_woken s + 1\<rparr>)"

definition Cond_Broadcast :: "Stream \<Rightarrow> Stream" where
  "Cond_Broadcast s = s\<lparr>sm_waiting := 0, sm_woken := sm_woken s + sm_waiting s\<rparr>"

text \<open>\<^verbatim>\<open>close(s.readTimeoutCancel); s.readTimeoutCancel = nil\<close>\<close>

definition cancel_read_timeout :: "Stream \<Rightarrow> Stream" where
  "cancel_read_timeout s =
     (case sm_readTimeoutCancel s of
        None \<Rightarrow> s
      | Some ch \<Rightarrow> s\<lparr>sm_closedCancels := ch # sm_closedCancels s, sm_readTimeoutCancel := None\<rparr>)"

text \<open>
  The deferred function and one pass of the loop of \<^verbatim>\<open>ReadSCTP\<close>: the count, the payload protocol
  identifier, the error and the buffer, or \<open>None\<close> when the reader goes to wait.
\<close>

definition read_defer :: "Stream \<Rightarrow> Stream" where
  "read_defer s = (if sm_readTimeoutCancel s \<noteq> None \<and> sm_readErr s \<noteq> None then cancel_read_timeout s else s)"

definition ReadSCTP :: "Stream \<Rightarrow> bytes \<Rightarrow> (nat \<times> u32 \<times> sctp_err option \<times> bytes) option \<times> Stream" where
  "ReadSCTP s payload =
     (case reassemblyQueue_read (sm_reassemblyQueue s) payload of (r, q) \<Rightarrow>
        let s = s\<lparr>sm_reassemblyQueue := q\<rparr>
        in if rd_err r = None \<or> rd_err r = Some ErrShortBuffer
           then (Some (rd_n r, rd_ppi r, map_option AssocE (rd_err r), rd_buf r), read_defer s)
           else case sm_readErr s of
             Some e \<Rightarrow> (Some (0, 0, Some e, rd_buf r), read_defer s)
           | None \<Rightarrow> (None, s\<lparr>sm_waiting := sm_waiting s + 1\<rparr>))"

definition Read :: "Stream \<Rightarrow> bytes \<Rightarrow> (nat \<times> sctp_err option \<times> bytes) option \<times> Stream" where
  "Read s p = (case ReadSCTP s p of (r, s) \<Rightarrow> (map_option (\<lambda>(n, _, err, buf). (n, err, buf)) r, s))"

text \<open>A woken reader takes the lock and runs the loop again.\<close>

definition resume_read :: "Stream \<Rightarrow> bytes \<Rightarrow> (nat \<times> u32 \<times> sctp_err option \<times> bytes) option \<times> Stream" where
  "resume_read s payload = ReadSCTP (s\<lparr>sm_woken := sm_woken s - 1\<rparr>) payload"

definition SetReadDeadline :: "Stream \<Rightarrow> rat option \<Rightarrow> Stream" where
  "SetReadDeadline s deadline =
     (let s = (if sm_readTimeoutCancel s \<noteq> None then cancel_read_timeout s else s);
          start = (\<lambda>s. if deadline = None then s
                       else s\<lparr>sm_readTimeoutCancel := Some (sm_nextCancel s), sm_nextCancel := sm_nextCancel s + 1\<rparr>)
      in case sm_readErr s of
           Some e \<Rightarrow> if e \<noteq> AssocE ErrReadDeadlineExceeded then s else start (s\<lparr>sm_readErr := None\<rparr>)
         | None \<Rightarrow> start s)"

text \<open>The goroutine of \<^verbatim>\<open>SetReadDeadline\<close>, after its timer: the inner \<^verbatim>\<open>select\<close>, and the critical section.\<close>

definition read_timeout_passes :: "Stream \<Rightarrow> nat \<Rightarrow> bool" where
  "read_timeout_passes s readTimeoutCancel \<longleftrightarrow> readTimeoutCancel \<notin> set (sm_closedCancels s)"

definition read_timeout :: "Stream \<Rightarrow> Stream" where
  "read_timeout s =
     (let s = (if sm_readErr s = None then s\<lparr>sm_readErr := Some (AssocE ErrReadDeadlineExceeded)\<rparr> else s);
          s = s\<lparr>sm_readTimeoutCancel := None\<rparr>
      in Cond_Signal s)"

definition Stream_handleData :: "Stream \<Rightarrow> chunkPayloadData \<Rightarrow> (sctp_err, Stream) res" where
  "Stream_handleData s pd =
     bind_res (reassemblyQueue_push (sm_reassemblyQueue s) pd) (\<lambda>(complete, q).
       let s = s\<lparr>sm_reassemblyQueue := q\<rparr>
       in if complete then
            let readable = reassemblyQueue_isReadable (sm_reassemblyQueue s)
            in if readable then ok (Cond_Signal s) else ok s
          else ok s)"

definition handleForwardTSNForOrdered :: "Stream \<Rightarrow> u16 \<Rightarrow> Stream" where
  "handleForwardTSNForOrdered s ssn =
     (let (readable, s) =
        (if sm_unordered s then (False, s)
         else let s = s\<lparr>sm_reassemblyQueue := forwardTSNForOrdered (sm_reassemblyQueue s) ssn\<rparr>
              in (reassemblyQueue_isReadable (sm_reassemblyQueue s), s))
      in if readable then Cond_Signal s else s)"

definition handleForwardTSNForUnordered :: "Stream \<Rightarrow> u32 \<Rightarrow> Stream" where
  "handleForwardTSNForUnordered s newCumulativeTSN =
     (let (readable, s) =
        (if \<not> sm_unordered s then (False, s)
         else let s = s\<lparr>sm_reassemblyQueue := forwardTSNForUnordered (sm_reassemblyQueue s) newCumulativeTSN\<rparr>
              in (reassemblyQueue_isReadable (sm_reassemblyQueue s), s))
      in if readable then Cond_Signal s else s)"

section \<open>Writing\<close>

text \<open>
  The loop of \<^verbatim>\<open>packetize\<close>: new chunks get the addresses from \<open>free\<close> on. The loop does not end if the
  maximal payload size is 0.
\<close>

definition min32 :: "u32 \<Rightarrow> u32 \<Rightarrow> u32" where
  "min32 a b = (if a < b then a else b)"

partial_function (option) packetize_loop ::
  "u32 \<Rightarrow> Stream \<Rightarrow> u32 \<Rightarrow> bool \<Rightarrow> bytes \<Rightarrow> u32 \<Rightarrow> u32 \<Rightarrow> addr \<Rightarrow> store \<Rightarrow> addr \<Rightarrow> addr list \<Rightarrow>
    (sctp_err, addr list \<times> store \<times> addr) res option" where
  "packetize_loop maxPayloadSize s ppi unordered raw offset remaining head st free chunks =
     (if remaining \<noteq> 0 then
        let fragmentSize = min32 maxPayloadSize remaining
        in case slice_range raw (unat offset) (unat (offset + fragmentSize)) of
             Inl e \<Rightarrow> Some (Inl e)
           | Inr userData \<Rightarrow>
               let chunk = zero_payload\<lparr>pd_streamIdentifier := sm_streamIdentifier s, pd_userData := userData,
                     pd_unordered := unordered, pd_beginningFragment := (offset = 0),
                     pd_endingFragment := (remaining - fragmentSize = 0), pd_immediateSack := False,
                     pd_payloadType := ppi, pd_streamSequenceNumber := sm_sequenceNumber s, pd_head := head\<rparr>
               in packetize_loop maxPayloadSize s ppi unordered raw (offset + fragmentSize) (remaining - fragmentSize)
                    (if head = nil then free else head) (st(free \<mapsto> chunk)) (free + 1) (chunks @ [free])
      else Some (Inr (chunks, st, free)))"

text \<open>\<^verbatim>\<open>packetize\<close>: the addresses of the chunks and whether they are unordered; \<open>None\<close> if it does not return.\<close>

definition packetize ::
  "u32 \<Rightarrow> Stream \<Rightarrow> bytes \<Rightarrow> u32 \<Rightarrow> store \<Rightarrow> addr \<Rightarrow> (sctp_err, addr list \<times> bool \<times> Stream \<times> store \<times> addr) res option" where
  "packetize maxPayloadSize s raw ppi st free =
     (let unordered = (ppi \<noteq> PayloadTypeWebRTCDCEP \<and> sm_unordered s)
      in case packetize_loop maxPayloadSize s ppi unordered raw 0 (of_nat (length raw)) nil st free [] of
           None \<Rightarrow> None
         | Some (Inl e) \<Rightarrow> Some (Inl e)
         | Some (Inr (chunks, st, free)) \<Rightarrow>
             let s = (if \<not> unordered then s\<lparr>sm_sequenceNumber := sm_sequenceNumber s + 1\<rparr> else s);
                 s = s\<lparr>sm_bufferedAmount := sm_bufferedAmount s + of_nat (length raw)\<rparr>
             in Some (Inr (chunks, unordered, s, st, free)))"

text \<open>What \<^verbatim>\<open>WriteSCTP\<close> takes back when the association refuses the chunks.\<close>

definition undo_write :: "Stream \<Rightarrow> nat \<Rightarrow> bool \<Rightarrow> Stream" where
  "undo_write s n unordered =
     (let s = s\<lparr>sm_bufferedAmount := sm_bufferedAmount s - of_nat n\<rparr>
      in if \<not> unordered then s\<lparr>sm_sequenceNumber := sm_sequenceNumber s - 1\<rparr> else s)"

definition SetWriteDeadline :: "nat \<Rightarrow> rat \<Rightarrow> Stream \<Rightarrow> rat option \<Rightarrow> nat option \<times> Stream" where
  "SetWriteDeadline fresh now s deadline =
     (case Deadline_Set fresh now (sm_writeDeadline s) deadline of (c, d) \<Rightarrow> (c, s\<lparr>sm_writeDeadline := d\<rparr>))"

definition SetDeadline :: "nat \<Rightarrow> rat \<Rightarrow> Stream \<Rightarrow> rat option \<Rightarrow> nat option \<times> Stream" where
  "SetDeadline fresh now s t = SetWriteDeadline fresh now (SetReadDeadline s t) t"

section \<open>Closing and buffering\<close>

text \<open>The locked part of \<^verbatim>\<open>Close\<close>: the stream identifier and whether the outgoing stream is to be reset.\<close>

definition close_state :: "Stream \<Rightarrow> u16 \<times> bool \<times> Stream" where
  "close_state s =
     (if sm_state s = StreamStateOpen then
        let s = (if sm_readErr s = None then s\<lparr>sm_state := StreamStateClosing\<rparr>
                 else s\<lparr>sm_state := StreamStateClosed\<rparr>)
        in (sm_streamIdentifier s, True, s)
      else (sm_streamIdentifier s, False, s))"

definition BufferedAmount :: "Stream \<Rightarrow> u64" where
  "BufferedAmount s = sm_bufferedAmount s"

definition BufferedAmountLowThreshold :: "Stream \<Rightarrow> u64" where
  "BufferedAmountLowThreshold s = sm_bufferedAmountLow s"

definition SetBufferedAmountLowThreshold :: "Stream \<Rightarrow> u64 \<Rightarrow> Stream" where
  "SetBufferedAmountLowThreshold s th = s\<lparr>sm_bufferedAmountLow := th\<rparr>"

definition OnBufferedAmountLow :: "Stream \<Rightarrow> bool \<Rightarrow> Stream" where
  "OnBufferedAmountLow s f = s\<lparr>sm_onBufferedAmountLow := f\<rparr>"

text \<open>\<^verbatim>\<open>onBufferReleased\<close> returns whether it calls the handler.\<close>

definition onBufferReleased :: "Stream \<Rightarrow> int \<Rightarrow> bool \<times> Stream" where
  "onBufferReleased s nBytesReleased =
     (if nBytesReleased \<le> 0 then (False, s)
      else let fromAmount = sm_bufferedAmount s;
               s = (if sm_bufferedAmount s < of_int nBytesReleased then s\<lparr>sm_bufferedAmount := 0\<rparr>
                    else s\<lparr>sm_bufferedAmount := sm_bufferedAmount s - of_int nBytesReleased\<rparr>)
           in (sm_onBufferedAmountLow s \<and> fromAmount > sm_bufferedAmountLow s \<and>
                 sm_bufferedAmount s \<le> sm_bufferedAmountLow s, s))"

definition getNumBytesInReassemblyQueue :: "Stream \<Rightarrow> int" where
  "getNumBytesInReassemblyQueue s = reassemblyQueue_getNumBytes (sm_reassemblyQueue s)"

definition onInboundStreamReset :: "Stream \<Rightarrow> Stream" where
  "onInboundStreamReset s =
     (let s = s\<lparr>sm_readErr := Some (AssocE ErrEOF)\<rparr>;
          s = Cond_Broadcast s
      in if sm_state s = StreamStateClosing then s\<lparr>sm_state := StreamStateClosed\<rparr> else s)"

definition Stream_State :: "Stream \<Rightarrow> StreamState" where
  "Stream_State s = sm_state s"

text \<open>The stream that \<^verbatim>\<open>createStream\<close> of association.go makes.\<close>

definition new_stream :: "u16 \<Rightarrow> Stream" where
  "new_stream streamIdentifier =
     \<lparr>sm_streamIdentifier = streamIdentifier, sm_defaultPayloadType = 0,
      sm_reassemblyQueue = newReassemblyQueue streamIdentifier, sm_sequenceNumber = 0, sm_waiting = 0, sm_woken = 0,
      sm_readErr = None, sm_readTimeoutCancel = None, sm_nextCancel = 0, sm_closedCancels = [],
      sm_writeDeadline = Deadline_New 0, sm_unordered = False, sm_reliabilityType = 0, sm_reliabilityValue = 0,
      sm_bufferedAmount = 0, sm_bufferedAmountLow = 0, sm_onBufferedAmountLow = False, sm_state = StreamStateOpen\<rparr>"

end
