(* ===== verification/Sctp_Reassembly_Order.thy ===== *)
theory Sctp_Reassembly_Order
  imports Sctp_Reassembly_Laws
begin

text \<open>
  Ordered delivery. The messages of an ordered stream, fragmented by the sender, arrive fragment by
  fragment in any order; the queue delivers them in the order of their sequence numbers, across the
  wrap-around of the 16-bit number, and skips what a FORWARD TSN abandons.
\<close>

section \<open>Messages of a stream\<close>

text \<open>The fragments of the message with number \<open>k\<close> of an ordered stream.\<close>

definition message_ok :: "u16 \<Rightarrow> nat \<Rightarrow> chunkPayloadData list \<Rightarrow> bool" where
  "message_ok si k m \<longleftrightarrow> m \<noteq> [] \<and> length m < 2 ^ 31 \<and>
     (\<forall>i < length m. pd_streamIdentifier (m ! i) = si \<and> \<not> pd_unordered (m ! i) \<and>
        pd_streamSequenceNumber (m ! i) = of_nat k \<and> pd_tsn (m ! i) = pd_tsn (m ! 0) + of_nat i \<and>
        pd_beginningFragment (m ! i) = (i = 0) \<and> pd_endingFragment (m ! i) = (i = length m - 1) \<and>
        pd_payloadType (m ! i) = pd_payloadType (m ! 0) \<and> pd_head (m ! i) = nil)"

lemma message_ok_D:
  assumes "message_ok si k m"
  shows "m \<noteq> []" "length m < 2 ^ 31"
    "\<And>i. i < length m \<Longrightarrow> pd_streamIdentifier (m ! i) = si" "\<And>i. i < length m \<Longrightarrow> \<not> pd_unordered (m ! i)"
    "\<And>i. i < length m \<Longrightarrow> pd_streamSequenceNumber (m ! i) = of_nat k"
    "\<And>i. i < length m \<Longrightarrow> pd_tsn (m ! i) = pd_tsn (m ! 0) + of_nat i"
    "\<And>i. i < length m \<Longrightarrow> pd_beginningFragment (m ! i) = (i = 0)"
    "\<And>i. i < length m \<Longrightarrow> pd_endingFragment (m ! i) = (i = length m - 1)"
    "\<And>i. i < length m \<Longrightarrow> pd_payloadType (m ! i) = pd_payloadType (m ! 0)"
    "\<And>i. i < length m \<Longrightarrow> pd_head (m ! i) = nil"
  using assms unfolding message_ok_def by blast+

lemma message_fragmented:
  "message_ok si k m \<Longrightarrow> i < length m \<Longrightarrow> isFragmented (m ! i) \<longleftrightarrow> 1 < length m"
  by (auto simp: isFragmented_def message_ok_D(7,8,10))

lemma message_tsn_inj:
  assumes "message_ok si k m" "i < length m" "j < length m"
  shows "pd_tsn (m ! i) = pd_tsn (m ! j) \<longleftrightarrow> i = j"
proof -
  have "i < 2 ^ LENGTH(32)" "j < 2 ^ LENGTH(32)" using assms(2,3) message_ok_D(2) [OF assms(1)] by simp_all
  from of_nat_word_inj [OF this] show ?thesis
    using message_ok_D(6) [OF assms(1,2)] message_ok_D(6) [OF assms(1,3)] by simp
qed

lemma message_sort:
  assumes m: "message_ok si k m" and js: "distinct js" "\<And>j. j \<in> set js \<Longrightarrow> j < length m"
  shows "sortChunksByTSN (map (nth m) js) = map (nth m) (sorted_list_of_set (set js))"
proof -
  define f where "f c = unat (pd_tsn c - pd_tsn (m ! 0))" for c :: chunkPayloadData
  have f: "f (m ! j) = j" if "j < length m" for j
    using message_ok_D(6) [OF m that] message_ok_D(2) [OF m] that by (simp add: f_def unat_of_nat_small)
  have lt: "sna32LT (pd_tsn x) (pd_tsn y) \<longleftrightarrow> f x < f y" if xy: "x \<in> set (map (nth m) js)" "y \<in> set (map (nth m) js)" for x y
  proof -
    obtain i j where ij: "x = m ! i" "y = m ! j" "i < length m" "j < length m" using xy js(2) by auto
    have "i < 2 ^ (LENGTH(32) - 1)" "j < 2 ^ (LENGTH(32) - 1)" using ij message_ok_D(2) [OF m] by simp_all
    from sna32.lt_window [OF this, of "pd_tsn (m ! 0)"] show ?thesis
      using ij f message_ok_D(6) [OF m] by simp
  qed
  have "map f (map (nth m) (sorted_list_of_set (set js))) = sorted_list_of_set (set js)"
    using js(2) f by (auto intro!: map_idI)
  moreover have "mset (map (nth m) (sorted_list_of_set (set js))) = mset (map (nth m) js)"
    using js(1) by (simp add: sorted_list_of_set_sort_remdups distinct_remdups_id)
  ultimately have "sort_key f (map (nth m) js) = map (nth m) (sorted_list_of_set (set js))"
    by (intro sort_key_unique) simp_all
  then show ?thesis unfolding sortChunksByTSN_def by (subst sortSlice_key [of _ _ f]) (use lt in simp_all)
qed

lemma all_nat_split: "(\<forall>j. Q j) \<longleftrightarrow> Q 0 \<and> (\<forall>j. Q (Suc j))"
  by (metis not0_implies_Suc)

lemma sequential_Suc:
  "sequential (Suc i) l cs \<longleftrightarrow> (cs \<noteq> [] \<longrightarrow> pd_tsn (cs ! 0) = l + 1) \<and>
     (\<forall>j. Suc j < length cs \<longrightarrow> pd_tsn (cs ! Suc j) = pd_tsn (cs ! j) + 1)"
proof (induction cs arbitrary: i l)
  case (Cons c cs)
  show ?case by (subst all_nat_split) (simp add: Cons.IH)
qed simp

lemma sequential_0:
  "sequential 0 l cs \<longleftrightarrow> (\<forall>j. Suc j < length cs \<longrightarrow> pd_tsn (cs ! Suc j) = pd_tsn (cs ! j) + 1)"
proof (cases cs)
  case (Cons c ds)
  show ?thesis unfolding Cons by (subst all_nat_split) (simp add: sequential_Suc [of 0 "pd_tsn c" ds])
qed simp

lemma message_tsn_Suc:
  assumes "message_ok si k m" "i < length m" "j < length m"
  shows "pd_tsn (m ! j) = pd_tsn (m ! i) + 1 \<longleftrightarrow> j = Suc i"
proof -
  have "Suc i < 2 ^ LENGTH(32)" "j < 2 ^ LENGTH(32)" using assms(2,3) message_ok_D(2) [OF assms(1)] by simp_all
  note inj = of_nat_word_inj [OF this]
  have "pd_tsn (m ! i) + 1 = pd_tsn (m ! 0) + of_nat (Suc i)"
    by (subst message_ok_D(6) [OF assms(1,2)]) (simp add: add.assoc add.commute [of _ 1])
  moreover note message_ok_D(6) [OF assms(1,3)]
  ultimately show ?thesis using inj by (metis add_left_cancel)
qed

lemma message_whole:
  assumes m: "message_ok si k m"
  shows "complete_chunks m"
proof -
  have "pd_tsn (m ! Suc j) = pd_tsn (m ! j) + 1" if "Suc j < length m" for j
    using message_tsn_Suc [OF m, of j "Suc j"] that by simp
  then show ?thesis using message_ok_D(1) [OF m] message_ok_D(7,8) [OF m]
    by (simp add: complete_chunks_def sequential_0 hd_conv_nth last_conv_nth)
qed

lemma message_complete:
  assumes m: "message_ok si k m" and I: "I \<subseteq> {..<length m}"
  shows "complete_chunks (map (nth m) (sorted_list_of_set I)) \<longleftrightarrow> I = {..<length m}"
proof
  assume "I = {..<length m}"
  then have "sorted_list_of_set I = [0..<length m]" by (simp add: lessThan_atLeast0)
  then show "complete_chunks (map (nth m) (sorted_list_of_set I))" using message_whole [OF m] by (simp add: map_nth)
next
  define ix where "ix = sorted_list_of_set I"
  have fin: "finite I" using I finite_subset by blast
  have I_eq: "set ix = I" using fin by (simp add: ix_def)
  have range: "ix ! j < length m" if "j < length ix" for j using I I_eq nth_mem [OF that] by auto
  assume "complete_chunks (map (nth m) (sorted_list_of_set I))"
  then have c: "ix \<noteq> []" "pd_beginningFragment (m ! (ix ! 0))" "pd_endingFragment (m ! (ix ! (length ix - 1)))"
    "\<And>j. Suc j < length ix \<Longrightarrow> pd_tsn (m ! (ix ! Suc j)) = pd_tsn (m ! (ix ! j)) + 1"
    unfolding ix_def [symmetric] complete_chunks_def sequential_0
    by (auto simp: hd_conv_nth last_conv_nth)
  have "ix ! 0 = 0" using c(1,2) message_ok_D(7) [OF m range] by simp
  moreover have "ix ! Suc j = Suc (ix ! j)" if "Suc j < length ix" for j
    using c(4) [OF that] message_tsn_Suc [OF m] range that by simp
  ultimately have id: "ix ! j = j" if "j < length ix" for j
    using that by (induction j) simp_all
  have "ix ! (length ix - 1) = length m - 1" using c(1,3) message_ok_D(8) [OF m range] by simp
  then have "length ix = length m" using id [of "length ix - 1"] c(1) message_ok_D(1) [OF m] by (cases ix; cases m) simp_all
  then have "ix = [0..<length m]" using id by (intro nth_equalityI) simp_all
  then show "I = {..<length m}" using I_eq by (simp add: lessThan_atLeast0)
qed

section \<open>The queue as a set of fragments\<close>

text \<open>
  The contract: the fragments held, as pairs of message number and fragment index, and the number of
  the next message to deliver.
\<close>

type_synonym ord_state = "(nat \<times> nat) set \<times> nat"

definition frags_of :: "(nat \<times> nat) set \<Rightarrow> nat \<Rightarrow> nat set" where
  "frags_of got k = {i. (k, i) \<in> got}"

definition whole :: "(nat \<Rightarrow> chunkPayloadData list) \<Rightarrow> (nat \<times> nat) set \<Rightarrow> nat \<Rightarrow> bool" where
  "whole msgs got k \<longleftrightarrow> frags_of got k = {..<length (msgs k)}"

definition held_set :: "(nat \<Rightarrow> chunkPayloadData list) \<Rightarrow> (nat \<times> nat) set \<Rightarrow> nat \<Rightarrow> chunkSet" where
  "held_set msgs got k = \<lparr>cs_ssn = of_nat k, cs_ppi = pd_payloadType (msgs k ! 0),
     cs_chunks = map (nth (msgs k)) (sorted_list_of_set (frags_of got k))\<rparr>"

text \<open>Message numbers that serial arithmetic can compare.\<close>

definition near :: "nat \<Rightarrow> nat \<Rightarrow> bool" where
  "near a b \<longleftrightarrow> a < b + 2 ^ 15 \<and> b < a + 2 ^ 15"

definition holds :: "u16 \<Rightarrow> (nat \<Rightarrow> chunkPayloadData list) \<Rightarrow> ord_state \<Rightarrow> reassemblyQueue \<Rightarrow> bool" where
  "holds si msgs st r \<longleftrightarrow> (case st of (got, n) \<Rightarrow>
     finite got \<and> (\<forall>(k, i) \<in> got. message_ok si k (msgs k) \<and> i < length (msgs k)) \<and>
     (\<forall>a \<in> insert n (fst ` got). \<forall>b \<in> insert n (fst ` got). near a b) \<and>
     ra_si r = si \<and> ra_unordered r = [] \<and> ra_nextSSN r = of_nat n \<and>
     ra_ordered r = map (held_set msgs got) (sorted_list_of_set (fst ` got)))"

lemma near_serial:
  assumes "near a b"
  shows "sna16LT (of_nat a) (of_nat b) \<longleftrightarrow> a < b" "sna16LTE (of_nat a) (of_nat b) \<longleftrightarrow> a \<le> b"
    "sna16GT (of_nat a) (of_nat b) \<longleftrightarrow> b < a" "(of_nat a :: u16) = of_nat b \<longleftrightarrow> a = b"
proof -
  define c where "c = min a b"
  have "a - c < 2 ^ (LENGTH(16) - 1)" "b - c < 2 ^ (LENGTH(16) - 1)"
    using assms by (auto simp: near_def c_def)
  note w = this
  have eq: "(of_nat a :: u16) = of_nat c + of_nat (a - c)" "(of_nat b :: u16) = of_nat c + of_nat (b - c)"
    by (simp_all add: c_def flip: of_nat_add)
  show "sna16LT (of_nat a) (of_nat b) \<longleftrightarrow> a < b" unfolding eq sna16.lt_window [OF w] by (simp add: c_def) linarith
  show "sna16LTE (of_nat a) (of_nat b) \<longleftrightarrow> a \<le> b" unfolding eq sna16.lte_window [OF w] by (simp add: c_def) linarith
  show "sna16GT (of_nat a) (of_nat b) \<longleftrightarrow> b < a" unfolding eq sna16.gt_window [OF w] by (simp add: c_def) linarith
  have "a - c < 2 ^ LENGTH(16)" "b - c < 2 ^ LENGTH(16)" using w by simp_all
  from of_nat_word_inj [OF this] show "(of_nat a :: u16) = of_nat b \<longleftrightarrow> a = b"
    unfolding eq add_left_cancel by (simp add: c_def) linarith
qed

lemma ssn_sort:
  assumes ks: "distinct ks" "\<And>a b. a \<in> set ks \<Longrightarrow> b \<in> set ks \<Longrightarrow> near a b"
    and G: "\<And>k. k \<in> set ks \<Longrightarrow> cs_ssn (G k) = of_nat k"
  shows "sortChunksBySSN (map G ks) = map G (sorted_list_of_set (set ks))"
proof (cases "ks = []")
  case True
  then show ?thesis by (simp add: sortChunksBySSN_def)
next
  case False
  define lo where "lo = Min (set ks)"
  define f where "f x = unat (cs_ssn x - of_nat lo)" for x :: chunkSet
  have lo: "lo \<in> set ks" "\<And>k. k \<in> set ks \<Longrightarrow> lo \<le> k" using False by (auto simp: lo_def)
  have f: "f (G k) = k - lo" if "k \<in> set ks" for k
  proof -
    have "k - lo < 2 ^ LENGTH(16)" using ks(2) [OF that lo(1)] by (simp add: near_def) linarith
    moreover have "(of_nat k :: u16) - of_nat lo = of_nat (k - lo)" using lo(2) [OF that] by (simp add: of_nat_diff)
    ultimately show ?thesis using G [OF that] by (simp add: f_def unat_of_nat_small del: of_nat_diff)
  qed
  have lt: "sna16LT (cs_ssn x) (cs_ssn y) \<longleftrightarrow> f x < f y" if xy: "x \<in> set (map G ks)" "y \<in> set (map G ks)" for x y
  proof -
    obtain i j where ij: "x = G i" "y = G j" "i \<in> set ks" "j \<in> set ks" using xy by auto
    show ?thesis using near_serial(1) [OF ks(2) [OF ij(3,4)]] ij G f lo(2) by (auto simp: less_diff_iff)
  qed
  have "sorted_wrt (<) (map (f \<circ> G) (sorted_list_of_set (set ks)))"
  proof -
    have "sorted_wrt (\<lambda>a b. (f \<circ> G) a < (f \<circ> G) b) (sorted_list_of_set (set ks))"
      by (rule sorted_wrt_mono_rel [OF _ strict_sorted_list_of_set]) (use f lo(2) in \<open>auto simp: less_diff_iff\<close>)
    then show ?thesis by (simp add: sorted_wrt_map)
  qed
  moreover have "mset (map G (sorted_list_of_set (set ks))) = mset (map G ks)"
    using ks(1) by (simp add: sorted_list_of_set_sort_remdups distinct_remdups_id)
  ultimately have "sort_key f (map G ks) = map G (sorted_list_of_set (set ks))"
    by (intro sort_key_unique) simp_all
  then show ?thesis unfolding sortChunksBySSN_def by (subst sortSlice_key [of _ _ f]) (use lt in simp_all)
qed

lemma holds_D:
  assumes "holds si msgs (got, n) r"
  shows "finite got" "\<And>k i. (k, i) \<in> got \<Longrightarrow> message_ok si k (msgs k)" "\<And>k i. (k, i) \<in> got \<Longrightarrow> i < length (msgs k)"
    "\<And>a b. a \<in> insert n (fst ` got) \<Longrightarrow> b \<in> insert n (fst ` got) \<Longrightarrow> near a b"
    "ra_si r = si" "ra_unordered r = []" "ra_nextSSN r = of_nat n"
    "ra_ordered r = map (held_set msgs got) (sorted_list_of_set (fst ` got))"
  using assms unfolding holds_def by auto

lemma frags_finite [simp]: "finite got \<Longrightarrow> finite (frags_of got k)"
  unfolding frags_of_def by (rule finite_subset [of _ "snd ` got"]) force+

lemma held_complete:
  assumes "holds si msgs (got, n) r" "k \<in> fst ` got"
  shows "isComplete (held_set msgs got k) \<longleftrightarrow> whole msgs got k"
proof -
  obtain i where i: "(k, i) \<in> got" using assms(2) by auto
  have "frags_of got k \<subseteq> {..<length (msgs k)}" using holds_D(3) [OF assms(1)] by (auto simp: frags_of_def)
  from message_complete [OF holds_D(2) [OF assms(1) i] this] show ?thesis
    by (simp add: isComplete_iff held_set_def whole_def)
qed

lemma held_nonempty: "finite got \<Longrightarrow> k \<in> fst ` got \<Longrightarrow> frags_of got k \<noteq> {}"
  by (auto simp: frags_of_def)

lemma frags_insert: "frags_of (insert (k, i) got) a = (if a = k then insert i (frags_of got k) else frags_of got a)"
  by (auto simp: frags_of_def)

lemma held_push:
  assumes fin: "finite got" and m: "message_ok si k (msgs k)" and i: "i < length (msgs k)" "(k, i) \<notin> got"
    and got: "\<And>j. (k, j) \<in> got \<Longrightarrow> j < length (msgs k)"
  shows "chunkSet_push (held_set msgs got k) (msgs k ! i) =
    (isComplete (held_set msgs (insert (k, i) got) k), held_set msgs (insert (k, i) got) k)"
proof -
  let ?js = "sorted_list_of_set (frags_of got k)"
  have js: "set ?js = frags_of got k" "distinct ?js" using fin by simp_all
  have range: "j < length (msgs k)" if "j \<in> set (?js @ [i])" for j
    using that js got i by (auto simp: frags_of_def)
  have ni: "i \<notin> set ?js" using i(2) js(1) by (simp add: frags_of_def)
  have "pd_tsn (msgs k ! i) \<noteq> pd_tsn (msgs k ! j)" if "j \<in> set ?js" for j
    using ni message_tsn_inj [OF m i(1) range, of j] that by auto
  then have "pd_tsn (msgs k ! i) \<notin> pd_tsn ` set (map (nth (msgs k)) ?js)" unfolding set_map by blast
  from chunkSet_push_fresh [of "msgs k ! i" "held_set msgs got k"] this
  have "chunkSet_push (held_set msgs got k) (msgs k ! i) =
    (let s = (held_set msgs got k)\<lparr>cs_chunks := sortChunksByTSN (map (nth (msgs k)) (?js @ [i]))\<rparr> in (isComplete s, s))"
    by (simp add: held_set_def Let_def)
  moreover have "sortChunksByTSN (map (nth (msgs k)) (?js @ [i])) =
      map (nth (msgs k)) (sorted_list_of_set (frags_of (insert (k, i) got) k))"
    using message_sort [OF m, of "?js @ [i]"] js ni range by (simp add: frags_insert)
  ultimately show ?thesis by (simp add: held_set_def Let_def)
qed

text \<open>The search finds the set of message \<open>k\<close> iff a fragment of it is held.\<close>

lemma find_held:
  assumes h: "holds si msgs (got, n) r" and m: "message_ok si k (msgs k)" and k: "\<And>a. a \<in> fst ` got \<Longrightarrow> near a k"
    and i: "i < length (msgs k)" "(k, i) \<notin> got"
  obtains (held) j where "k \<in> fst ` got" "j < length (sorted_list_of_set (fst ` got))" "sorted_list_of_set (fst ` got) ! j = k"
      "(if isFragmented (msgs k ! i) then find_fragmented (of_nat k) 0 (ra_ordered r) else ok None) = ok (Some j)"
  | (new) "k \<notin> fst ` got"
      "(if isFragmented (msgs k ! i) then find_fragmented (of_nat k) 0 (ra_ordered r) else ok None) = ok None"
proof -
  let ?ks = "sorted_list_of_set (fst ` got)"
  have fin: "finite got" by (rule holds_D(1) [OF h])
  then have ks: "set ?ks = fst ` got" "distinct ?ks" by simp_all
  have ne: "cs_chunks cset \<noteq> []" if c: "cset \<in> set (ra_ordered r)" for cset
  proof -
    obtain a where "a \<in> fst ` got" "cset = held_set msgs got a" using c ks(1) by (auto simp: holds_D(8) [OF h])
    then show ?thesis using held_nonempty [OF fin, of a] fin by (simp add: held_set_def)
  qed
  have len: "length (ra_ordered r) = length ?ks" by (simp add: holds_D(8) [OF h])
  obtain res where res: "find_fragmented (of_nat k) 0 (ra_ordered r) = ok res"
    "case res of None \<Rightarrow> \<forall>cset \<in> set (ra_ordered r). \<not> (cs_ssn cset = of_nat k \<and> isFragmented (hd (cs_chunks cset)))
      | Some j \<Rightarrow> j < length ?ks \<and> cs_ssn (ra_ordered r ! j) = of_nat k"
    using find_fragmented_ok [of "ra_ordered r" "of_nat k" 0, OF ne] len by (auto split: option.splits)
  have at: "?ks ! j = k" if j: "j < length ?ks" "cs_ssn (ra_ordered r ! j) = of_nat k" for j
  proof -
    have "?ks ! j \<in> fst ` got" using nth_mem [OF j(1)] unfolding ks(1) .
    from near_serial(4) [OF k [OF this]] show ?thesis using j by (simp add: holds_D(8) [OF h] held_set_def)
  qed
  show ?thesis
  proof (cases "k \<in> fst ` got")
    case False
    have "res = None"
    proof (cases res)
      case (Some j)
      then have "?ks ! j = k" "j < length ?ks" using res(2) at by auto
      then show ?thesis using False ks(1) nth_mem [of j ?ks] by auto
    qed
    then show ?thesis using False res(1) by (intro new) simp_all
  next
    case True
    then obtain i' where i': "(k, i') \<in> got" by auto
    have "i' < length (msgs k)" by (rule holds_D(3) [OF h i'])
    then have long: "1 < length (msgs k)" using i i' by (cases "length (msgs k) = 1") auto
    have "isFragmented (hd (cs_chunks (held_set msgs got k)))"
    proof -
      have "sorted_list_of_set (frags_of got k) \<noteq> []" using held_nonempty [OF fin True] fin by simp
      from hd_in_set [OF this] have "hd (sorted_list_of_set (frags_of got k)) \<in> frags_of got k" using fin by simp
      then have "hd (sorted_list_of_set (frags_of got k)) < length (msgs k)"
        using holds_D(3) [OF h] by (simp add: frags_of_def)
      then show ?thesis using message_fragmented [OF m] long held_nonempty [OF fin True] fin
        by (simp add: held_set_def hd_map)
    qed
    moreover have "held_set msgs got k \<in> set (ra_ordered r)" using True ks(1) by (simp add: holds_D(8) [OF h])
    moreover have "cs_ssn (held_set msgs got k) = of_nat k" by (simp add: held_set_def)
    ultimately obtain j where j: "res = Some j" "j < length ?ks" "?ks ! j = k" using res(2) at by (cases res) auto
    then show ?thesis using True res(1) message_fragmented [OF m i(1)] long by (intro held [of j]) simp_all
  qed
qed

lemma holdsI:
  assumes "finite got" "\<And>k i. (k, i) \<in> got \<Longrightarrow> message_ok si k (msgs k) \<and> i < length (msgs k)"
    "\<And>a b. a \<in> insert n (fst ` got) \<Longrightarrow> b \<in> insert n (fst ` got) \<Longrightarrow> near a b"
    "ra_si r = si" "ra_unordered r = []" "ra_nextSSN r = of_nat n"
    "ra_ordered r = map (held_set msgs got) (sorted_list_of_set (fst ` got))"
  shows "holds si msgs (got, n) r"
  unfolding holds_def using assms by auto

lemma near_refl [simp]: "near a a"
  by (simp add: near_def)

lemma near_sym: "near a b \<Longrightarrow> near b a"
  by (simp add: near_def)

lemma arrive_old:
  assumes "holds si msgs (got, n) r" "message_ok si k (msgs k)" "i < length (msgs k)" "near k n" "k < n"
  shows "reassemblyQueue_push r (msgs k ! i) = ok (False, r)"
  using near_serial(1) [OF assms(4)] assms(5) holds_D(5,7) [OF assms(1)] message_ok_D(3-5) [OF assms(2,3)]
  by (simp add: reassemblyQueue_push_def)

lemma arrive_new:
  assumes h: "holds si msgs (got, n) r" and m: "message_ok si k (msgs k)" and i: "i < length (msgs k)" "(k, i) \<notin> got"
    and k: "n \<le> k" "\<And>a. a \<in> insert n (fst ` got) \<Longrightarrow> near a k"
  shows "\<exists>r'. reassemblyQueue_push r (msgs k ! i) = ok (whole msgs (insert (k, i) got) k, r') \<and>
    holds si msgs (insert (k, i) got, n) r'"
proof -
  let ?got = "insert (k, i) got" and ?ks = "sorted_list_of_set (fst ` got)"
  have fin: "finite got" by (rule holds_D(1) [OF h])
  then have ks: "set ?ks = fst ` got" "distinct ?ks" by simp_all
  have other: "held_set msgs ?got a = held_set msgs got a" if "a \<noteq> k" for a
    using that by (simp add: held_set_def frags_insert)
  have push: "reassemblyQueue_push r (msgs k ! i) =
      bind_res (if isFragmented (msgs k ! i) then find_fragmented (of_nat k) 0 (ra_ordered r) else ok None) (\<lambda>found.
        case found of
          Some j \<Rightarrow> bind_res (index_at (ra_ordered r) j) (\<lambda>cset. case chunkSet_push cset (msgs k ! i) of (complete, cset) \<Rightarrow>
            ok (complete, r\<lparr>ra_nBytes := ra_nBytes r + of_nat (length (pd_userData (msgs k ! i))), ra_ordered := (ra_ordered r)[j := cset]\<rparr>))
        | None \<Rightarrow> (case chunkSet_push (newChunkSet (of_nat k) (pd_payloadType (msgs k ! i))) (msgs k ! i) of (complete, cset) \<Rightarrow>
            ok (complete, r\<lparr>ra_nBytes := ra_nBytes r + of_nat (length (pd_userData (msgs k ! i))),
              ra_ordered := sortChunksBySSN (ra_ordered r @ [cset])\<rparr>)))"
    using near_serial(1) [OF near_sym [OF k(2) [of n]]] k(1) holds_D(5,7) [OF h] message_ok_D(3-5) [OF m i(1)]
    by (simp add: reassemblyQueue_push_def)
  have keep: "holds si msgs (?got, n) (r\<lparr>ra_nBytes := b, ra_ordered := map (held_set msgs ?got) (sorted_list_of_set (fst ` ?got))\<rparr>)" for b
  proof (rule holdsI)
    have W: "insert n (fst ` ?got) = insert k (insert n (fst ` got))" by auto
    show "near a b" if "a \<in> insert n (fst ` ?got)" "b \<in> insert n (fst ` ?got)" for a b
      using that holds_D(4) [OF h, of a b] k(2) [of a] k(2) [of b] near_sym [of b k] unfolding W
      by (elim insertE) (simp_all only: insert_iff near_refl simp_thms)
  qed (use holds_D [OF h] m i in auto)
  from keep [THEN held_complete, of k] have complete: "isComplete (held_set msgs ?got k) = whole msgs ?got k" by auto
  have near_k: "\<And>a. a \<in> fst ` got \<Longrightarrow> near a k" using k(2) by simp
  show ?thesis
  proof (rule find_held [OF h m near_k i])
    fix j
    assume j: "k \<in> fst ` got" "j < length ?ks" "?ks ! j = k"
      "(if isFragmented (msgs k ! i) then find_fragmented (of_nat k) 0 (ra_ordered r) else ok None) = ok (Some j)"
    have set_j: "ra_ordered r ! j = held_set msgs got k" "j < length (ra_ordered r)" using j by (simp_all add: holds_D(8) [OF h])
    have "map (held_set msgs ?got) ?ks = (map (held_set msgs got) ?ks)[j := held_set msgs ?got k]"
      using j(2,3) other nth_eq_iff_index_eq [OF ks(2)] by (intro nth_equalityI) (auto simp: nth_list_update)
    moreover have "fst ` ?got = fst ` got" using j(1) by auto
    moreover have "chunkSet_push (held_set msgs got k) (msgs k ! i) = (whole msgs ?got k, held_set msgs ?got k)"
      using held_push [of got si k msgs i, OF fin m i] holds_D(3) [OF h] complete by simp
    ultimately show ?thesis unfolding push j(4) using keep set_j by (simp add: holds_D(8) [OF h])
  next
    assume new: "k \<notin> fst ` got"
      "(if isFragmented (msgs k ! i) then find_fragmented (of_nat k) 0 (ra_ordered r) else ok None) = ok None"
    have none: "frags_of got k = {}" using new(1) by (force simp: frags_of_def)
    then have "held_set msgs got k = newChunkSet (of_nat k) (pd_payloadType (msgs k ! i))"
      using message_ok_D(9) [OF m i(1)] by (simp add: held_set_def newChunkSet_def)
    with held_push [of got si k msgs i, OF fin m i] new(1) complete
    have p: "chunkSet_push (newChunkSet (of_nat k) (pd_payloadType (msgs k ! i))) (msgs k ! i) =
        (whole msgs ?got k, held_set msgs ?got k)" by force
    have "held_set msgs ?got a = held_set msgs got a" if "a \<in> set ?ks" for a
      by (rule other) (use that new(1) ks(1) in blast)
    then have "ra_ordered r @ [held_set msgs ?got k] = map (held_set msgs ?got) (?ks @ [k])"
      by (simp add: holds_D(8) [OF h] cong: map_cong)
    moreover have "sortChunksBySSN (map (held_set msgs ?got) (?ks @ [k])) =
        map (held_set msgs ?got) (sorted_list_of_set (set (?ks @ [k])))"
    proof (rule ssn_sort)
      show "near a b" if "a \<in> set (?ks @ [k])" "b \<in> set (?ks @ [k])" for a b
        using holds_D(4) [OF keep, of a b] that ks(1) by simp
    qed (use ks new(1) in \<open>simp_all add: held_set_def\<close>)
    moreover have "set (?ks @ [k]) = fst ` ?got" using ks(1) by simp
    ultimately have "sortChunksBySSN (ra_ordered r @ [held_set msgs ?got k]) =
        map (held_set msgs ?got) (sorted_list_of_set (fst ` ?got))" by (simp only:)
    then show ?thesis unfolding push new(2) using keep by (simp add: p)
  qed
qed

lemma sorted_list_of_set_filter:
  "finite K \<Longrightarrow> filter P (sorted_list_of_set K) = sorted_list_of_set {x \<in> K. P x}"
proof -
  assume "finite K"
  moreover have "sorted (filter P (sorted_list_of_set K))" "distinct (filter P (sorted_list_of_set K))"
    by (simp_all add: sorted_filter [of id, simplified])
  ultimately show ?thesis by (metis set_filter set_sorted_list_of_set sorted_list_of_set.idem_if_sorted_distinct)
qed

definition deliverable :: "(nat \<Rightarrow> chunkPayloadData list) \<Rightarrow> ord_state \<Rightarrow> bool" where
  "deliverable msgs st \<longleftrightarrow> (case st of (got, n) \<Rightarrow>
     got \<noteq> {} \<and> Min (fst ` got) \<le> n \<and> whole msgs got (Min (fst ` got)))"

definition payload :: "chunkPayloadData list \<Rightarrow> bytes" where
  "payload m = concat (map pd_userData m)"

definition delivered :: "ord_state \<Rightarrow> ord_state" where
  "delivered st = (case st of (got, n) \<Rightarrow>
     let k = Min (fst ` got) in ({p \<in> got. fst p \<noteq> k}, if k = n then n + 1 else n))"

lemma holds_Min:
  assumes h: "holds si msgs (got, n) r" and ne: "got \<noteq> {}"
  defines "k \<equiv> Min (fst ` got)"
  shows "k \<in> fst ` got" "ra_ordered r = held_set msgs got k # map (held_set msgs got) (sorted_list_of_set (fst ` got - {k}))"
    "near k n" "\<And>a. a \<in> fst ` got \<Longrightarrow> k \<le> a"
proof -
  have fin: "finite (fst ` got)" "fst ` got \<noteq> {}" using holds_D(1) [OF h] ne by simp_all
  show k: "k \<in> fst ` got" unfolding k_def by (rule Min_in [OF fin])
  show "ra_ordered r = held_set msgs got k # map (held_set msgs got) (sorted_list_of_set (fst ` got - {k}))"
    unfolding holds_D(8) [OF h] k_def by (subst sorted_list_of_set_nonempty [OF fin]) simp
  show "near k n" using holds_D(4) [OF h, of k n] k by simp
  show "k \<le> a" if "a \<in> fst ` got" for a unfolding k_def by (rule Min_le [OF fin(1) that])
qed

lemma holds_delivered:
  assumes h: "holds si msgs (got, n) r" and d: "deliverable msgs (got, n)"
  defines "k \<equiv> Min (fst ` got)"
  shows "holds si msgs (delivered (got, n)) (r\<lparr>ra_ordered := map (held_set msgs got) (sorted_list_of_set (fst ` got - {k})),
    ra_nextSSN := if k = n then of_nat n + 1 else of_nat n, ra_nBytes := b\<rparr>)"
proof -
  have ne: "got \<noteq> {}" using d by (simp add: deliverable_def)
  let ?got = "{p \<in> got. fst p \<noteq> k}" and ?n = "if k = n then n + 1 else n"
  note M = holds_Min [OF h ne, folded k_def]
  have K: "fst ` ?got = fst ` got - {k}" by auto
  have "frags_of ?got a = frags_of got a" if "a \<noteq> k" for a using that by (simp add: frags_of_def)
  then have same: "map (held_set msgs ?got) (sorted_list_of_set (fst ` got - {k})) =
      map (held_set msgs got) (sorted_list_of_set (fst ` got - {k}))"
    using holds_D(1) [OF h] by (auto simp: held_set_def)
  have "holds si msgs (?got, ?n) (r\<lparr>ra_ordered := map (held_set msgs got) (sorted_list_of_set (fst ` got - {k})),
    ra_nextSSN := if k = n then of_nat n + 1 else of_nat n, ra_nBytes := b\<rparr>)"
  proof (rule holdsI)
    have up: "near (n + 1) a" if "a \<in> fst ` got - {k}" "k = n" for a
      using holds_D(4) [OF h, of n a] M(4) [of a] that by (auto simp: near_def)
    show "near a c" if "a \<in> insert ?n (fst ` ?got)" "c \<in> insert ?n (fst ` ?got)" for a c
    proof (cases "k = n")
      case True
      then show ?thesis using that holds_D(4) [OF h, of a c] up [of a] up [of c] near_sym [of "n + 1" a]
        unfolding K by (auto simp del: One_nat_def)
    next
      case False
      then show ?thesis using that holds_D(4) [OF h, of a c] unfolding K by auto
    qed
  qed (use holds_D [OF h] same K in \<open>auto simp: add.commute\<close>)
  then show ?thesis by (simp add: delivered_def k_def Let_def)
qed

lemma whole_chunks: "finite got \<Longrightarrow> whole msgs got k \<Longrightarrow> cs_chunks (held_set msgs got k) = msgs k"
  by (simp add: whole_def held_set_def lessThan_atLeast0 map_nth)

lemma subtract_frame: obtains b where "subtractNumBytes r n = r\<lparr>ra_nBytes := b\<rparr>"
  unfolding subtractNumBytes_def by (cases "sint (ra_nBytes r) \<ge> int n") auto

lemma fetch_step:
  assumes h: "holds si msgs (got, n) r"
  shows "if deliverable msgs (got, n) \<and> chunk_bytes (msgs (Min (fst ` got))) \<le> len
    then \<exists>r'. ra_apply r (RaRead len) = ok ([payload (msgs (Min (fst ` got)))], r') \<and> holds si msgs (delivered (got, n)) r'
    else ra_apply r (RaRead len) = ok ([], r)"
proof (cases "got = {}")
  case True
  then have "ra_ordered r = []" using holds_D(8) [OF h] by simp
  then show ?thesis using True holds_D(6) [OF h] by (simp add: deliverable_def reassemblyQueue_read_def)
next
  case False
  define k where "k = Min (fst ` got)"
  note M = holds_Min [OF h False, folded k_def]
  let ?rest = "map (held_set msgs got) (sorted_list_of_set (fst ` got - {k}))"
  have ready: "isComplete (held_set msgs got k) \<and> \<not> sna16GT (cs_ssn (held_set msgs got k)) (ra_nextSSN r) \<longleftrightarrow>
      deliverable msgs (got, n)"
    using held_complete [OF h M(1)] near_serial(3) [OF M(3)] holds_D(7) [OF h] False
    by (auto simp: deliverable_def k_def [symmetric] held_set_def)
  show ?thesis
  proof (cases "deliverable msgs (got, n)")
    case no: False
    then have "reassemblyQueue_read r (replicate len 0) =
        (\<lparr>rd_n = 0, rd_ppi = 0, rd_err = Some ErrTryAgain, rd_buf = replicate len 0\<rparr>, r)"
      using ready holds_D(6) [OF h] M(2) by (auto simp: reassemblyQueue_read_def Let_def)
    then show ?thesis using no by simp
  next
    case True
    then have chunks: "cs_chunks (held_set msgs got k) = msgs k"
      using whole_chunks [OF holds_D(1) [OF h]] by (simp add: deliverable_def k_def)
    show ?thesis
    proof (cases "chunk_bytes (msgs k) \<le> len")
      case fit: True
      let ?r = "subtractNumBytes (r\<lparr>ra_ordered := ?rest, ra_nextSSN := if k = n then of_nat n + 1 else of_nat n\<rparr>) (chunk_bytes (msgs k))"
      obtain b where b: "?r = r\<lparr>ra_ordered := ?rest, ra_nextSSN := if k = n then of_nat n + 1 else of_nat n, ra_nBytes := b\<rparr>"
        by (rule subtract_frame)
      have same: "r\<lparr>ra_ordered := ?rest, ra_nextSSN := of_nat n\<rparr> = r\<lparr>ra_ordered := ?rest\<rparr>"
        using holds_D(7) [OF h] by (cases r) simp
      have "reassemblyQueue_read r (replicate len 0) =
          (\<lparr>rd_n = chunk_bytes (msgs k), rd_ppi = cs_ppi (held_set msgs got k), rd_err = None,
            rd_buf = payload (msgs k) @ drop (chunk_bytes (msgs k)) (replicate len 0)\<rparr>, ?r)"
        using ready True fit chunks holds_D(6,7) [OF h] M(2) near_serial(4) [OF M(3)]
          copy_chunks_fit [of 0 "msgs k" "replicate len 0" False]
        by (auto simp: reassemblyQueue_read_def Let_def payload_def held_set_def same)
      then have "ra_apply r (RaRead len) = ok ([payload (msgs k)], ?r)"
        by (simp add: payload_def length_user_data)
      then show ?thesis unfolding b using holds_delivered [OF h True, of b] True fit by (simp add: k_def)
    next
      case short: False
      then obtain buf where "copy_chunks (replicate len 0) 0 False (msgs k) = (buf, chunk_bytes (msgs k), True)"
        using copy_chunks_short [of 0 "replicate len 0" False "msgs k"] by auto
      then show ?thesis using ready True short chunks holds_D(6) [OF h] M(2)
        by (auto simp: reassemblyQueue_read_def k_def)
    qed
  qed
qed

definition skipped :: "(nat \<Rightarrow> chunkPayloadData list) \<Rightarrow> ord_state \<Rightarrow> nat \<Rightarrow> ord_state" where
  "skipped msgs st l = (case st of (got, n) \<Rightarrow> ({p \<in> got. fst p \<le> l \<longrightarrow> whole msgs got (fst p)}, max n (l + 1)))"

lemma forward_ordered_fields:
  "ra_ordered (forwardTSNForOrdered r l) = filter (\<lambda>cset. \<not> (sna16LTE (cs_ssn cset) l \<and> \<not> isComplete cset)) (ra_ordered r)"
  "ra_nextSSN (forwardTSNForOrdered r l) = (if sna16LTE (ra_nextSSN r) l then l + 1 else ra_nextSSN r)"
  "ra_unordered (forwardTSNForOrdered r l) = ra_unordered r" "ra_si (forwardTSNForOrdered r l) = ra_si r"
proof -
  have "\<exists>b. foldl (\<lambda>r c. subtractNumBytes r (length (pd_userData c))) r cs = r\<lparr>ra_nBytes := b\<rparr>" for cs and r
  proof (induction cs arbitrary: r)
    case Nil
    show ?case by (intro exI [of _ "ra_nBytes r"]) simp
  next
    case (Cons c cs)
    obtain b where "subtractNumBytes r (length (pd_userData c)) = r\<lparr>ra_nBytes := b\<rparr>"
      by (rule subtract_frame)
    with Cons.IH [of "r\<lparr>ra_nBytes := b\<rparr>"] show ?case by simp
  qed
  from this [of r "concat (map cs_chunks (dropped_sets l (ra_ordered r)))"] obtain b where
    "foldl (\<lambda>r cset. foldl (\<lambda>r c. subtractNumBytes r (length (pd_userData c))) r (cs_chunks cset)) r (dropped_sets l (ra_ordered r)) =
      r\<lparr>ra_nBytes := b\<rparr>" by (auto simp: foldl_foldl_concat)
  then show "ra_ordered (forwardTSNForOrdered r l) = filter (\<lambda>cset. \<not> (sna16LTE (cs_ssn cset) l \<and> \<not> isComplete cset)) (ra_ordered r)"
    "ra_nextSSN (forwardTSNForOrdered r l) = (if sna16LTE (ra_nextSSN r) l then l + 1 else ra_nextSSN r)"
    "ra_unordered (forwardTSNForOrdered r l) = ra_unordered r" "ra_si (forwardTSNForOrdered r l) = ra_si r"
    by (simp_all add: forwardTSNForOrdered_def Let_def)
qed

lemma skip_step:
  assumes h: "holds si msgs (got, n) r" and l: "\<And>a. a \<in> insert n (fst ` got) \<Longrightarrow> near a l \<and> near a (l + 1)"
  shows "holds si msgs (skipped msgs (got, n) l) (forwardTSNForOrdered r (of_nat l))"
proof -
  let ?got = "{p \<in> got. fst p \<le> l \<longrightarrow> whole msgs got (fst p)}" and ?n = "max n (l + 1)"
  let ?keep = "\<lambda>a. a \<le> l \<longrightarrow> whole msgs got a"
  have fin: "finite got" by (rule holds_D(1) [OF h])
  have K: "fst ` ?got = {a \<in> fst ` got. ?keep a}" by force
  have "frags_of ?got a = frags_of got a" if "?keep a" for a using that by (auto simp: frags_of_def)
  then have same: "held_set msgs ?got a = held_set msgs got a" if "?keep a" for a using that by (simp add: held_set_def)
  have keep: "\<not> (sna16LTE (cs_ssn (held_set msgs got a)) (of_nat l) \<and> \<not> isComplete (held_set msgs got a)) \<longleftrightarrow> ?keep a"
    if "a \<in> fst ` got" for a
    using held_complete [OF h that] near_serial(2) [of a l] l [of a] that by (auto simp: held_set_def)
  have "ra_ordered (forwardTSNForOrdered r (of_nat l)) = map (held_set msgs got) (filter ?keep (sorted_list_of_set (fst ` got)))"
    unfolding forward_ordered_fields holds_D(8) [OF h] filter_map o_def
    by (intro arg_cong [of _ _ "map (held_set msgs got)"] filter_cong refl keep) (use fin in simp)
  also have "\<dots> = map (held_set msgs ?got) (sorted_list_of_set (fst ` ?got))"
    unfolding K using fin same by (simp add: sorted_list_of_set_filter)
  finally have ord: "ra_ordered (forwardTSNForOrdered r (of_nat l)) = map (held_set msgs ?got) (sorted_list_of_set (fst ` ?got))" .
  have "holds si msgs (?got, ?n) (forwardTSNForOrdered r (of_nat l))"
  proof (rule holdsI [OF _ _ _ _ _ _ ord])
    show "near a b" if "a \<in> insert ?n (fst ` ?got)" "b \<in> insert ?n (fst ` ?got)" for a b
      using that l [of a] l [of b] l [of n] near_sym holds_D(4) [OF h, of a b] unfolding K
      by (auto simp: max_def split: if_splits)
    show "ra_nextSSN (forwardTSNForOrdered r (of_nat l)) = of_nat ?n"
    proof -
      have "?n = (if n \<le> l then l + 1 else n)" by simp
      then show ?thesis using near_serial(2) [of n l] l [of n] holds_D(7) [OF h]
        by (simp add: forward_ordered_fields add.commute)
    qed
  qed (use holds_D [OF h] in \<open>auto simp: forward_ordered_fields\<close>)
  then show ?thesis by (simp add: skipped_def)
qed

section \<open>In-order delivery\<close>

datatype ord_ev = Arrive nat nat | Fetch nat | Skip nat

fun ev_op :: "(nat \<Rightarrow> chunkPayloadData list) \<Rightarrow> ord_ev \<Rightarrow> ra_op" where
  "ev_op msgs (Arrive k i) = RaPush (msgs k ! i)"
| "ev_op msgs (Fetch len) = RaRead len"
| "ev_op msgs (Skip l) = RaForwardOrdered (of_nat l)"

text \<open>What may happen next: a fragment arrives once, and message numbers stay comparable.\<close>

fun ord_ok :: "u16 \<Rightarrow> (nat \<Rightarrow> chunkPayloadData list) \<Rightarrow> ord_state \<Rightarrow> ord_ev \<Rightarrow> bool" where
  "ord_ok si msgs (got, n) (Arrive k i) \<longleftrightarrow> message_ok si k (msgs k) \<and> i < length (msgs k) \<and> (k, i) \<notin> got \<and>
     (\<forall>a \<in> insert n (fst ` got). near a k)"
| "ord_ok si msgs (got, n) (Fetch len) \<longleftrightarrow> True"
| "ord_ok si msgs (got, n) (Skip l) \<longleftrightarrow> (\<forall>a \<in> insert n (fst ` got). near a l \<and> near a (l + 1))"

fun ord_step :: "(nat \<Rightarrow> chunkPayloadData list) \<Rightarrow> ord_state \<Rightarrow> ord_ev \<Rightarrow> nat list \<times> ord_state" where
  "ord_step msgs (got, n) (Arrive k i) = ([], if k < n then (got, n) else (insert (k, i) got, n))"
| "ord_step msgs (got, n) (Fetch len) =
     (if deliverable msgs (got, n) \<and> chunk_bytes (msgs (Min (fst ` got))) \<le> len
      then ([Min (fst ` got)], delivered (got, n)) else ([], (got, n)))"
| "ord_step msgs (got, n) (Skip l) = ([], skipped msgs (got, n) l)"

fun ord_run :: "(nat \<Rightarrow> chunkPayloadData list) \<Rightarrow> ord_state \<Rightarrow> ord_ev list \<Rightarrow> nat list \<times> ord_state" where
  "ord_run msgs st [] = ([], st)"
| "ord_run msgs st (e # es) =
     (case ord_step msgs st e of (out, st) \<Rightarrow> case ord_run msgs st es of (outs, st) \<Rightarrow> (out @ outs, st))"

fun ord_run_ok :: "u16 \<Rightarrow> (nat \<Rightarrow> chunkPayloadData list) \<Rightarrow> ord_state \<Rightarrow> ord_ev list \<Rightarrow> bool" where
  "ord_run_ok si msgs st [] \<longleftrightarrow> True"
| "ord_run_ok si msgs st (e # es) \<longleftrightarrow> ord_ok si msgs st e \<and> ord_run_ok si msgs (snd (ord_step msgs st e)) es"

lemma ord_step_refines:
  assumes h: "holds si msgs st r" and e: "ord_ok si msgs st e"
  shows "\<exists>r'. ra_apply r (ev_op msgs e) = ok (map (\<lambda>k. payload (msgs k)) (fst (ord_step msgs st e)), r') \<and>
    holds si msgs (snd (ord_step msgs st e)) r'"
proof -
  obtain got n where st: "st = (got, n)" by fastforce
  note h = h [unfolded st] and e = e [unfolded st]
  show ?thesis
  proof (cases e)
    case (Arrive k i)
    then have a: "message_ok si k (msgs k)" "i < length (msgs k)" "(k, i) \<notin> got" "\<And>a. a \<in> insert n (fst ` got) \<Longrightarrow> near a k"
      using e by auto
    show ?thesis
    proof (cases "k < n")
      case True
      then show ?thesis using Arrive st h arrive_old [OF h a(1,2) near_sym [OF a(4)] True] by simp
    next
      case False
      then show ?thesis using Arrive st arrive_new [OF h a(1-3) _ a(4)] by fastforce
    qed
  next
    case (Fetch len)
    then show ?thesis using st h fetch_step [OF h, of len] by (auto split: if_splits)
  next
    case (Skip l)
    then show ?thesis using st e skip_step [OF h, of l] by auto
  qed
qed

lemma ord_run_refines:
  assumes "holds si msgs st r" "ord_run_ok si msgs st es"
  shows "\<exists>r'. ra_run r (map (ev_op msgs) es) = ok (map (\<lambda>k. payload (msgs k)) (fst (ord_run msgs st es)), r') \<and>
    holds si msgs (snd (ord_run msgs st es)) r'"
  using assms
proof (induction es arbitrary: st r)
  case (Cons e es)
  from ord_step_refines [OF Cons.prems(1), of e] Cons.prems(2) obtain r1 where
    r1: "ra_apply r (ev_op msgs e) = ok (map (\<lambda>k. payload (msgs k)) (fst (ord_step msgs st e)), r1)"
      "holds si msgs (snd (ord_step msgs st e)) r1" by auto
  from Cons.IH [OF r1(2)] Cons.prems(2) obtain r' where
    "ra_run r1 (map (ev_op msgs) es) = ok (map (\<lambda>k. payload (msgs k)) (fst (ord_run msgs (snd (ord_step msgs st e)) es)), r')"
      "holds si msgs (snd (ord_run msgs (snd (ord_step msgs st e)) es)) r'" by auto
  with r1 show ?case by (auto split: prod.splits)
qed simp

lemma holds_new: "holds si msgs ({}, 0) (newReassemblyQueue si)"
  by (simp add: holds_def newReassemblyQueue_def)

text \<open>Without FORWARD TSN nothing is held below the next message, and no arrival is lost.\<close>

definition no_skip :: "ord_ev list \<Rightarrow> bool" where
  "no_skip es \<longleftrightarrow> (\<forall>e \<in> set es. \<forall>l. e \<noteq> Skip l)"

definition above :: "ord_state \<Rightarrow> bool" where
  "above st \<longleftrightarrow> (case st of (got, n) \<Rightarrow> finite got \<and> (\<forall>p \<in> got. n \<le> fst p))"

lemma deliverable_above:
  assumes "above (got, n)" "deliverable msgs (got, n)"
  shows "Min (fst ` got) = n" "delivered (got, n) = ({p \<in> got. fst p \<noteq> n}, n + 1)"
proof -
  have K: "finite (fst ` got)" "fst ` got \<noteq> {}" using assms by (simp_all add: above_def deliverable_def)
  have "n \<le> Min (fst ` got)" using K assms(1) by (auto simp: above_def)
  then show m: "Min (fst ` got) = n" using assms(2) by (simp add: deliverable_def)
  show "delivered (got, n) = ({p \<in> got. fst p \<noteq> n}, n + 1)" by (simp add: delivered_def m)
qed

lemma ord_step_above:
  assumes st: "above (got, n)" and e: "\<And>l. e \<noteq> Skip l"
  obtains got' n' where "ord_step msgs (got, n) e = ([n..<n'], got', n')" "n \<le> n'" "above (got', n')"
    "\<And>p. p \<in> got \<Longrightarrow> p \<in> got' \<or> fst p < n'" "\<And>k i. e = Arrive k i \<Longrightarrow> (k, i) \<in> got' \<or> k < n'"
proof (cases e)
  case (Arrive k i)
  show ?thesis
  proof (cases "k < n")
    case True
    then show ?thesis using Arrive st by (intro that [of n got]) auto
  next
    case False
    then show ?thesis using Arrive st by (intro that [of n "insert (k, i) got"]) (auto simp: above_def)
  qed
next
  case (Fetch len)
  show ?thesis
  proof (cases "deliverable msgs (got, n) \<and> chunk_bytes (msgs (Min (fst ` got))) \<le> len")
    case True
    note d = deliverable_above [OF st conjunct1 [OF True]]
    have "above ({p \<in> got. fst p \<noteq> n}, n + 1)" using st by (force simp: above_def)
    then show ?thesis using Fetch True d by (intro that [of "n + 1" "{p \<in> got. fst p \<noteq> n}"]) auto
  next
    case False
    then show ?thesis using Fetch st by (intro that [of n got]) auto
  qed
qed (use e in simp)

lemma ord_run_above:
  assumes "above (got, n)" "no_skip es"
  shows "\<exists>got' n'. ord_run msgs (got, n) es = ([n..<n'], got', n') \<and> n \<le> n' \<and> above (got', n') \<and>
    (\<forall>p \<in> got. p \<in> got' \<or> fst p < n') \<and> (\<forall>k i. Arrive k i \<in> set es \<longrightarrow> (k, i) \<in> got' \<or> k < n')"
  using assms
proof (induction es arbitrary: got n)
  case (Cons e es)
  have "\<And>l. e \<noteq> Skip l" using Cons.prems(2) by (simp add: no_skip_def)
  from ord_step_above [OF Cons.prems(1) this] obtain g1 n1 where
    s1: "ord_step msgs (got, n) e = ([n..<n1], g1, n1)" "n \<le> n1" "above (g1, n1)"
      "\<And>p. p \<in> got \<Longrightarrow> p \<in> g1 \<or> fst p < n1" "\<And>k i. e = Arrive k i \<Longrightarrow> (k, i) \<in> g1 \<or> k < n1" by metis
  from Cons.IH [OF s1(3)] Cons.prems(2) obtain g2 n2 where
    s2: "ord_run msgs (g1, n1) es = ([n1..<n2], g2, n2)" "n1 \<le> n2" "above (g2, n2)"
      "\<forall>p \<in> g1. p \<in> g2 \<or> fst p < n2" "\<forall>k i. Arrive k i \<in> set es \<longrightarrow> (k, i) \<in> g2 \<or> k < n2"
    by (auto simp: no_skip_def)
  have "[n..<n1] @ [n1..<n2] = [n..<n2]" using s1(2) s2(2) by (metis le_iff_add upt_add_eq_append)
  then have "ord_run msgs (got, n) (e # es) = ([n..<n2], g2, n2)" using s1(1) s2(1) by simp
  moreover have "p \<in> g2 \<or> fst p < n2" if "p \<in> got \<or> (\<exists>k i. e = Arrive k i \<and> p = (k, i))" for p
    using that s1(4,5) s2(2,4) by (metis fst_conv less_le_trans)
  ultimately show ?case using s1(2) s2(2,3,5) by (intro exI [of _ g2] exI [of _ n2]) (fastforce dest: less_le_trans)
qed simp

lemma ord_ok_Fetch [simp]: "ord_ok si msgs st (Fetch len)"
  by (cases st) simp

lemma ord_run_ok_append:
  "ord_run_ok si msgs st (es @ fs) \<longleftrightarrow> ord_run_ok si msgs st es \<and> ord_run_ok si msgs (snd (ord_run msgs st es)) fs"
  by (induction es arbitrary: st) (auto split: prod.splits)

lemma ord_run_ok_fetch: "ord_run_ok si msgs st (replicate N (Fetch len))"
  by (induction N arbitrary: st) simp_all

lemma ord_run_append:
  "ord_run msgs st (es @ fs) = (case ord_run msgs st es of (out, st) \<Rightarrow> case ord_run msgs st fs of (outs, st) \<Rightarrow> (out @ outs, st))"
  by (induction es arbitrary: st) (simp_all split: prod.splits)

text \<open>Enough reads deliver every message whose fragments have all arrived.\<close>

lemma fetch_all:
  assumes "above (got, n)" "\<And>k. n \<le> k \<Longrightarrow> k < N \<Longrightarrow> whole msgs got k \<and> msgs k \<noteq> [] \<and> chunk_bytes (msgs k) \<le> len"
    and "N \<le> n + j"
  shows "\<exists>got' n'. ord_run msgs (got, n) (replicate j (Fetch len)) = ([n..<n'], got', n') \<and> N \<le> n' \<and> n \<le> n'"
  using assms
proof (induction j arbitrary: got n)
  case (Suc j)
  show ?case
  proof (cases "n < N")
    case True
    then have w: "whole msgs got n" "msgs n \<noteq> []" "chunk_bytes (msgs n) \<le> len" using Suc.prems(2) [of n] by auto
    then have "(n, 0) \<in> got" by (auto simp: whole_def frags_of_def set_eq_iff)
    then have "Min (fst ` got) \<le> n" "got \<noteq> {}" using Suc.prems(1) by (force simp: above_def intro: Min_le)+
    moreover have "n \<le> Min (fst ` got)" using Suc.prems(1) \<open>got \<noteq> {}\<close> by (auto simp: above_def)
    ultimately have d: "deliverable msgs (got, n)" using w(1) by (simp add: deliverable_def)
    note da = deliverable_above [OF Suc.prems(1) d]
    let ?got = "{p \<in> got. fst p \<noteq> n}"
    have "above (?got, n + 1)" using Suc.prems(1) by (force simp: above_def)
    moreover have "whole msgs ?got k" if "n + 1 \<le> k" "k < N" for k
      using Suc.prems(2) [of k] that by (simp add: whole_def frags_of_def)
    ultimately obtain g n' where "ord_run msgs (?got, n + 1) (replicate j (Fetch len)) = ([n + 1..<n'], g, n')" "N \<le> n'" "n + 1 \<le> n'"
      using Suc.IH [of ?got "n + 1"] Suc.prems(2,3) by auto
    then show ?thesis using d da w(3) by (intro exI [of _ g] exI [of _ n']) (simp add: upt_conv_Cons)
  next
    case False
    have "no_skip (replicate (Suc j) (Fetch len))" by (auto simp: no_skip_def)
    from ord_run_above [OF Suc.prems(1) this, of msgs] False show ?thesis by fastforce
  qed
qed auto

definition sample_msgs :: "nat \<Rightarrow> chunkPayloadData list" where
  "sample_msgs k =
     (if k = 0 then [sample_fragment 10 True False [1], sample_fragment 11 False True [2]]
      else [(sample_fragment (11 + of_nat k) True True [3])\<lparr>pd_streamSequenceNumber := of_nat k\<rparr>])"

definition sample_evs :: "ord_ev list" where
  "sample_evs = [Arrive 1 0, Arrive 0 1, Arrive 0 0, Fetch 8]"

lemma sample_message_ok: "message_ok 0 0 (sample_msgs 0)" "message_ok 0 1 (sample_msgs 1)"
  by (auto simp: message_ok_def sample_msgs_def sample_fragment_def zero_payload_def less_Suc_eq)

lemma sample_evs_ok: "ord_run_ok 0 sample_msgs ({}, 0) sample_evs" "no_skip sample_evs"
  using sample_message_ok by (simp_all add: sample_evs_def sample_msgs_def near_def no_skip_def)

text \<open>
  C2: ordered delivery: whatever the order in which the fragments of the messages of an ordered stream
  arrive, interleaved with reads, each fragment once and the message numbers in flight less than
  \<open>2 ^ 15\<close> apart, the reads return the messages whole and in order, from the first, without gap or
  repetition, also when the 16-bit sequence number wraps around.
\<close>

theorem ordered_delivery:
  assumes "ord_run_ok si msgs ({}, 0) es" "no_skip es"
  shows "\<exists>n r. ra_run (newReassemblyQueue si) (map (ev_op msgs) es) = ok (map (\<lambda>k. payload (msgs k)) [0..<n], r)"
proof -
  have "above ({}, 0)" by (simp add: above_def)
  from ord_run_above [OF this assms(2), of msgs] ord_run_refines [OF holds_new assms(1)] show ?thesis by auto
qed

theorem ordered_delivery_witness:
  "\<exists>n r. ra_run (newReassemblyQueue 0) (map (ev_op sample_msgs) sample_evs) =
     ok (map (\<lambda>k. payload (sample_msgs k)) [0..<n], r)"
  using ordered_delivery [OF sample_evs_ok] .

text \<open>
  C3: ordered delivery makes progress: once every fragment of the first \<open>N\<close> messages has arrived, \<open>N\<close> reads
  with a large enough buffer leave at least these \<open>N\<close> messages delivered.
\<close>

theorem ordered_delivery_progress:
  assumes "ord_run_ok si msgs ({}, 0) es" "no_skip es"
    and "\<And>k. k < N \<Longrightarrow> msgs k \<noteq> [] \<and> chunk_bytes (msgs k) \<le> len \<and> (\<forall>i < length (msgs k). Arrive k i \<in> set es)"
  shows "\<exists>n r. ra_run (newReassemblyQueue si) (map (ev_op msgs) es @ replicate N (RaRead len)) =
    ok (map (\<lambda>k. payload (msgs k)) [0..<n], r) \<and> N \<le> n"
proof -
  have "above ({}, 0)" by (simp add: above_def)
  from ord_run_above [OF this assms(2), of msgs] obtain got n where
    run: "ord_run msgs ({}, 0) es = ([0..<n], got, n)" "above (got, n)"
      "\<forall>k i. Arrive k i \<in> set es \<longrightarrow> (k, i) \<in> got \<or> k < n" by auto
  obtain r0 where "holds si msgs (got, n) r0" using ord_run_refines [OF holds_new assms(1)] run(1) by auto
  note D = holds_D(3) [OF this]
  have "whole msgs got k" if "n \<le> k" "k < N" for k
    using run(3) assms(3) [OF that(2)] that(1) D by (fastforce simp: whole_def frags_of_def)
  with fetch_all [OF run(2), of N msgs len N] assms(3) obtain got' n' where
    f: "ord_run msgs (got, n) (replicate N (Fetch len)) = ([n..<n'], got', n')" "N \<le> n'" "n \<le> n'" by auto
  have "[0..<n] @ [n..<n'] = [0..<n']" using f(3) by (metis le_iff_add le0 upt_add_eq_append)
  then have "fst (ord_run msgs ({}, 0) (es @ replicate N (Fetch len))) = [0..<n']" using run(1) f(1) by (simp add: ord_run_append)
  moreover have "ord_run_ok si msgs ({}, 0) (es @ replicate N (Fetch len))"
    using assms(1) by (simp add: ord_run_ok_append ord_run_ok_fetch)
  ultimately show ?thesis using ord_run_refines [OF holds_new, of si msgs "es @ replicate N (Fetch len)"] f(2) by auto
qed

theorem ordered_delivery_progress_witness:
  "\<exists>n r. ra_run (newReassemblyQueue 0) (map (ev_op sample_msgs) sample_evs @ replicate 2 (RaRead 8)) =
     ok (map (\<lambda>k. payload (sample_msgs k)) [0..<n], r) \<and> 2 \<le> n"
proof (rule ordered_delivery_progress [OF sample_evs_ok])
  show "sample_msgs k \<noteq> [] \<and> chunk_bytes (sample_msgs k) \<le> 8 \<and>
      (\<forall>i < length (sample_msgs k). Arrive k i \<in> set sample_evs)" if "k < 2" for k
    using that by (auto simp: sample_msgs_def sample_evs_def sample_fragment_def less_Suc_eq numeral_2_eq_2)
qed

text \<open>FORWARD TSN skips messages but never reorders or repeats them.\<close>

lemma ord_step_increasing:
  assumes fin: "finite (fst st)" and d: "\<And>p. p \<in> fst st \<Longrightarrow> d \<le> fst p" "d \<le> snd st"
  obtains d' where "sorted_wrt (<) (fst (ord_step msgs st e))" "\<forall>k \<in> set (fst (ord_step msgs st e)). d \<le> k \<and> k < d'" "d \<le> d'"
    "finite (fst (snd (ord_step msgs st e)))" "\<forall>p \<in> fst (snd (ord_step msgs st e)). d' \<le> fst p" "d' \<le> snd (snd (ord_step msgs st e))"
proof -
  obtain got n where st: "st = (got, n)" by fastforce
  note F = fin [unfolded st fst_conv] and D = d [unfolded st fst_conv snd_conv]
  show ?thesis
  proof (cases e)
    case (Arrive k i)
    then show ?thesis using F D st by (intro that [of d]) auto
  next
    case (Skip l)
    then show ?thesis using F D st by (intro that [of d]) (auto simp: skipped_def)
  next
    case (Fetch len)
    show ?thesis
    proof (cases "deliverable msgs (got, n) \<and> chunk_bytes (msgs (Min (fst ` got))) \<le> len")
      case True
      define k where "k = Min (fst ` got)"
      have ne: "fst ` got \<noteq> {}" "k \<le> n" using True by (simp_all add: deliverable_def k_def)
      have "k \<in> fst ` got" "\<And>p. p \<in> got \<Longrightarrow> k \<le> fst p" unfolding k_def using ne(1) F by auto
      then have "d \<le> k" "\<And>p. p \<in> got \<Longrightarrow> fst p \<noteq> k \<Longrightarrow> Suc k \<le> fst p" using D(1) by (auto simp: le_neq_implies_less Suc_le_eq)
      then show ?thesis using Fetch True st ne(2) F
        by (intro that [of "Suc k"]) (auto simp: delivered_def Let_def k_def [symmetric])
    next
      case False
      then show ?thesis using Fetch F D st by (intro that [of d]) auto
    qed
  qed
qed

lemma ord_run_increasing:
  assumes "finite (fst st)" "\<And>p. p \<in> fst st \<Longrightarrow> d \<le> fst p" "d \<le> snd st"
  shows "sorted_wrt (<) (fst (ord_run msgs st es)) \<and> (\<forall>k \<in> set (fst (ord_run msgs st es)). d \<le> k)"
  using assms
proof (induction es arbitrary: st d)
  case (Cons e es)
  obtain d' where s: "sorted_wrt (<) (fst (ord_step msgs st e))" "\<forall>k \<in> set (fst (ord_step msgs st e)). d \<le> k \<and> k < d'" "d \<le> d'"
    "finite (fst (snd (ord_step msgs st e)))" "\<forall>p \<in> fst (snd (ord_step msgs st e)). d' \<le> fst p" "d' \<le> snd (snd (ord_step msgs st e))"
    by (rule ord_step_increasing [OF Cons.prems, of msgs e])
  from Cons.IH [OF s(4) _ s(6)] s(5) have "sorted_wrt (<) (fst (ord_run msgs (snd (ord_step msgs st e)) es))"
    "\<forall>k \<in> set (fst (ord_run msgs (snd (ord_step msgs st e)) es)). d' \<le> k" by auto
  then show ?case using s(1-3) by (fastforce simp: sorted_wrt_append split: prod.splits)
qed simp

text \<open>
  C5: with FORWARD TSN in the run, the reads still return only whole messages, in increasing order of
  their numbers and none twice: abandoned messages are skipped, never reordered.
\<close>

theorem ordered_delivery_skipping:
  assumes "ord_run_ok si msgs ({}, 0) es"
  shows "\<exists>ks r. ra_run (newReassemblyQueue si) (map (ev_op msgs) es) = ok (map (\<lambda>k. payload (msgs k)) ks, r) \<and>
    sorted_wrt (<) ks"
  using ord_run_refines [OF holds_new assms] ord_run_increasing [of "({}, 0)" 0 msgs es] by auto

theorem ordered_delivery_skipping_witness:
  "\<exists>ks r. ra_run (newReassemblyQueue 0) (map (ev_op sample_msgs) [Arrive 1 0, Skip 0, Fetch 8]) =
     ok (map (\<lambda>k. payload (sample_msgs k)) ks, r) \<and> sorted_wrt (<) ks"
proof (rule ordered_delivery_skipping)
  show "ord_run_ok 0 sample_msgs ({}, 0) [Arrive 1 0, Skip 0, Fetch 8]"
    using sample_message_ok by (simp add: sample_msgs_def near_def)
qed

end
