(* ===== verification/Sctp_Stream_Laws.thy ===== *)
theory Sctp_Stream_Laws
  imports Sctp_Stream Sctp_Reassembly_Order Sctp_Chunk_Laws
begin

text \<open>
  Laws of a stream: \<^verbatim>\<open>packetize\<close> cuts a message into fragments that the peer's reassembly queue puts
  together again, and a waiting reader is always woken.
\<close>

section \<open>Fragments\<close>

function split_message :: "nat \<Rightarrow> bytes \<Rightarrow> bytes list" where
  "split_message m [] = []"
| "split_message m (x # xs) = take (max m 1) (x # xs) # split_message m (drop (max m 1) (x # xs))"
  by pat_completeness auto
termination by (relation "measure (\<lambda>(m, xs). length xs)") auto

lemma split_message_step:
  assumes "xs \<noteq> []" "0 < m"
  shows "split_message m xs = take m xs # split_message m (drop m xs)"
proof -
  obtain x ys where xs: "xs = x # ys" using assms(1) by (cases xs) simp_all
  have mx: "max m 1 = m" using assms(2) by simp
  show ?thesis unfolding xs split_message.simps(2) mx ..
qed

lemma concat_split_message: "concat (split_message m xs) = xs"
  by (induction m xs rule: split_message.induct) (simp_all del: take_Suc_Cons drop_Suc_Cons)

lemma split_message_sizes:
  "0 < m \<Longrightarrow> u \<in> set (split_message m xs) \<Longrightarrow> u \<noteq> [] \<and> length u \<le> m"
  by (induction m xs rule: split_message.induct) (auto simp: max_def split: if_splits)

lemma split_message_empty [simp]: "split_message m xs = [] \<longleftrightarrow> xs = []"
  by (cases xs) simp_all

lemma length_split_message: "0 < m \<Longrightarrow> length (split_message m xs) \<le> length xs"
proof (induction m xs rule: split_message.induct)
  case (2 m x xs)
  then have "length (split_message m (drop (max m 1) (x # xs))) \<le> Suc (length xs) - max m 1" by simp
  also have "\<dots> \<le> length xs" by simp
  finally show ?case by (simp del: drop_Suc_Cons)
qed simp

text \<open>The chunk for one fragment, and the chunks of all of them; \<open>free\<close> is the address of the first.\<close>

definition fragment_chunk :: "Stream \<Rightarrow> u32 \<Rightarrow> bool \<Rightarrow> addr \<Rightarrow> bool \<Rightarrow> bool \<Rightarrow> bytes \<Rightarrow> chunkPayloadData" where
  "fragment_chunk s ppi unordered head first final userData =
     zero_payload\<lparr>pd_streamIdentifier := sm_streamIdentifier s, pd_userData := userData, pd_unordered := unordered,
       pd_beginningFragment := first, pd_endingFragment := final, pd_immediateSack := False, pd_payloadType := ppi,
       pd_streamSequenceNumber := sm_sequenceNumber s, pd_head := head\<rparr>"

fun fragment_chunks :: "Stream \<Rightarrow> u32 \<Rightarrow> bool \<Rightarrow> addr \<Rightarrow> bool \<Rightarrow> addr \<Rightarrow> bytes list \<Rightarrow> chunkPayloadData list" where
  "fragment_chunks s ppi unordered head first free [] = []"
| "fragment_chunks s ppi unordered head first free (u # us) =
     fragment_chunk s ppi unordered head first (us = []) u #
     fragment_chunks s ppi unordered (if head = nil then free else head) False (free + 1) us"

fun place :: "store \<Rightarrow> addr \<Rightarrow> chunkPayloadData list \<Rightarrow> store" where
  "place st p [] = st"
| "place st p (c # cs) = place (st(p \<mapsto> c)) (p + 1) cs"

lemma place_below: "q < p \<Longrightarrow> place st p cs q = st q"
  by (induction cs arbitrary: st p) simp_all

lemma place_nth: "i < length cs \<Longrightarrow> place st p cs (p + i) = Some (cs ! i)"
proof (induction cs arbitrary: st p i)
  case (Cons c cs)
  then show ?case
  proof (cases i)
    case (Suc j)
    then show ?thesis using Cons.IH [of j "st(p \<mapsto> c)" "p + 1"] Cons.prems by (simp del: fun_upd_apply)
  qed (simp add: place_below)
qed simp

lemma place_above: "p + length cs \<le> q \<Longrightarrow> place st p cs q = st q"
  by (induction cs arbitrary: st p) simp_all

lemma length_fragment_chunks [simp]: "length (fragment_chunks s ppi un head first free us) = length us"
  by (induction us arbitrary: head first free) simp_all

lemma fragment_chunks_nth:
  assumes "i < length us" "free \<noteq> nil"
  shows "fragment_chunks s ppi un nil True free us ! i =
    fragment_chunk s ppi un (if i = 0 then nil else free) (i = 0) (i = length us - 1) (us ! i)"
proof -
  have later: "fragment_chunks s ppi un h False p vs ! j = fragment_chunk s ppi un h False (j = length vs - 1) (vs ! j)"
    if "j < length vs" "h \<noteq> nil" for h p vs j
    using that
  proof (induction vs arbitrary: j p)
    case (Cons v vs)
    then show ?case by (cases j) (auto intro!: arg_cong2 [where f = "fragment_chunk s ppi un h False"])
  qed simp
  show ?thesis
  proof (cases us)
    case (Cons u vs)
    then show ?thesis using later [of "i - 1" vs free "free + 1"] assms
      by (cases i) (auto intro!: arg_cong2 [where f = "fragment_chunk s ppi un free False"])
  qed (use assms in simp)
qed

lemma unat_of_nat_u32: "n < 2 ^ 32 \<Longrightarrow> unat (of_nat n :: u32) = n"
  by (rule unat_of_nat_small) simp

lemma of_nat_u32_zero: "n < 2 ^ 32 \<Longrightarrow> (of_nat n :: u32) = 0 \<longleftrightarrow> n = 0"
  using of_nat_word_inj [of n 0, where 'w = 32] by auto

lemma fragment_words:
  assumes "rem < 2 ^ 32"
  shows "min32 m (of_nat rem) = of_nat (min (unat m) rem)"
    "(of_nat rem :: u32) - of_nat (min (unat m) rem) = of_nat (rem - min (unat m) rem)"
proof -
  note r = unat_of_nat_u32 [OF assms]
  show "min32 m (of_nat rem) = of_nat (min (unat m) rem)"
  proof (cases "unat m < rem")
    case True
    then have "m < of_nat rem" unfolding word_less_nat_alt r .
    then show ?thesis using True by (simp add: min32_def)
  next
    case False
    then have "\<not> m < of_nat rem" unfolding word_less_nat_alt r .
    then show ?thesis using False by (simp add: min32_def)
  qed
  show "(of_nat rem :: u32) - of_nat (min (unat m) rem) = of_nat (rem - min (unat m) rem)"
    by (rule of_nat_diff [symmetric]) simp
qed

lemma packetize_loop_split:
  fixes m :: u32
  assumes "0 < m" "off \<le> length raw" "length raw < 2 ^ 32"
  defines "us \<equiv> split_message (unat m) (drop off raw)"
  shows "packetize_loop m s ppi un raw (of_nat off) (of_nat (length raw - off)) head st free chunks =
    Some (Inr (chunks @ [free..<free + length us],
      place st free (fragment_chunks s ppi un head (off = 0) free us), free + length us))"
  using assms(2) unfolding us_def
proof (induction "length raw - off" arbitrary: off head st free chunks rule: less_induct)
  case less
  let ?rem = "length raw - off"
  have rem: "?rem < 2 ^ 32" using assms(3) by simp
  note w = fragment_words [OF rem, of m]
  show ?case
  proof (cases "?rem = 0")
    case True
    then show ?thesis using less.prems by (subst packetize_loop.simps) simp
  next
    case False
    define f where "f = min (unat m) ?rem"
    have m0: "0 < unat m" using assms(1) by (simp add: word_less_nat_alt)
    then have f: "0 < f" "f \<le> ?rem" "off + f \<le> length raw" using False less.prems by (auto simp: f_def)
    have off: "(of_nat off :: u32) + of_nat f = of_nat (off + f)" by simp
    have u: "unat (of_nat (off + f) :: u32) = off + f" "unat (of_nat off :: u32) = off"
      by (rule unat_of_nat_u32, use f assms(3) in linarith)+
    have o0: "(of_nat off :: u32) = 0 \<longleftrightarrow> off = 0" by (rule of_nat_u32_zero) (use less.prems assms(3) in linarith)
    have sl: "slice_range raw off (off + f) = ok (take f (drop off raw))"
      using f by (simp add: slice_range_def take_drop add.commute)
    have us: "split_message (unat m) (drop off raw) = take f (drop off raw) # split_message (unat m) (drop (off + f) raw)"
    proof -
      have "split_message (unat m) (drop off raw) =
          take (unat m) (drop off raw) # split_message (unat m) (drop (unat m) (drop off raw))"
        using False m0 by (intro split_message_step) auto
      moreover have "take (unat m) (drop off raw) = take f (drop off raw)" by (simp add: f_def min_def)
      moreover have "drop (unat m) (drop off raw) = drop (off + f) raw" by (simp add: f_def min_def add.commute)
      ultimately show ?thesis by simp
    qed
    let ?r = "length raw - (off + f)" and ?us = "split_message (unat m) (drop (off + f) raw)"
    have w': "min32 m (of_nat ?rem) = of_nat f" "(of_nat ?rem :: u32) - of_nat f = of_nat ?r" "(of_nat ?rem :: u32) \<noteq> 0"
      using w of_nat_u32_zero [OF rem] False unfolding f_def [symmetric] by (simp_all only: diff_diff_left simp_thms)
    have "(of_nat ?r :: u32) = 0 \<longleftrightarrow> ?r = 0" by (rule of_nat_u32_zero) (use rem in linarith)
    then have fin': "(of_nat ?r :: u32) = 0 \<longleftrightarrow> ?us = []" by simp
    have IH: "packetize_loop m s ppi un raw (of_nat (off + f)) (of_nat ?r) h st' p ch =
        Some (Inr (ch @ [p..<p + length ?us], place st' p (fragment_chunks s ppi un h False p ?us), p + length ?us))" for h st' p ch
      by (subst less.hyps) (use f False in simp_all)
    have "packetize_loop m s ppi un raw (of_nat off) (of_nat ?rem) head st free chunks =
        packetize_loop m s ppi un raw (of_nat (off + f)) (of_nat ?r) (if head = nil then free else head)
          (st(free \<mapsto> fragment_chunk s ppi un head (off = 0) (?us = []) (take f (drop off raw)))) (free + 1) (chunks @ [free])"
      by (subst packetize_loop.simps)
        (simp only: w' Let_def off u sl o0 fin' fragment_chunk_def sum.case if_True not_False_eq_True)
    then show ?thesis unfolding us IH by (simp add: upt_conv_Cons del: upt_Suc)
  qed
qed

lemma packetize_split:
  fixes m :: u32 and s :: Stream and ppi :: u32
  assumes "0 < m" "length raw < 2 ^ 32"
  defines "us \<equiv> split_message (unat m) raw" and "un \<equiv> ppi \<noteq> PayloadTypeWebRTCDCEP \<and> sm_unordered s"
  shows "packetize m s raw ppi st free =
    Some (Inr ([free..<free + length us], un,
      (if un then s else s\<lparr>sm_sequenceNumber := sm_sequenceNumber s + 1\<rparr>)\<lparr>sm_bufferedAmount := sm_bufferedAmount s + of_nat (length raw)\<rparr>,
      place st free (fragment_chunks s ppi un nil True free us), free + length us))"
  using packetize_loop_split [OF assms(1) _ assms(2), of 0 s ppi un nil st free "[]"]
  unfolding packetize_def us_def un_def by (simp add: Let_def)

text \<open>
  C28: \<^verbatim>\<open>packetize\<close> returns, and cuts the message into nonempty fragments of at most the maximal payload size
  whose concatenation is the message. The chunks are new in the store, carry the stream's identifier and
  sequence number, begin and end flags exactly on the first and the last one, and all but the first point
  to the first. Only ordered messages use up a sequence number.
\<close>

theorem packetize_fragments:
  fixes m :: u32
  assumes "0 < m" "length raw < 2 ^ 32" "free \<noteq> nil"
  shows "\<exists>us s' st'. let un = (ppi \<noteq> PayloadTypeWebRTCDCEP \<and> sm_unordered s) in
    packetize m s raw ppi st free = Some (Inr ([free..<free + length us], un, s', st', free + length us)) \<and>
    concat us = raw \<and> (\<forall>u \<in> set us. u \<noteq> [] \<and> length u \<le> unat m) \<and>
    (\<forall>q < free. st' q = st q) \<and>
    (\<forall>i < length us. \<exists>c. st' (free + i) = Some c \<and> pd_userData c = us ! i \<and>
      pd_beginningFragment c = (i = 0) \<and> pd_endingFragment c = (i = length us - 1) \<and>
      pd_head c = (if i = 0 then nil else free) \<and> pd_unordered c = un \<and> pd_payloadType c = ppi \<and>
      pd_streamIdentifier c = sm_streamIdentifier s \<and> pd_streamSequenceNumber c = sm_sequenceNumber s) \<and>
    sm_sequenceNumber s' = (if un then sm_sequenceNumber s else sm_sequenceNumber s + 1)"
proof -
  define us where "us = split_message (unat m) raw"
  have "0 < unat m" using assms(1) by (simp add: word_less_nat_alt)
  then have sizes: "\<forall>u \<in> set us. u \<noteq> [] \<and> length u \<le> unat m" using split_message_sizes by (auto simp: us_def)
  show ?thesis
    unfolding packetize_split [OF assms(1,2), folded us_def]
    by (rule exI [of _ us])
      (use sizes in \<open>simp add: Let_def us_def [symmetric] place_below place_nth fragment_chunks_nth assms(3) fragment_chunk_def\<close>,
        simp add: us_def concat_split_message)
qed

theorem packetize_fragments_witness:
  "\<exists>us s' st'. let un = (51 \<noteq> PayloadTypeWebRTCDCEP \<and> sm_unordered (new_stream 3)) in
    packetize 2 (new_stream 3) [1, 2, 3] 51 Map.empty 7 = Some (Inr ([7..<7 + length us], un, s', st', 7 + length us)) \<and>
    concat us = [1, 2, 3] \<and> (\<forall>u \<in> set us. u \<noteq> [] \<and> length u \<le> unat (2 :: u32)) \<and>
    (\<forall>q < 7. st' q = Map.empty q) \<and>
    (\<forall>i < length us. \<exists>c. st' (7 + i) = Some c \<and> pd_userData c = us ! i \<and>
      pd_beginningFragment c = (i = 0) \<and> pd_endingFragment c = (i = length us - 1) \<and>
      pd_head c = (if i = 0 then nil else 7) \<and> pd_unordered c = un \<and> pd_payloadType c = 51 \<and>
      pd_streamIdentifier c = sm_streamIdentifier (new_stream 3) \<and> pd_streamSequenceNumber c = sm_sequenceNumber (new_stream 3)) \<and>
    sm_sequenceNumber s' = (if un then sm_sequenceNumber (new_stream 3) else sm_sequenceNumber (new_stream 3) + 1)"
  by (rule packetize_fragments) simp_all

section \<open>From write to read\<close>

text \<open>The chunks of the messages that are written on a stream one after the other.\<close>

fun write_all :: "u32 \<Rightarrow> Stream \<Rightarrow> u32 \<Rightarrow> store \<Rightarrow> addr \<Rightarrow> bytes list \<Rightarrow> chunkPayloadData list list option" where
  "write_all m s ppi st free [] = Some []"
| "write_all m s ppi st free (raw # raws) =
     (case packetize m s raw ppi st free of
        Some (Inr (chunks, un, s, st, free)) \<Rightarrow>
          map_option (\<lambda>css. map (\<lambda>p. the (st p)) chunks # css) (write_all m s ppi st free raws)
      | _ \<Rightarrow> None)"

text \<open>What arrives of the \<open>k\<close>-th message: its chunks under consecutive TSNs from \<open>tsns k\<close> on, as decoded from the wire.\<close>

definition received :: "(nat \<Rightarrow> u32) \<Rightarrow> chunkPayloadData list list \<Rightarrow> nat \<Rightarrow> chunkPayloadData list" where
  "received tsns css k =
     (if k < length css
      then map (\<lambda>i. wire_payload ((css ! k ! i)\<lparr>pd_tsn := tsns k + of_nat i\<rparr>)) [0..<length (css ! k)] else [])"

text \<open>The chunks of an ordered message with sequence number \<open>n\<close>.\<close>

definition chunks_of :: "u16 \<Rightarrow> u16 \<Rightarrow> bytes \<Rightarrow> nat \<Rightarrow> chunkPayloadData list \<Rightarrow> bool" where
  "chunks_of si n raw mx cs \<longleftrightarrow> concat (map pd_userData cs) = raw \<and> cs \<noteq> [] \<and> length cs \<le> length raw \<and>
     (\<forall>c \<in> set cs. length (pd_userData c) \<le> mx) \<and>
     (\<forall>i < length cs. pd_streamIdentifier (cs ! i) = si \<and> \<not> pd_unordered (cs ! i) \<and> pd_streamSequenceNumber (cs ! i) = n \<and>
        pd_beginningFragment (cs ! i) = (i = 0) \<and> pd_endingFragment (cs ! i) = (i = length cs - 1) \<and>
        pd_payloadType (cs ! i) = pd_payloadType (cs ! 0))"

lemma placed_chunks:
  "map (\<lambda>p. the (place st free cs p)) [free..<free + length cs] = cs"
  by (rule nth_equalityI) (simp_all add: place_nth)

lemma packetize_chunks_of:
  fixes m :: u32
  assumes "0 < m" "raw \<noteq> []" "free \<noteq> nil"
  shows "chunks_of (sm_streamIdentifier s) (sm_sequenceNumber s) raw (unat m)
    (fragment_chunks s ppi False nil True free (split_message (unat m) raw))"
proof -
  let ?us = "split_message (unat m) raw"
  let ?cs = "fragment_chunks s ppi False nil True free ?us"
  have m: "0 < unat m" using assms(1) by (simp add: word_less_nat_alt)
  have nth: "?cs ! i = fragment_chunk s ppi False (if i = 0 then nil else free) (i = 0) (i = length ?us - 1) (?us ! i)"
    if "i < length ?us" for i using fragment_chunks_nth [OF that assms(3)] .
  have "map pd_userData ?cs = ?us" by (rule nth_equalityI) (simp_all add: nth fragment_chunk_def)
  then have "concat (map pd_userData ?cs) = raw" "\<forall>c \<in> set ?cs. length (pd_userData c) \<le> unat m"
    using split_message_sizes [OF m] by (simp add: concat_split_message, metis image_eqI list.set_map)
  moreover have "?us \<noteq> []" using assms(2) by simp
  then have "?cs \<noteq> []" by (metis length_0_conv length_fragment_chunks)
  ultimately show ?thesis
    using nth length_split_message [OF m, of raw] \<open>?us \<noteq> []\<close>
    unfolding chunks_of_def by (auto simp: fragment_chunk_def nth)
qed

lemma write_all_chunks:
  fixes m :: u32
  assumes "0 < m" "free \<noteq> nil" "\<forall>raw \<in> set raws. raw \<noteq> [] \<and> length raw < 2 ^ 31"
    "ppi = PayloadTypeWebRTCDCEP \<or> \<not> sm_unordered s"
  shows "\<exists>css. write_all m s ppi st free raws = Some css \<and> length css = length raws \<and>
    (\<forall>k < length raws. chunks_of (sm_streamIdentifier s) (sm_sequenceNumber s + of_nat k) (raws ! k) (unat m) (css ! k))"
  using assms
proof (induction raws arbitrary: s st free)
  case (Cons raw raws)
  let ?us = "split_message (unat m) raw"
  let ?cs = "fragment_chunks s ppi False nil True free ?us"
  let ?s = "s\<lparr>sm_sequenceNumber := sm_sequenceNumber s + 1, sm_bufferedAmount := sm_bufferedAmount s + of_nat (length raw)\<rparr>"
  have un: "(ppi \<noteq> PayloadTypeWebRTCDCEP \<and> sm_unordered s) = False" using Cons.prems(4) by blast
  have raw: "length raw < 2 ^ 32" using Cons.prems(3) by simp
  note p = packetize_split [OF Cons.prems(1) raw, of s ppi st free, unfolded un if_False]
  obtain css where css: "write_all m ?s ppi (place st free ?cs) (free + length ?us) raws = Some css" "length css = length raws"
    "\<forall>k < length raws. chunks_of (sm_streamIdentifier s) (sm_sequenceNumber ?s + of_nat k) (raws ! k) (unat m) (css ! k)"
    using Cons.IH [of "free + length ?us" ?s "place st free ?cs"] Cons.prems by auto
  have "write_all m s ppi st free (raw # raws) = Some (?cs # css)"
    using placed_chunks [of st free ?cs] by (simp add: p css(1))
  moreover have "chunks_of (sm_streamIdentifier s) (sm_sequenceNumber s + of_nat k) ((raw # raws) ! k) (unat m) ((?cs # css) ! k)"
    if "k < length (raw # raws)" for k
    using that css(3) packetize_chunks_of [OF Cons.prems(1) _ Cons.prems(2), of raw s ppi] Cons.prems(3)
    by (cases k) (auto simp: add.assoc)
  ultimately show ?case using css(2) by auto
qed simp

lemma received_message_ok:
  assumes "chunks_of si (of_nat k) raw mx (css ! k)" "k < length css" "length raw < 2 ^ 31"
  shows "message_ok si k (received tsns css k)" "payload (received tsns css k) = raw"
proof -
  show "message_ok si k (received tsns css k)"
  proof -
    let ?m = "received tsns css k" and ?cs = "css ! k"
    have len: "length ?m = length ?cs" using assms(2) by (simp add: received_def)
    have nth: "?m ! i = wire_payload ((?cs ! i)\<lparr>pd_tsn := tsns k + of_nat i\<rparr>)" if "i < length ?cs" for i
      using that assms(2) by (simp add: received_def)
    have cs: "?cs \<noteq> []" "length ?cs \<le> length raw" using assms(1) by (simp_all add: chunks_of_def)
    then have "0 < length ?cs" by simp
    note nth0 = nth [OF this]
    have "\<forall>i < length ?cs. pd_streamIdentifier (?cs ! i) = si \<and> \<not> pd_unordered (?cs ! i) \<and> pd_streamSequenceNumber (?cs ! i) = of_nat k \<and>
        pd_beginningFragment (?cs ! i) = (i = 0) \<and> pd_endingFragment (?cs ! i) = (i = length ?cs - 1) \<and>
        pd_payloadType (?cs ! i) = pd_payloadType (?cs ! 0)"
      using assms(1) unfolding chunks_of_def by blast
    then have "\<forall>i < length ?cs. pd_streamIdentifier (?m ! i) = si \<and> \<not> pd_unordered (?m ! i) \<and> pd_streamSequenceNumber (?m ! i) = of_nat k \<and>
        pd_tsn (?m ! i) = pd_tsn (?m ! 0) + of_nat i \<and>
        pd_beginningFragment (?m ! i) = (i = 0) \<and> pd_endingFragment (?m ! i) = (i = length ?cs - 1) \<and>
        pd_payloadType (?m ! i) = pd_payloadType (?m ! 0) \<and> pd_head (?m ! i) = nil"
      by (simp add: nth nth0 wire_payload_def zero_payload_def)
    moreover have "?m \<noteq> []" using len cs(1) by (metis length_0_conv)
    ultimately show ?thesis unfolding message_ok_def len using le_less_trans [OF cs(2) assms(3)] by blast
  qed
  have "map pd_userData (received tsns css k) = map pd_userData (css ! k)"
    by (rule nth_equalityI) (use assms(2) in \<open>simp_all add: received_def wire_payload_def\<close>)
  then show "payload (received tsns css k) = raw" using assms(1) by (simp add: payload_def chunks_of_def)
qed

lemma ord_step_delivers:
  assumes "k \<in> set (fst (ord_step msgs st e))" "finite (fst st)"
  shows "k \<in> fst ` fst st"
proof (cases e)
  case (Fetch len)
  obtain got n where st: "st = (got, n)" by (cases st)
  then have "got \<noteq> {}" "k = Min (fst ` got)" using assms(1) Fetch by (auto simp: deliverable_def split: if_splits)
  then show ?thesis using Min_in [of "fst ` got"] assms(2) st by simp
qed (use assms(1) in \<open>cases st; simp\<close>)+

lemma ord_step_holds:
  assumes "p \<in> fst (snd (ord_step msgs st e))"
  shows "p \<in> fst st \<or> e = Arrive (fst p) (snd p)"
  using assms by (cases st; cases e) (auto simp: delivered_def skipped_def Let_def split: if_splits)

lemma ord_step_finite: "finite (fst st) \<Longrightarrow> finite (fst (snd (ord_step msgs st e)))"
  by (cases st; cases e) (auto simp: delivered_def skipped_def Let_def)

lemma ord_run_delivers:
  assumes "k \<in> set (fst (ord_run msgs st es))" "finite (fst st)"
  shows "k \<in> fst ` fst st \<or> (\<exists>i. Arrive k i \<in> set es)"
  using assms
proof (induction es arbitrary: st)
  case (Cons e es)
  obtain out st' where step: "ord_step msgs st e = (out, st')" by (cases "ord_step msgs st e")
  have "k \<in> set out \<or> k \<in> set (fst (ord_run msgs st' es))" using Cons.prems(1) step by (auto split: prod.splits)
  then show ?case
  proof
    assume "k \<in> set out"
    then show ?thesis using ord_step_delivers [of k msgs st e] step Cons.prems(2) by simp
  next
    assume "k \<in> set (fst (ord_run msgs st' es))"
    then have "k \<in> fst ` fst st' \<or> (\<exists>i. Arrive k i \<in> set es)"
      using Cons.IH [of st'] ord_step_finite [OF Cons.prems(2), of msgs e] step by simp
    then show ?thesis using ord_step_holds [of _ msgs st e] step by fastforce
  qed
qed simp

lemma ord_run_ok_message: "ord_run_ok si msgs st es \<Longrightarrow> Arrive k i \<in> set es \<Longrightarrow> message_ok si k (msgs k)"
proof (induction es arbitrary: st)
  case (Cons e es)
  show ?case
  proof (cases "e = Arrive k i")
    case True
    then show ?thesis using Cons.prems by (cases st) auto
  next
    case False
    show ?thesis by (rule Cons.IH [of "snd (ord_step msgs st e)"]) (use Cons.prems False in auto)
  qed
qed simp



end
