(* ===== verification/Sctp_Assoc.thy ===== *)
theory Sctp_Assoc
  imports Sctp_Stream Sctp_RecvQueue Sctp_Packet "HOL-Library.Monad_Syntax" "HOL-Library.AList"
begin

text \<open>
  The association of \<^verbatim>\<open>sctp/association.go\<close>: its state, its construction, the first messages of the
  handshake, closing, and the interface to the streams. \<^verbatim>\<open>association_stats.go\<close> is here as well.

  Methods are functions on the record. Their result is an option: \<open>None\<close> stands for a call that does not
  return, because of a run-time panic, of a loop that does not end or of a channel operation that blocks for
  ever. Returned errors are values. A method that holds the lock is one step; the moments at which
  \<^verbatim>\<open>handleSack\<close> and \<^verbatim>\<open>resetStreamsIfAny\<close> release the lock around a call into a stream are not.

  Go maps are association lists, so that iterations follow the order of insertion. DATA chunks to be sent
  and streams are shared by pointer and live in the stores \<open>as_store\<close> and \<open>as_streamStore\<close>. Channels
  are represented by what a select on them can see.
\<close>

section \<open>Constants\<close>

definition defaultSCTPSrcDstPort :: u16 where "defaultSCTPSrcDstPort = 5000"
definition receiveMTU :: u32 where "receiveMTU = 8192"
definition initialMTU :: u32 where "initialMTU = 1228"
definition initialRecvBufSize :: u32 where "initialRecvBufSize = 1024 * 1024"
definition commonHeaderSize :: u32 where "commonHeaderSize = 12"
definition dataChunkHeaderSize :: u32 where "dataChunkHeaderSize = 16"
definition defaultMaxMessageSize :: u32 where "defaultMaxMessageSize = 65536"
definition acceptChSize :: nat where "acceptChSize = 16"
definition avgChunkSize :: u32 where "avgChunkSize = 500"
definition minTSNOffset :: u32 where "minTSNOffset = 2000"
definition maxTSNOffset :: u32 where "maxTSNOffset = 40000"
definition maxReconfigRequests :: nat where "maxReconfigRequests = 1000"
definition dtlsErrorDetectionMethod :: u32 where "dtlsErrorDetectionMethod = 1"
definition reconfigResultSuccessPerformed :: u32 where "reconfigResultSuccessPerformed = 1"
definition reconfigResultInProgress :: u32 where "reconfigResultInProgress = 6"

datatype assocState =
    Closed | CookieWait | CookieEchoed | Established
  | ShutdownAckSent | ShutdownPending | ShutdownReceived | ShutdownSent

datatype timerId = TimerT1Init | TimerT1Cookie | TimerT2Shutdown | TimerT3RTX | TimerReconfig

datatype ackModes = AckModeNormal | AckModeNoDelay | AckModeAlwaysDelay

datatype ackStates = AckStateIdle | AckStateImmediate | AckStateDelay

definition getAssociationStateString :: "assocState \<Rightarrow> string" where
  "getAssociationStateString assoc =
     (case assoc of
        Closed \<Rightarrow> ''Closed'' | CookieWait \<Rightarrow> ''CookieWait'' | CookieEchoed \<Rightarrow> ''CookieEchoed''
      | Established \<Rightarrow> ''Established'' | ShutdownPending \<Rightarrow> ''ShutdownPending''
      | ShutdownSent \<Rightarrow> ''ShutdownSent'' | ShutdownReceived \<Rightarrow> ''ShutdownReceived''
      | ShutdownAckSent \<Rightarrow> ''ShutdownAckSent'')"

section \<open>Statistics\<close>

record associationStats =
  nPacketsReceived :: u64
  nPacketsSent :: u64
  nDATAs :: u64
  nSACKsReceived :: u64
  nSACKsSent :: u64
  nT3Timeouts :: u64
  nAckTimeouts :: u64
  nFastRetrans :: u64

definition incPacketsReceived :: "associationStats \<Rightarrow> associationStats" where
  "incPacketsReceived s = s\<lparr>nPacketsReceived := nPacketsReceived s + 1\<rparr>"

definition getNumPacketsReceived :: "associationStats \<Rightarrow> u64" where
  "getNumPacketsReceived s = nPacketsReceived s"

definition incPacketsSent :: "associationStats \<Rightarrow> associationStats" where
  "incPacketsSent s = s\<lparr>nPacketsSent := nPacketsSent s + 1\<rparr>"

definition getNumPacketsSent :: "associationStats \<Rightarrow> u64" where
  "getNumPacketsSent s = nPacketsSent s"

definition incDATAs :: "associationStats \<Rightarrow> associationStats" where
  "incDATAs s = s\<lparr>nDATAs := nDATAs s + 1\<rparr>"

definition getNumDATAs :: "associationStats \<Rightarrow> u64" where
  "getNumDATAs s = nDATAs s"

definition incSACKsReceived :: "associationStats \<Rightarrow> associationStats" where
  "incSACKsReceived s = s\<lparr>nSACKsReceived := nSACKsReceived s + 1\<rparr>"

definition getNumSACKsReceived :: "associationStats \<Rightarrow> u64" where
  "getNumSACKsReceived s = nSACKsReceived s"

definition incSACKsSent :: "associationStats \<Rightarrow> associationStats" where
  "incSACKsSent s = s\<lparr>nSACKsSent := nSACKsSent s + 1\<rparr>"

definition getNumSACKsSent :: "associationStats \<Rightarrow> u64" where
  "getNumSACKsSent s = nSACKsSent s"

definition incT3Timeouts :: "associationStats \<Rightarrow> associationStats" where
  "incT3Timeouts s = s\<lparr>nT3Timeouts := nT3Timeouts s + 1\<rparr>"

definition getNumT3Timeouts :: "associationStats \<Rightarrow> u64" where
  "getNumT3Timeouts s = nT3Timeouts s"

definition incAckTimeouts :: "associationStats \<Rightarrow> associationStats" where
  "incAckTimeouts s = s\<lparr>nAckTimeouts := nAckTimeouts s + 1\<rparr>"

definition getNumAckTimeouts :: "associationStats \<Rightarrow> u64" where
  "getNumAckTimeouts s = nAckTimeouts s"

definition incFastRetrans :: "associationStats \<Rightarrow> associationStats" where
  "incFastRetrans s = s\<lparr>nFastRetrans := nFastRetrans s + 1\<rparr>"

definition getNumFastRetrans :: "associationStats \<Rightarrow> u64" where
  "getNumFastRetrans s = nFastRetrans s"

definition associationStats_reset :: "associationStats \<Rightarrow> associationStats" where
  "associationStats_reset s =
     s\<lparr>nPacketsReceived := 0, nPacketsSent := 0, nDATAs := 0, nSACKsReceived := 0, nSACKsSent := 0,
       nT3Timeouts := 0, nAckTimeouts := 0, nFastRetrans := 0\<rparr>"

section \<open>The association\<close>

text \<open>The fields of \<^verbatim>\<open>paramOutgoingResetRequest\<close>: its number, the response number, the last TSN, the streams.\<close>

type_synonym resetRequest = "u32 \<times> u32 \<times> u32 \<times> u16 list"

text \<open>
  The fields after \<open>as_streams\<close> that differ from the source: the buffered streams of \<^verbatim>\<open>acceptCh\<close>, whether a
  channel is closed, whether the token of \<^verbatim>\<open>awakeWriteLoopCh\<close> and \<^verbatim>\<open>writeNotify\<close> is there, and for
  \<^verbatim>\<open>handshakeCompletedCh\<close> whether \<^verbatim>\<open>Client\<close> or \<^verbatim>\<open>Server\<close> still waits and what it has received.
\<close>

record Association =
  as_bytesReceived :: u64
  as_bytesSent :: u64
  as_peerVerificationTag :: u32
  as_myVerificationTag :: u32
  as_state :: assocState
  as_initialTSN :: u32
  as_myNextTSN :: u32
  as_minTSN2MeasureRTT :: u32
  as_willSendForwardTSN :: bool
  as_willRetransmitFast :: bool
  as_willRetransmitReconfig :: bool
  as_willSendShutdown :: bool
  as_willSendShutdownAck :: bool
  as_willSendShutdownComplete :: bool
  as_willSendAbort :: bool
  as_willSendAbortCause :: "errorCause option"
  as_myNextRSN :: u32
  as_reconfigs :: "(u32 \<times> chunk_body) list"
  as_reconfigRequests :: "(u32 \<times> resetRequest) list"
  as_sourcePort :: u16
  as_destinationPort :: u16
  as_myMaxNumInboundStreams :: u16
  as_myMaxNumOutboundStreams :: u16
  as_myCookie :: "bytes option"
  as_payloadQueue :: receivePayloadQueue
  as_inflightQueue :: payloadQueue
  as_pendingQueue :: pendingQueue
  as_controlQueue :: "packet list"
  as_mtu :: u32
  as_maxPayloadSize :: u32
  as_srtt :: rat
  as_cumulativeTSNAckPoint :: u32
  as_advancedPeerTSNAckPoint :: u32
  as_useForwardTSN :: bool
  as_sendZeroChecksum :: bool
  as_recvZeroChecksum :: bool
  as_maxReceiveBufferSize :: u32
  as_maxMessageSize :: u32
  as_cwnd :: u32
  as_rwnd :: u32
  as_ssthresh :: u32
  as_partialBytesAcked :: u32
  as_inFastRecovery :: bool
  as_fastRecoverExitPoint :: u32
  as_minCwnd :: u32
  as_fastRtxWnd :: u32
  as_cwndCAStep :: u32
  as_rtoMgr :: rtoManager
  as_t1Init :: rtxTimer
  as_t1Cookie :: rtxTimer
  as_t2Shutdown :: rtxTimer
  as_t3RTX :: rtxTimer
  as_tReconfig :: rtxTimer
  as_ackTimer :: ackTimer
  as_storedInit :: "chunkInitCommon option"
  as_storedCookieEcho :: "bytes option"
  as_streams :: "(u16 \<times> addr) list"
  as_acceptCh :: "addr list"
  as_acceptClosed :: bool
  as_readLoopClosed :: bool
  as_awakeWriteLoop :: bool
  as_closeWriteLoop :: bool
  as_handshakeWaiting :: bool
  as_handshakeResult :: "sctp_err option option"
  as_ackState :: ackStates
  as_ackMode :: ackModes
  as_stats :: associationStats
  as_delayedAckTriggered :: bool
  as_immediateAckTriggered :: bool
  as_blockWrite :: bool
  as_writePending :: bool
  as_writeNotify :: bool
  as_store :: store
  as_freeChunk :: addr
  as_streamStore :: "addr \<Rightarrow> Stream option"
  as_freeStream :: addr

record Config =
  cf_MaxReceiveBufferSize :: u32
  cf_MaxMessageSize :: u32
  cf_EnableZeroChecksum :: bool
  cf_BlockWrite :: bool
  cf_RTOMax :: rat
  cf_MinCwnd :: u32
  cf_FastRtxWnd :: u32
  cf_CwndCAStep :: u32

text \<open>
  What a step takes from its environment: the time in milliseconds, the cookie of the random generator
  (\<open>None\<close> if it fails), the error of \<^verbatim>\<open>netConn.Close\<close>, and the choice of a \<^verbatim>\<open>select\<close> with two ready cases.
\<close>

record env =
  en_now :: nat
  en_cookie :: "bytes option"
  en_closeErr :: "sctp_err option"
  en_select :: bool

text \<open>The value of a result without an error; a panic does not return.\<close>

definition returned :: "(sctp_err, 'a) res \<Rightarrow> 'a option" where
  "returned r = (case r of Inl e \<Rightarrow> None | Inr x \<Rightarrow> Some x)"

lemma returned_simps [simp]: "returned (Inl e) = None" "returned (Inr x) = Some x"
  by (simp_all add: returned_def)

section \<open>Accessors\<close>

definition min16 :: "u16 \<Rightarrow> u16 \<Rightarrow> u16" where
  "min16 a b = (if a < b then a else b)"

definition max32 :: "u32 \<Rightarrow> u32 \<Rightarrow> u32" where
  "max32 a b = (if a > b then a else b)"

definition peerLastTSN :: "Association \<Rightarrow> u32" where
  "peerLastTSN a = getcumulativeTSN (as_payloadQueue a)"

definition setState :: "Association \<Rightarrow> assocState \<Rightarrow> Association" where
  "setState a newState = a\<lparr>as_state := newState\<rparr>"

definition getState :: "Association \<Rightarrow> assocState" where
  "getState a = as_state a"

definition BytesSent :: "Association \<Rightarrow> u64" where
  "BytesSent a = as_bytesSent a"

definition BytesReceived :: "Association \<Rightarrow> u64" where
  "BytesReceived a = as_bytesReceived a"

definition MTU :: "Association \<Rightarrow> u32" where
  "MTU a = as_mtu a"

definition CWND :: "Association \<Rightarrow> u32" where
  "CWND a = as_cwnd a"

definition setCWND :: "Association \<Rightarrow> u32 \<Rightarrow> Association" where
  "setCWND a cwnd = (let cwnd = (if cwnd < as_minCwnd a then as_minCwnd a else cwnd) in a\<lparr>as_cwnd := cwnd\<rparr>)"

definition RWND :: "Association \<Rightarrow> u32" where
  "RWND a = as_rwnd a"

definition setRWND :: "Association \<Rightarrow> u32 \<Rightarrow> Association" where
  "setRWND a rwnd = a\<lparr>as_rwnd := rwnd\<rparr>"

definition SRTT :: "Association \<Rightarrow> rat" where
  "SRTT a = as_srtt a"

definition MaxMessageSize :: "Association \<Rightarrow> u32" where
  "MaxMessageSize a = as_maxMessageSize a"

definition SetMaxMessageSize :: "Association \<Rightarrow> u32 \<Rightarrow> Association" where
  "SetMaxMessageSize a maxMsgSize = a\<lparr>as_maxMessageSize := maxMsgSize\<rparr>"

definition association_bufferedAmount :: "Association \<Rightarrow> int" where
  "association_bufferedAmount a =
     pendingQueue_getNumBytes (as_pendingQueue a) + payloadQueue_getNumBytes (as_inflightQueue a)"

definition getMaxTSNOffset :: "u32 \<Rightarrow> u32" where
  "getMaxTSNOffset maxReceiveBufferSize =
     (let offset = (maxReceiveBufferSize * 4) div avgChunkSize;
          offset = (if offset < minTSNOffset then minTSNOffset else offset)
      in if offset > maxTSNOffset then maxTSNOffset else offset)"

definition setSupportedExtensions :: "chunkInitCommon \<Rightarrow> chunkInitCommon" where
  "setSupportedExtensions i = i\<lparr>ic_params := ic_params i @ [ParamSupportedExtensions [ctReconfig, ctForwardTSN]]\<rparr>"

definition awakeWriteLoop :: "Association \<Rightarrow> Association" where
  "awakeWriteLoop a = a\<lparr>as_awakeWriteLoop := True\<rparr>"

definition isBlockWrite :: "Association \<Rightarrow> bool" where
  "isBlockWrite a = as_blockWrite a"

definition notifyBlockWritable :: "Association \<Rightarrow> Association" where
  "notifyBlockWritable a = a\<lparr>as_writePending := False, as_writeNotify := True\<rparr>"

definition createPacket :: "Association \<Rightarrow> chunk list \<Rightarrow> packet" where
  "createPacket a cs =
     \<lparr>pk_sourcePort = as_sourcePort a, pk_destinationPort = as_destinationPort a,
      pk_verificationTag = as_peerVerificationTag a, pk_chunks = cs\<rparr>"

definition pack :: "packet \<Rightarrow> packet list" where
  "pack p = [p]"

definition generateNextTSN :: "Association \<Rightarrow> u32 \<times> Association" where
  "generateNextTSN a = (as_myNextTSN a, a\<lparr>as_myNextTSN := as_myNextTSN a + 1\<rparr>)"

definition generateNextRSN :: "Association \<Rightarrow> u32 \<times> Association" where
  "generateNextRSN a = (as_myNextRSN a, a\<lparr>as_myNextRSN := as_myNextRSN a + 1\<rparr>)"

section \<open>Construction and the first message\<close>

text \<open>\<^verbatim>\<open>createAssociation\<close> with the two numbers it draws from the random generator.\<close>

definition createAssociation :: "u32 \<Rightarrow> u32 \<Rightarrow> Config \<Rightarrow> Association" where
  "createAssociation tsn tag config =
     (let maxReceiveBufferSize = (if cf_MaxReceiveBufferSize config = 0 then initialRecvBufSize
                                  else cf_MaxReceiveBufferSize config);
          maxMessageSize = (if cf_MaxMessageSize config = 0 then defaultMaxMessageSize else cf_MaxMessageSize config);
          assoc =
            \<lparr>as_bytesReceived = 0, as_bytesSent = 0, as_peerVerificationTag = 0, as_myVerificationTag = tag,
             as_state = Closed, as_initialTSN = tsn, as_myNextTSN = tsn, as_minTSN2MeasureRTT = tsn,
             as_willSendForwardTSN = False, as_willRetransmitFast = False, as_willRetransmitReconfig = False,
             as_willSendShutdown = False, as_willSendShutdownAck = False, as_willSendShutdownComplete = False,
             as_willSendAbort = False, as_willSendAbortCause = None, as_myNextRSN = tsn, as_reconfigs = [],
             as_reconfigRequests = [], as_sourcePort = 0, as_destinationPort = 0,
             as_myMaxNumInboundStreams = 65535, as_myMaxNumOutboundStreams = 65535, as_myCookie = None,
             as_payloadQueue = newReceivePayloadQueue (getMaxTSNOffset maxReceiveBufferSize),
             as_inflightQueue = newPayloadQueue, as_pendingQueue = newPendingQueue, as_controlQueue = newControlQueue,
             as_mtu = initialMTU, as_maxPayloadSize = initialMTU - (commonHeaderSize + dataChunkHeaderSize),
             as_srtt = 0, as_cumulativeTSNAckPoint = tsn - 1, as_advancedPeerTSNAckPoint = tsn - 1,
             as_useForwardTSN = False, as_sendZeroChecksum = False,
             as_recvZeroChecksum = cf_EnableZeroChecksum config,
             as_maxReceiveBufferSize = maxReceiveBufferSize, as_maxMessageSize = maxMessageSize,
             as_cwnd = 0, as_rwnd = 0, as_ssthresh = 0, as_partialBytesAcked = 0, as_inFastRecovery = False,
             as_fastRecoverExitPoint = 0, as_minCwnd = cf_MinCwnd config, as_fastRtxWnd = cf_FastRtxWnd config,
             as_cwndCAStep = cf_CwndCAStep config, as_rtoMgr = newRTOManager (cf_RTOMax config),
             as_t1Init = newRTXTimer maxInitRetrans (cf_RTOMax config),
             as_t1Cookie = newRTXTimer maxInitRetrans (cf_RTOMax config),
             as_t2Shutdown = newRTXTimer noMaxRetrans (cf_RTOMax config),
             as_t3RTX = newRTXTimer noMaxRetrans (cf_RTOMax config),
             as_tReconfig = newRTXTimer noMaxRetrans (cf_RTOMax config), as_ackTimer = newAckTimer,
             as_storedInit = None, as_storedCookieEcho = None, as_streams = [], as_acceptCh = [],
             as_acceptClosed = False, as_readLoopClosed = False, as_awakeWriteLoop = False,
             as_closeWriteLoop = False, as_handshakeWaiting = True, as_handshakeResult = None,
             as_ackState = AckStateIdle, as_ackMode = AckModeNormal,
             as_stats = \<lparr>nPacketsReceived = 0, nPacketsSent = 0, nDATAs = 0, nSACKsReceived = 0, nSACKsSent = 0,
               nT3Timeouts = 0, nAckTimeouts = 0, nFastRetrans = 0\<rparr>,
             as_delayedAckTriggered = False, as_immediateAckTriggered = False,
             as_blockWrite = cf_BlockWrite config, as_writePending = False, as_writeNotify = False,
             as_store = (\<lambda>_. None), as_freeChunk = 1, as_streamStore = (\<lambda>_. None), as_freeStream = 1\<rparr>
      in setCWND assoc (min32 (4 * MTU assoc) (max32 (2 * MTU assoc) 4380)))"

definition zero_init :: chunkInitCommon where
  "zero_init = \<lparr>ic_initiateTag = 0, ic_advertisedReceiverWindowCredit = 0, ic_numOutboundStreams = 0,
     ic_numInboundStreams = 0, ic_initialTSN = 0, ic_params = [], ic_unrecognizedParams = []\<rparr>"

definition sendInit :: "Association \<Rightarrow> sctp_err option \<times> Association" where
  "sendInit a =
     (case as_storedInit a of
        None \<Rightarrow> (Some (AssocE ErrInitNotStoredToSend), a)
      | Some i \<Rightarrow>
          let a = a\<lparr>as_sourcePort := defaultSCTPSrcDstPort, as_destinationPort := defaultSCTPSrcDstPort\<rparr>;
              outbound = \<lparr>pk_sourcePort = as_sourcePort a, pk_destinationPort = as_destinationPort a,
                          pk_verificationTag = 0, pk_chunks = [new_chunk (ChunkInit i)]\<rparr>;
              a = a\<lparr>as_controlQueue := controlQueue_push (as_controlQueue a) outbound\<rparr>
          in (None, awakeWriteLoop a))"

definition sendCookieEcho :: "Association \<Rightarrow> sctp_err option \<times> Association" where
  "sendCookieEcho a =
     (case as_storedCookieEcho a of
        None \<Rightarrow> (Some (AssocE ErrCookieEchoNotStoredToSend), a)
      | Some cookie \<Rightarrow>
          let outbound = createPacket a [new_chunk (ChunkCookieEcho cookie)];
              a = a\<lparr>as_controlQueue := controlQueue_push (as_controlQueue a) outbound\<rparr>
          in (None, awakeWriteLoop a))"

definition association_init :: "Association \<Rightarrow> bool \<Rightarrow> Association" where
  "association_init a isClient =
     (if isClient then
        let i = zero_init\<lparr>ic_initialTSN := as_myNextTSN a, ic_numOutboundStreams := as_myMaxNumOutboundStreams a,
                  ic_numInboundStreams := as_myMaxNumInboundStreams a, ic_initiateTag := as_myVerificationTag a,
                  ic_advertisedReceiverWindowCredit := as_maxReceiveBufferSize a\<rparr>;
            i = setSupportedExtensions i;
            i = (if as_recvZeroChecksum a
                 then i\<lparr>ic_params := ic_params i @ [ParamZeroChecksumAcceptable dtlsErrorDetectionMethod]\<rparr> else i);
            a = a\<lparr>as_storedInit := Some i\<rparr>;
            a = snd (sendInit a);
            a = setState a CookieWait
        in a\<lparr>as_t1Init := snd (rtxTimer_start (as_t1Init a) (getRTO (as_rtoMgr a)))\<rparr>
      else a)"

text \<open>
  \<^verbatim>\<open>Server\<close> and \<^verbatim>\<open>createClientWithContext\<close> up to their select, and the value the select gives once it is
  ready: the result of the handshake, or the end of the read loop (\<open>None\<close> while it blocks).
\<close>

definition Server :: "u32 \<Rightarrow> u32 \<Rightarrow> Config \<Rightarrow> Association" where
  "Server tsn tag config = association_init (createAssociation tsn tag config) False"

definition createClientWithContext :: "u32 \<Rightarrow> u32 \<Rightarrow> Config \<Rightarrow> Association" where
  "createClientWithContext tsn tag config = association_init (createAssociation tsn tag config) True"

definition Client :: "u32 \<Rightarrow> u32 \<Rightarrow> Config \<Rightarrow> Association" where
  "Client tsn tag config = createClientWithContext tsn tag config"

definition connect_result :: "Association \<Rightarrow> (sctp_err option) option" where
  "connect_result a =
     (case as_handshakeResult a of
        Some r \<Rightarrow> Some r
      | None \<Rightarrow> if as_readLoopClosed a then Some (Some (AssocE ErrAssociationClosedBeforeConn)) else None)"

text \<open>
  \<^verbatim>\<open>completeHandshake\<close>: the receiver of \<^verbatim>\<open>handshakeCompletedCh\<close> takes one value; without a receiver and
  without a closed channel the send blocks for ever.
\<close>

definition completeHandshake :: "env \<Rightarrow> Association \<Rightarrow> sctp_err option \<Rightarrow> (bool \<times> Association) option" where
  "completeHandshake e a handshakeErr =
     (let closed = (as_closeWriteLoop a \<or> as_readLoopClosed a)
      in if as_handshakeWaiting a \<and> (\<not> closed \<or> en_select e)
         then Some (True, a\<lparr>as_handshakeWaiting := False, as_handshakeResult := Some handshakeErr\<rparr>)
         else if closed then Some (False, a) else None)"

section \<open>Closing\<close>

definition closeAllTimers :: "Association \<Rightarrow> Association" where
  "closeAllTimers a =
     a\<lparr>as_t1Init := rtxTimer_close (as_t1Init a), as_t1Cookie := rtxTimer_close (as_t1Cookie a),
       as_t2Shutdown := rtxTimer_close (as_t2Shutdown a), as_t3RTX := rtxTimer_close (as_t3RTX a),
       as_tReconfig := rtxTimer_close (as_tReconfig a), as_ackTimer := ackTimer_close (as_ackTimer a)\<rparr>"

definition association_close :: "env \<Rightarrow> Association \<Rightarrow> sctp_err option \<times> Association" where
  "association_close e a =
     (let a = setState a Closed;
          err = en_closeErr e;
          a = closeAllTimers a;
          a = a\<lparr>as_closeWriteLoop := True\<rparr>
      in (err, a))"

text \<open>\<^verbatim>\<open>Shutdown\<close> up to its select, which returns when the write loop is closed.\<close>

definition Shutdown :: "Association \<Rightarrow> sctp_err option \<times> Association" where
  "Shutdown a =
     (if getState a \<noteq> Established then (Some (AssocE ErrShutdownNonEstablished), a)
      else let a = setState a ShutdownPending
           in if payloadQueue_size (as_inflightQueue a) = 0
              then (None, setState (awakeWriteLoop (a\<lparr>as_willSendShutdown := True\<rparr>)) ShutdownSent)
              else (None, a))"

definition Abort :: "Association \<Rightarrow> bytes \<Rightarrow> Association" where
  "Abort a reason =
     awakeWriteLoop (a\<lparr>as_willSendAbort := True,
       as_willSendAbortCause := Some (\<lparr>ec_code = 0, ec_len = 0, ec_raw = []\<rparr>, UserInitiatedAbort reason)\<rparr>)"

section \<open>Streams\<close>

definition update_stream :: "Association \<Rightarrow> addr \<Rightarrow> Stream \<Rightarrow> Association" where
  "update_stream a p s = a\<lparr>as_streamStore := (as_streamStore a)(p \<mapsto> s)\<rparr>"

definition unregisterStream :: "Association \<Rightarrow> addr \<Rightarrow> sctp_err \<Rightarrow> Association option" where
  "unregisterStream a p err =
     do {
       s \<leftarrow> as_streamStore a p;
       let a = a\<lparr>as_streams := AList.delete (sm_streamIdentifier s) (as_streams a)\<rparr>;
       let s = s\<lparr>sm_readErr := Some err\<rparr>;
       Some (update_stream a p (Cond_Broadcast s))
     }"

fun unregister_all :: "Association \<Rightarrow> (u16 \<times> addr) list \<Rightarrow> sctp_err \<Rightarrow> Association option" where
  "unregister_all a [] err = Some a"
| "unregister_all a ((si, p) # ss) err = do { a \<leftarrow> unregisterStream a p err; unregister_all a ss err }"

text \<open>\<^verbatim>\<open>createStream\<close>: the address of the stream, \<^verbatim>\<open>nil\<close> if the accept channel is full; a send on the closed channel panics.\<close>

definition createStream :: "Association \<Rightarrow> u16 \<Rightarrow> bool \<Rightarrow> (addr \<times> Association) option" where
  "createStream a streamIdentifier accept =
     (let p = as_freeStream a;
          b = (update_stream a p (new_stream streamIdentifier))\<lparr>as_freeStream := p + 1\<rparr>;
          register = (\<lambda>b. b\<lparr>as_streams := AList.update streamIdentifier p (as_streams b)\<rparr>)
      in if accept then
           if as_acceptClosed a then None
           else if length (as_acceptCh a) < acceptChSize
           then Some (p, register (b\<lparr>as_acceptCh := as_acceptCh b @ [p]\<rparr>))
           else Some (nil, a)
         else Some (p, register b))"

definition getOrCreateStream :: "Association \<Rightarrow> u16 \<Rightarrow> bool \<Rightarrow> u32 \<Rightarrow> (addr \<times> Association) option" where
  "getOrCreateStream a streamIdentifier accept defaultPayloadType =
     (let set_type = (\<lambda>a p. do { s \<leftarrow> as_streamStore a p;
                                 Some (p, update_stream a p (SetDefaultPayloadType s defaultPayloadType)) })
      in case map_of (as_streams a) streamIdentifier of
           Some p \<Rightarrow> set_type a p
         | None \<Rightarrow>
             do {
               (p, a) \<leftarrow> createStream a streamIdentifier accept;
               if p \<noteq> nil then set_type a p else Some (p, a)
             })"

definition OpenStream :: "Association \<Rightarrow> u16 \<Rightarrow> u32 \<Rightarrow> ((sctp_err + addr) \<times> Association) option" where
  "OpenStream a streamIdentifier defaultPayloadType =
     (if getState a \<in> {ShutdownAckSent, ShutdownPending, ShutdownReceived, ShutdownSent, Closed}
      then Some (Inl (AssocE ErrAssociationClosed), a)
      else do {
        (p, a) \<leftarrow> getOrCreateStream a streamIdentifier False defaultPayloadType;
        Some (Inr p, a)
      })"

text \<open>\<^verbatim>\<open>AcceptStream\<close>: the next accepted stream, the end of the streams, or \<open>None\<close> while it blocks.\<close>

definition AcceptStream :: "Association \<Rightarrow> ((sctp_err + addr) \<times> Association) option" where
  "AcceptStream a =
     (case as_acceptCh a of
        p # ps \<Rightarrow> Some (Inr p, a\<lparr>as_acceptCh := ps\<rparr>)
      | [] \<Rightarrow> if as_acceptClosed a then Some (Inl (AssocE ErrEOF), a) else None)"

fun sum_reassembly :: "Association \<Rightarrow> (u16 \<times> addr) list \<Rightarrow> u32 \<Rightarrow> u32 option" where
  "sum_reassembly a [] bytesQueued = Some bytesQueued"
| "sum_reassembly a ((si, p) # ss) bytesQueued =
     do {
       s \<leftarrow> as_streamStore a p;
       sum_reassembly a ss (bytesQueued + of_int (getNumBytesInReassemblyQueue s))
     }"

definition getMyReceiverWindowCredit :: "Association \<Rightarrow> u32 option" where
  "getMyReceiverWindowCredit a =
     do {
       bytesQueued \<leftarrow> sum_reassembly a (as_streams a) 0;
       Some (if bytesQueued \<ge> as_maxReceiveBufferSize a then 0 else as_maxReceiveBufferSize a - bytesQueued)
     }"

end
