(* ===== verification/Sctp_Assoc_Send.thy ===== *)
theory Sctp_Assoc_Send
  imports Sctp_Assoc
begin

text \<open>
  The sending half of \<^verbatim>\<open>sctp/association.go\<close>: from a write on a stream through the pending and the in-flight
  queue to the packets that the write loop hands to the connection. Loops that end only because of a
  property of the queues are partial functions; a call that does not return is \<open>None\<close>.
\<close>

section \<open>Writing on a stream\<close>

text \<open>\<^verbatim>\<open>sendPayloadData\<close> accepts the chunks, refuses them, or waits for \<^verbatim>\<open>writeNotify\<close> or the context.\<close>

datatype send_result = SendOk | SendErr sctp_err | SendWait

fun push_pending :: "Association \<Rightarrow> addr list \<Rightarrow> Association option" where
  "push_pending a [] = Some a"
| "push_pending a (c # cs) =
     do {
       q \<leftarrow> returned (pendingQueue_push (as_store a) (as_pendingQueue a) c);
       push_pending (a\<lparr>as_pendingQueue := q\<rparr>) cs
     }"

definition push_and_wake :: "Association \<Rightarrow> addr list \<Rightarrow> (send_result \<times> Association) option" where
  "push_and_wake a chunks = do { a \<leftarrow> push_pending a chunks; Some (SendOk, awakeWriteLoop a) }"

definition sendPayloadData :: "Association \<Rightarrow> addr list \<Rightarrow> (send_result \<times> Association) option" where
  "sendPayloadData a chunks =
     (if getState a \<noteq> Established then Some (SendErr (AssocE ErrPayloadDataStateNotExist), a)
      else if as_blockWrite a then
        if as_writePending a then Some (SendWait, a)
        else push_and_wake (a\<lparr>as_writePending := True\<rparr>) chunks
      else push_and_wake a chunks)"

text \<open>The select of a waiting write: \<open>Some err\<close> is the end of the context, \<open>None\<close> a token of \<^verbatim>\<open>writeNotify\<close>.\<close>

definition sendPayloadData_resume ::
  "Association \<Rightarrow> addr list \<Rightarrow> sctp_err option \<Rightarrow> (send_result \<times> Association) option" where
  "sendPayloadData_resume a chunks ctxErr =
     (case ctxErr of
        Some err \<Rightarrow> Some (SendErr err, a)
      | None \<Rightarrow>
          if \<not> as_writeNotify a then Some (SendWait, a)
          else let a = a\<lparr>as_writeNotify := False\<rparr>
               in if as_writePending a then Some (SendWait, a)
                  else push_and_wake (a\<lparr>as_writePending := True\<rparr>) chunks)"

datatype write_result = Written nat "sctp_err option" | WriteBlocked "addr list" nat bool

definition finish_write ::
  "addr \<Rightarrow> addr list \<Rightarrow> nat \<Rightarrow> bool \<Rightarrow> send_result \<times> Association \<Rightarrow> (write_result \<times> Association) option" where
  "finish_write p chunks n unordered ra =
     (case ra of (r, a) \<Rightarrow>
        (case r of
           SendOk \<Rightarrow> Some (Written n None, a)
         | SendErr err \<Rightarrow>
             do {
               s \<leftarrow> as_streamStore a p;
               Some (Written 0 (Some err), update_stream a p (undo_write s n unordered))
             }
         | SendWait \<Rightarrow> Some (WriteBlocked chunks n unordered, a)))"

definition WriteSCTP :: "Association \<Rightarrow> addr \<Rightarrow> bytes \<Rightarrow> u32 \<Rightarrow> (write_result \<times> Association) option" where
  "WriteSCTP a p payload ppi =
     (if int (length payload) > uint (MaxMessageSize a)
      then Some (Written 0 (Some (AssocE ErrOutboundPacketTooLarge)), a)
      else do {
        s \<leftarrow> as_streamStore a p;
        if Stream_State s \<noteq> StreamStateOpen then Some (Written 0 (Some (AssocE ErrStreamClosed)), a)
        else do {
          r \<leftarrow> packetize (as_maxPayloadSize a) s payload ppi (as_store a) (as_freeChunk a);
          (chunks, unordered, s, st, free) \<leftarrow> returned r;
          let a = update_stream (a\<lparr>as_store := st, as_freeChunk := free\<rparr>) p s;
          ra \<leftarrow> sendPayloadData a chunks;
          finish_write p chunks (length payload) unordered ra
        }
      })"

definition resume_write ::
  "Association \<Rightarrow> addr \<Rightarrow> addr list \<Rightarrow> nat \<Rightarrow> bool \<Rightarrow> sctp_err option \<Rightarrow> (write_result \<times> Association) option" where
  "resume_write a p chunks n unordered ctxErr =
     do { ra \<leftarrow> sendPayloadData_resume a chunks ctxErr; finish_write p chunks n unordered ra }"

definition Write :: "Association \<Rightarrow> addr \<Rightarrow> bytes \<Rightarrow> (write_result \<times> Association) option" where
  "Write a p payload = do { s \<leftarrow> as_streamStore a p; WriteSCTP a p payload (sm_defaultPayloadType s) }"

definition sendResetRequest :: "Association \<Rightarrow> u16 \<Rightarrow> (sctp_err option \<times> Association) option" where
  "sendResetRequest a streamIdentifier =
     (if getState a \<noteq> Established then Some (Some (AssocE ErrResetPacketInStateNotExist), a)
      else
        let p = as_freeChunk a;
            c = zero_payload\<lparr>pd_streamIdentifier := streamIdentifier, pd_beginningFragment := True,
                  pd_endingFragment := True, pd_userData := []\<rparr>;
            a = a\<lparr>as_store := (as_store a)(p \<mapsto> c), as_freeChunk := p + 1\<rparr>
        in do {
             q \<leftarrow> returned (pendingQueue_push (as_store a) (as_pendingQueue a) p);
             Some (None, awakeWriteLoop (a\<lparr>as_pendingQueue := q\<rparr>))
           })"

definition Stream_Close :: "Association \<Rightarrow> addr \<Rightarrow> (sctp_err option \<times> Association) option" where
  "Stream_Close a p =
     do {
       s \<leftarrow> as_streamStore a p;
       let (sid, resetOutbound, s) = close_state s;
       let a = update_stream a p s;
       if resetOutbound then sendResetRequest a sid else Some (None, a)
     }"

section \<open>From the pending queue into flight\<close>

definition abandon :: "Association \<Rightarrow> addr \<Rightarrow> Association option" where
  "abandon a p = do { st \<leftarrow> returned (setAbandoned (as_store a) p True); Some (a\<lparr>as_store := st\<rparr>) }"

definition checkPartialReliabilityStatus :: "env \<Rightarrow> Association \<Rightarrow> addr \<Rightarrow> Association option" where
  "checkPartialReliabilityStatus e a p =
     (if \<not> as_useForwardTSN a then Some a
      else do {
        c \<leftarrow> returned (deref (as_store a) p);
        if pd_payloadType c = PayloadTypeWebRTCDCEP then Some a
        else (case map_of (as_streams a) (pd_streamIdentifier c) of
          None \<Rightarrow> Some a
        | Some sp \<Rightarrow>
            do {
              s \<leftarrow> as_streamStore a sp;
              if sm_reliabilityType s = ReliabilityTypeRexmit then
                if pd_nSent c \<ge> sm_reliabilityValue s then abandon a p else Some a
              else if sm_reliabilityType s = ReliabilityTypeTimed then
                let elapsed = int (en_now e) - int (pd_since c)
                in if elapsed \<ge> uint (sm_reliabilityValue s) then abandon a p else Some a
              else Some a
            })
      })"

definition modify_chunk ::
  "Association \<Rightarrow> addr \<Rightarrow> (chunkPayloadData \<Rightarrow> chunkPayloadData) \<Rightarrow> Association option" where
  "modify_chunk a p f = do { st \<leftarrow> returned (modify (as_store a) p f); Some (a\<lparr>as_store := st\<rparr>) }"

definition movePendingDataChunkToInflightQueue :: "env \<Rightarrow> Association \<Rightarrow> addr \<Rightarrow> Association option" where
  "movePendingDataChunkToInflightQueue e a p =
     do {
       (err, q) \<leftarrow> returned (pendingQueue_pop (as_store a) (as_pendingQueue a) p);
       let a = a\<lparr>as_pendingQueue := q\<rparr>;
       c \<leftarrow> returned (deref (as_store a) p);
       a \<leftarrow> (if pd_endingFragment c
             then do { st \<leftarrow> returned (setAllInflight (as_store a) p); Some (a\<lparr>as_store := st\<rparr>) }
             else Some a);
       let (tsn, a) = generateNextTSN a;
       a \<leftarrow> modify_chunk a p (\<lambda>c. c\<lparr>pd_tsn := tsn, pd_since := en_now e, pd_nSent := 1\<rparr>);
       a \<leftarrow> checkPartialReliabilityStatus e a p;
       iq \<leftarrow> returned (payloadQueue_pushNoCheck (as_store a) (as_inflightQueue a) p);
       Some (a\<lparr>as_inflightQueue := iq\<rparr>)
     }"

partial_function (option) pop_pending_loop ::
  "env \<Rightarrow> Association \<Rightarrow> addr list \<Rightarrow> u16 list \<Rightarrow> (addr list \<times> u16 list \<times> Association) option" where
  "pop_pending_loop e a chunks sisToReset =
     (let p = pendingQueue_peek (as_pendingQueue a)
      in if p = nil then Some (chunks, sisToReset, a)
         else do {
           c \<leftarrow> returned (deref (as_store a) p);
           let dataLen = (of_nat (length (pd_userData c)) :: u32);
           if dataLen = 0 then do {
             (err, q) \<leftarrow> returned (pendingQueue_pop (as_store a) (as_pendingQueue a) p);
             pop_pending_loop e (a\<lparr>as_pendingQueue := q\<rparr>) chunks (sisToReset @ [pd_streamIdentifier c])
           }
           else if of_int (payloadQueue_getNumBytes (as_inflightQueue a)) + dataLen > CWND a
           then Some (chunks, sisToReset, a)
           else if dataLen > RWND a then Some (chunks, sisToReset, a)
           else do {
             let a = setRWND a (RWND a - dataLen);
             a \<leftarrow> movePendingDataChunkToInflightQueue e a p;
             pop_pending_loop e a (chunks @ [p]) sisToReset
           }
         })"

definition popPendingDataChunksToSend :: "env \<Rightarrow> Association \<Rightarrow> (addr list \<times> u16 list \<times> Association) option" where
  "popPendingDataChunksToSend e a =
     do {
       (chunks, sisToReset, a) \<leftarrow>
         (if pendingQueue_size (as_pendingQueue a) > 0 then do {
            (chunks, sisToReset, a) \<leftarrow> pop_pending_loop e a [] [];
            if chunks = [] \<and> payloadQueue_size (as_inflightQueue a) = 0 then
              let p = pendingQueue_peek (as_pendingQueue a)
              in if p \<noteq> nil then do {
                   a \<leftarrow> movePendingDataChunkToInflightQueue e a p;
                   Some (chunks @ [p], sisToReset, a)
                 }
                 else Some (chunks, sisToReset, a)
            else Some (chunks, sisToReset, a)
          }
          else Some ([], [], a));
       let a = (if as_blockWrite a \<and> chunks \<noteq> [] \<and> pendingQueue_size (as_pendingQueue a) = 0
                then notifyBlockWritable a else a);
       Some (chunks, sisToReset, a)
     }"

fun bundle_loop :: "Association \<Rightarrow> addr list \<Rightarrow> packet list \<Rightarrow> chunk list \<Rightarrow> int \<Rightarrow> (packet list \<times> chunk list) option" where
  "bundle_loop a [] packets chunksToSend bytesInPacket = Some (packets, chunksToSend)"
| "bundle_loop a (p # ps) packets chunksToSend bytesInPacket =
     do {
       c \<leftarrow> returned (deref (as_store a) p);
       let chunkSizeInPacket = unat dataChunkHeaderSize + length (pd_userData c);
       let chunkSizeInPacket = chunkSizeInPacket + getPadding chunkSizeInPacket;
       let d = new_chunk (ChunkPayloadData c);
       if bytesInPacket + int chunkSizeInPacket > uint (MTU a)
       then bundle_loop a ps (packets @ [createPacket a chunksToSend]) [d] (uint commonHeaderSize + int chunkSizeInPacket)
       else bundle_loop a ps packets (chunksToSend @ [d]) (bytesInPacket + int chunkSizeInPacket)
     }"

definition bundleDataChunksIntoPackets :: "Association \<Rightarrow> addr list \<Rightarrow> packet list option" where
  "bundleDataChunksIntoPackets a chunks =
     do {
       (packets, chunksToSend) \<leftarrow> bundle_loop a chunks [] [] (uint commonHeaderSize);
       Some (if chunksToSend \<noteq> [] then packets @ [createPacket a chunksToSend] else packets)
     }"

section \<open>Retransmission\<close>

partial_function (option) retransmit_loop ::
  "env \<Rightarrow> Association \<Rightarrow> u32 \<Rightarrow> nat \<Rightarrow> int \<Rightarrow> addr list \<Rightarrow> (addr list \<times> Association) option" where
  "retransmit_loop e a awnd i bytesToSend chunks =
     do {
       r \<leftarrow> returned (payloadQueue_get (as_store a) (as_inflightQueue a) (as_cumulativeTSNAckPoint a + of_nat i + 1));
       (case r of
          None \<Rightarrow> Some (chunks, a)
        | Some p \<Rightarrow>
            do {
              c \<leftarrow> returned (deref (as_store a) p);
              let len = int (length (pd_userData c));
              let probe = (i = 0 \<and> uint (RWND a) < len);
              if \<not> pd_retransmit c then retransmit_loop e a awnd (i + 1) bytesToSend chunks
              else if \<not> probe \<and> bytesToSend + len > uint awnd then Some (chunks, a)
              else do {
                a \<leftarrow> modify_chunk a p (\<lambda>c. c\<lparr>pd_retransmit := False, pd_nSent := pd_nSent c + 1\<rparr>);
                a \<leftarrow> checkPartialReliabilityStatus e a p;
                if probe then Some (chunks @ [p], a)
                else retransmit_loop e a awnd (i + 1) (bytesToSend + len) (chunks @ [p])
              }
            })
     }"

definition getDataPacketsToRetransmit :: "env \<Rightarrow> Association \<Rightarrow> (packet list \<times> Association) option" where
  "getDataPacketsToRetransmit e a =
     do {
       let awnd = min32 (CWND a) (RWND a);
       (chunks, a) \<leftarrow> retransmit_loop e a awnd 0 0 [];
       packets \<leftarrow> bundleDataChunksIntoPackets a chunks;
       Some (packets, a)
     }"

partial_function (option) fast_loop ::
  "env \<Rightarrow> Association \<Rightarrow> u32 \<Rightarrow> nat \<Rightarrow> u32 \<Rightarrow> addr list \<Rightarrow> (addr list \<times> Association) option" where
  "fast_loop e a fastRetransWnd i fastRetransSize toFastRetrans =
     do {
       r \<leftarrow> returned (payloadQueue_get (as_store a) (as_inflightQueue a) (as_cumulativeTSNAckPoint a + of_nat i + 1));
       (case r of
          None \<Rightarrow> Some (toFastRetrans, a)
        | Some p \<Rightarrow>
            do {
              c \<leftarrow> returned (deref (as_store a) p);
              skip \<leftarrow> (if pd_acked c then Some True else returned (abandoned (as_store a) p));
              if skip then fast_loop e a fastRetransWnd (i + 1) fastRetransSize toFastRetrans
              else if pd_nSent c > 1 \<or> pd_missIndicator c < 3
              then fast_loop e a fastRetransWnd (i + 1) fastRetransSize toFastRetrans
              else do {
                let dataChunkSize = dataChunkHeaderSize + of_nat (length (pd_userData c));
                if fastRetransWnd < fastRetransSize + dataChunkSize then Some (toFastRetrans, a)
                else do {
                  let a = a\<lparr>as_stats := incFastRetrans (as_stats a)\<rparr>;
                  a \<leftarrow> modify_chunk a p (\<lambda>c. c\<lparr>pd_nSent := pd_nSent c + 1\<rparr>);
                  a \<leftarrow> checkPartialReliabilityStatus e a p;
                  fast_loop e a fastRetransWnd (i + 1) (fastRetransSize + dataChunkSize) (toFastRetrans @ [p])
                }
              }
            })
     }"

section \<open>Control chunks of the sender\<close>

partial_function (option) forward_loop ::
  "Association \<Rightarrow> u32 \<Rightarrow> (u16 \<times> u16) list \<Rightarrow> ((u16 \<times> u16) list) option" where
  "forward_loop a i streamMap =
     (if sna32LTE i (as_advancedPeerTSNAckPoint a) then do {
        r \<leftarrow> returned (payloadQueue_get (as_store a) (as_inflightQueue a) i);
        (case r of
           None \<Rightarrow> Some streamMap
         | Some p \<Rightarrow>
             do {
               c \<leftarrow> returned (deref (as_store a) p);
               let si = pd_streamIdentifier c;
               let ssn' = pd_streamSequenceNumber c;
               let streamMap = (case map_of streamMap si of
                     None \<Rightarrow> AList.update si ssn' streamMap
                   | Some ssn \<Rightarrow> if sna16LT ssn ssn' then AList.update si ssn' streamMap else streamMap);
               forward_loop a (i + 1) streamMap
             })
      }
      else Some streamMap)"

definition createForwardTSN :: "Association \<Rightarrow> chunk_body option" where
  "createForwardTSN a =
     do {
       streamMap \<leftarrow> forward_loop a (as_cumulativeTSNAckPoint a + 1) [];
       Some (ChunkForwardTSN (as_advancedPeerTSNAckPoint a) streamMap)
     }"

definition createSelectiveAckChunk :: "Association \<Rightarrow> (chunkSelectiveAck \<times> Association) option" where
  "createSelectiveAckChunk a =
     do {
       let cum = peerLastTSN a;
       credit \<leftarrow> getMyReceiverWindowCredit a;
       let (dups, q) = popDuplicates (as_payloadQueue a);
       let a = a\<lparr>as_payloadQueue := q\<rparr>;
       gaps \<leftarrow> returned (getGapAckBlocks (as_payloadQueue a));
       Some (\<lparr>sa_cumulativeTSNAck = cum, sa_advertisedReceiverWindowCredit = credit,
              sa_gapAckBlocks = gaps, sa_duplicateTSN = dups\<rparr>, a)
     }"

section \<open>Gathering packets\<close>

text \<open>A packet that cannot be serialized is logged and left out.\<close>

definition append_marshalled :: "Association \<Rightarrow> bytes list \<Rightarrow> packet \<Rightarrow> bytes list option" where
  "append_marshalled a rawPackets p =
     (case marshalPacket (as_sendZeroChecksum a) p of
        Inl Panic \<Rightarrow> None
      | Inl (Err _) \<Rightarrow> Some rawPackets
      | Inr raw \<Rightarrow> Some (rawPackets @ [raw]))"

fun append_all :: "Association \<Rightarrow> bytes list \<Rightarrow> packet list \<Rightarrow> bytes list option" where
  "append_all a rawPackets [] = Some rawPackets"
| "append_all a rawPackets (p # ps) = do { rawPackets \<leftarrow> append_marshalled a rawPackets p; append_all a rawPackets ps }"

definition gatherDataPacketsToRetransmit :: "env \<Rightarrow> Association \<Rightarrow> bytes list \<Rightarrow> (bytes list \<times> Association) option" where
  "gatherDataPacketsToRetransmit e a rawPackets =
     do {
       (packets, a) \<leftarrow> getDataPacketsToRetransmit e a;
       rawPackets \<leftarrow> append_all a rawPackets packets;
       Some (rawPackets, a)
     }"

definition start_t3 :: "Association \<Rightarrow> Association" where
  "start_t3 a = a\<lparr>as_t3RTX := snd (rtxTimer_start (as_t3RTX a) (getRTO (as_rtoMgr a)))\<rparr>"

definition gatherOutboundDataAndReconfigPackets ::
  "env \<Rightarrow> Association \<Rightarrow> bytes list \<Rightarrow> (bytes list \<times> Association) option" where
  "gatherOutboundDataAndReconfigPackets e a rawPackets =
     do {
       (chunks, sisToReset, a) \<leftarrow> popPendingDataChunksToSend e a;
       (rawPackets, a) \<leftarrow>
         (if chunks \<noteq> [] then do {
            let a = start_t3 a;
            packets \<leftarrow> bundleDataChunksIntoPackets a chunks;
            rawPackets \<leftarrow> append_all a rawPackets packets;
            Some (rawPackets, a)
          }
          else Some (rawPackets, a));
       if sisToReset \<noteq> [] \<or> as_willRetransmitReconfig a then do {
         (rawPackets, a) \<leftarrow>
           (if as_willRetransmitReconfig a then do {
              let a = a\<lparr>as_willRetransmitReconfig := False\<rparr>;
              rawPackets \<leftarrow> append_all a rawPackets (map (\<lambda>(rsn, c). createPacket a [new_chunk c]) (as_reconfigs a));
              Some (rawPackets, a)
            }
            else Some (rawPackets, a));
         (rawPackets, a) \<leftarrow>
           (if sisToReset \<noteq> [] then do {
              let (rsn, a) = generateNextRSN a;
              let tsn = as_myNextTSN a - 1;
              let c = ChunkReconfig (ParamOutgoingResetRequest rsn 0 tsn sisToReset) None;
              let a = a\<lparr>as_reconfigs := AList.update rsn c (as_reconfigs a)\<rparr>;
              rawPackets \<leftarrow> append_marshalled a rawPackets (createPacket a [new_chunk c]);
              Some (rawPackets, a)
            }
            else Some (rawPackets, a));
         Some (rawPackets,
           if as_reconfigs a \<noteq> []
           then a\<lparr>as_tReconfig := snd (rtxTimer_start (as_tReconfig a) (getRTO (as_rtoMgr a)))\<rparr> else a)
       }
       else Some (rawPackets, a)
     }"

definition gatherOutboundFastRetransmissionPackets ::
  "env \<Rightarrow> Association \<Rightarrow> bytes list \<Rightarrow> (bytes list \<times> Association) option" where
  "gatherOutboundFastRetransmissionPackets e a rawPackets =
     (if as_willRetransmitFast a then do {
        let a = a\<lparr>as_willRetransmitFast := False\<rparr>;
        let fastRetransWnd = (if MTU a < as_fastRtxWnd a then as_fastRtxWnd a else MTU a);
        (toFastRetrans, a) \<leftarrow> fast_loop e a fastRetransWnd 0 commonHeaderSize [];
        if toFastRetrans \<noteq> [] then do {
          packets \<leftarrow> bundleDataChunksIntoPackets a toFastRetrans;
          rawPackets \<leftarrow> append_all a rawPackets packets;
          Some (rawPackets, a)
        }
        else Some (rawPackets, a)
      }
      else Some (rawPackets, a))"

definition gatherOutboundSackPackets :: "Association \<Rightarrow> bytes list \<Rightarrow> (bytes list \<times> Association) option" where
  "gatherOutboundSackPackets a rawPackets =
     (if as_ackState a = AckStateImmediate then do {
        let a = a\<lparr>as_ackState := AckStateIdle\<rparr>;
        (sack, a) \<leftarrow> createSelectiveAckChunk a;
        let a = a\<lparr>as_stats := incSACKsSent (as_stats a)\<rparr>;
        rawPackets \<leftarrow> append_marshalled a rawPackets (createPacket a [new_chunk (ChunkSelectiveAck sack)]);
        Some (rawPackets, a)
      }
      else Some (rawPackets, a))"

definition gatherOutboundForwardTSNPackets :: "Association \<Rightarrow> bytes list \<Rightarrow> (bytes list \<times> Association) option" where
  "gatherOutboundForwardTSNPackets a rawPackets =
     (if as_willSendForwardTSN a then do {
        let a = a\<lparr>as_willSendForwardTSN := False\<rparr>;
        if sna32GT (as_advancedPeerTSNAckPoint a) (as_cumulativeTSNAckPoint a) then do {
          fwdtsn \<leftarrow> createForwardTSN a;
          rawPackets \<leftarrow> append_marshalled a rawPackets (createPacket a [new_chunk fwdtsn]);
          Some (rawPackets, a)
        }
        else Some (rawPackets, a)
      }
      else Some (rawPackets, a))"

definition start_t2 :: "Association \<Rightarrow> Association" where
  "start_t2 a = a\<lparr>as_t2Shutdown := snd (rtxTimer_start (as_t2Shutdown a) (getRTO (as_rtoMgr a)))\<rparr>"

definition gatherOutboundShutdownPackets ::
  "Association \<Rightarrow> bytes list \<Rightarrow> (bytes list \<times> bool \<times> Association) option" where
  "gatherOutboundShutdownPackets a rawPackets =
     (let marshal = (\<lambda>a c. marshalPacket (as_sendZeroChecksum a) (createPacket a [new_chunk c]))
      in if as_willSendShutdown a then
           let a = a\<lparr>as_willSendShutdown := False\<rparr>
           in (case marshal a (ChunkShutdown (as_cumulativeTSNAckPoint a)) of
                 Inl Panic \<Rightarrow> None
               | Inl (Err _) \<Rightarrow> Some (rawPackets, True, a)
               | Inr raw \<Rightarrow> Some (rawPackets @ [raw], True, start_t2 a))
         else if as_willSendShutdownAck a then
           let a = a\<lparr>as_willSendShutdownAck := False\<rparr>
           in (case marshal a ChunkShutdownAck of
                 Inl Panic \<Rightarrow> None
               | Inl (Err _) \<Rightarrow> Some (rawPackets, True, a)
               | Inr raw \<Rightarrow> Some (rawPackets @ [raw], True, start_t2 a))
         else if as_willSendShutdownComplete a then
           let a = a\<lparr>as_willSendShutdownComplete := False\<rparr>
           in (case marshal a ChunkShutdownComplete of
                 Inl Panic \<Rightarrow> None
               | Inl (Err _) \<Rightarrow> Some (rawPackets, True, a)
               | Inr raw \<Rightarrow> Some (rawPackets @ [raw], False, a))
         else Some (rawPackets, True, a))"

definition gatherAbortPacket :: "Association \<Rightarrow> (sctp_err, bytes) res \<times> Association" where
  "gatherAbortPacket a =
     (let cause = as_willSendAbortCause a;
          a = a\<lparr>as_willSendAbort := False, as_willSendAbortCause := None\<rparr>;
          abort = ChunkAbort (case cause of Some c \<Rightarrow> [c] | None \<Rightarrow> [])
      in (marshalPacket (as_sendZeroChecksum a) (createPacket a [new_chunk abort]), a))"

definition gatherOutbound :: "env \<Rightarrow> Association \<Rightarrow> (bytes list \<times> bool \<times> Association) option" where
  "gatherOutbound e a =
     (if as_willSendAbort a then
        (case gatherAbortPacket a of (r, a) \<Rightarrow>
           (case r of
              Inl Panic \<Rightarrow> None
            | Inl (Err _) \<Rightarrow> Some ([], False, a)
            | Inr pkt \<Rightarrow> Some ([pkt], False, a)))
      else do {
        (rawPackets, a) \<leftarrow>
          (if controlQueue_size (as_controlQueue a) > 0 then do {
             let (ps, q) = controlQueue_popAll (as_controlQueue a);
             let a = a\<lparr>as_controlQueue := q\<rparr>;
             rawPackets \<leftarrow> append_all a [] ps;
             Some (rawPackets, a)
           }
           else Some ([], a));
        (case getState a of
           Established \<Rightarrow>
             do {
               (rawPackets, a) \<leftarrow> gatherDataPacketsToRetransmit e a rawPackets;
               (rawPackets, a) \<leftarrow> gatherOutboundDataAndReconfigPackets e a rawPackets;
               (rawPackets, a) \<leftarrow> gatherOutboundFastRetransmissionPackets e a rawPackets;
               (rawPackets, a) \<leftarrow> gatherOutboundSackPackets a rawPackets;
               (rawPackets, a) \<leftarrow> gatherOutboundForwardTSNPackets a rawPackets;
               Some (rawPackets, True, a)
             }
         | ShutdownAckSent \<Rightarrow> gatherOutboundShutdownPackets a rawPackets
         | Closed \<Rightarrow> Some (rawPackets, True, a)
         | CookieWait \<Rightarrow> Some (rawPackets, True, a)
         | CookieEchoed \<Rightarrow> Some (rawPackets, True, a)
         | _ \<Rightarrow>
             do {
               (rawPackets, a) \<leftarrow> gatherDataPacketsToRetransmit e a rawPackets;
               (rawPackets, a) \<leftarrow> gatherOutboundFastRetransmissionPackets e a rawPackets;
               (rawPackets, a) \<leftarrow> gatherOutboundSackPackets a rawPackets;
               gatherOutboundShutdownPackets a rawPackets
             })
      })"

section \<open>The write loop\<close>

definition count_sent :: "Association \<Rightarrow> bytes \<Rightarrow> Association" where
  "count_sent a raw =
     a\<lparr>as_bytesSent := as_bytesSent a + of_nat (length raw), as_stats := incPacketsSent (as_stats a)\<rparr>"

text \<open>
  One round of \<^verbatim>\<open>writeLoop\<close> up to its select: the packets written and whether the loop goes on.
  \<open>failAt\<close> is the number of packets that the connection takes before a write fails, if one does.
\<close>

definition writeLoop_round :: "env \<Rightarrow> nat option \<Rightarrow> Association \<Rightarrow> (bytes list \<times> bool \<times> Association) option" where
  "writeLoop_round e failAt a =
     do {
       (rawPackets, ok', a) \<leftarrow> gatherOutbound e a;
       let sent = (case failAt of None \<Rightarrow> rawPackets | Some n \<Rightarrow> take n rawPackets);
       let a = foldl count_sent a sent;
       if length sent < length rawPackets then Some (sent, False, closeAllTimers (setState a Closed))
       else if \<not> ok' then Some (sent, False, snd (association_close e a))
       else Some (sent, True, a)
     }"

text \<open>The select at the end of a round: whether the loop takes the token, ends, or waits (\<open>None\<close>).\<close>

definition writeLoop_select :: "env \<Rightarrow> Association \<Rightarrow> (bool \<times> Association) option" where
  "writeLoop_select e a =
     (if as_awakeWriteLoop a \<and> (\<not> as_closeWriteLoop a \<or> en_select e)
      then Some (True, a\<lparr>as_awakeWriteLoop := False\<rparr>)
      else if as_closeWriteLoop a then Some (False, closeAllTimers (setState a Closed))
      else None)"

end
