(* ===== verification/Sctp_Assoc_Send_Laws.thy ===== *)
theory Sctp_Assoc_Send_Laws
  imports Sctp_Assoc_Send
begin

text \<open>
  Laws of the sending half: the invariant of the queues and the store, sending within the congestion and
  the receiver window, and bundling within the MTU.
\<close>

section \<open>Stores that differ in the sender's bookkeeping only\<close>

definition core :: "chunkPayloadData \<Rightarrow> chunkPayloadData" where
  "core c = c\<lparr>pd_acked := False, pd_missIndicator := 0, pd_since := 0, pd_nSent := 0, pd_abandoned := False,
     pd_allInflight := False, pd_retransmit := False\<rparr>"

definition same_core :: "store \<Rightarrow> store \<Rightarrow> bool" where
  "same_core st st' \<longleftrightarrow> (\<forall>p. map_option core (st' p) = map_option core (st p))"

lemma core_fields:
  assumes "core c = core d"
  shows "pd_tsn c = pd_tsn d" "pd_userData c = pd_userData d" "pd_unordered c = pd_unordered d"
    "pd_beginningFragment c = pd_beginningFragment d" "pd_endingFragment c = pd_endingFragment d" "pd_head c = pd_head d"
    "pd_streamIdentifier c = pd_streamIdentifier d" "pd_streamSequenceNumber c = pd_streamSequenceNumber d"
    "pd_payloadType c = pd_payloadType d" "pd_immediateSack c = pd_immediateSack d"
  using assms by (cases c; cases d; simp add: core_def)+

lemma same_core_refl [simp]: "same_core st st"
  by (simp add: same_core_def)

lemma same_core_trans: "same_core st st' \<Longrightarrow> same_core st' st'' \<Longrightarrow> same_core st st''"
  by (simp add: same_core_def)

lemma same_core_valid: "same_core st st' \<Longrightarrow> valid_ptr st' p = valid_ptr st p"
  unfolding same_core_def valid_ptr_def by (metis map_option_is_None)

lemma same_core_chunk:
  assumes "same_core st st'" "valid_ptr st p"
  shows "core (chunk_at st' p) = core (chunk_at st p)"
proof -
  obtain c where "st p = Some c" using assms(2) by (auto simp: valid_ptr_def)
  then show ?thesis using assms(1) by (auto simp: same_core_def chunk_at_def dest!: spec [of _ p])
qed

lemma same_core_update:
  "valid_ptr st p \<Longrightarrow> core c = core (chunk_at st p) \<Longrightarrow> same_core st (st(p \<mapsto> c))"
  by (auto simp: same_core_def valid_ptr_def chunk_at_def)

lemma tsn_run_same_core:
  "same_core st st' \<Longrightarrow> \<forall>a \<in> set as. valid_ptr st a \<Longrightarrow> tsn_run st' b as = tsn_run st b as"
  by (induction as arbitrary: b) (auto simp: core_fields(1) [OF same_core_chunk])

lemma bytes_of_same_core:
  "same_core st st' \<Longrightarrow> \<forall>a \<in> set as. valid_ptr st a \<Longrightarrow> bytes_of st' as = bytes_of st as"
  by (induction as) (auto simp: core_fields(2) [OF same_core_chunk])

lemma fragments_same_core:
  "same_core st st' \<Longrightarrow> \<forall>a \<in> set as. valid_ptr st a \<Longrightarrow> fragments_ok st' m as = fragments_ok st m as"
  by (induction as arbitrary: m) (auto simp: core_fields(4,5) [OF same_core_chunk])

lemma pq_inv_same_core: "same_core st st' \<Longrightarrow> pq_inv st b q \<Longrightarrow> pq_inv st' b q"
  unfolding pq_inv_def by (simp add: same_core_valid tsn_run_same_core bytes_of_same_core)

lemma pend_inv_same_core: "same_core st st' \<Longrightarrow> pend_inv st q \<Longrightarrow> pend_inv st' q"
  unfolding pend_inv_def
  by (simp add: same_core_valid fragments_same_core bytes_of_same_core core_fields(3) [OF same_core_chunk])

text \<open>Changing a chunk that a queue does not hold.\<close>

lemma tsn_run_other: "a \<notin> set as \<Longrightarrow> tsn_run (st(a \<mapsto> c)) b as = tsn_run st b as"
  by (induction as arbitrary: b) (auto simp: chunk_at_update)

lemma bytes_of_other: "a \<notin> set as \<Longrightarrow> bytes_of (st(a \<mapsto> c)) as = bytes_of st as"
  by (induction as) (auto simp: chunk_at_update)

lemma pq_inv_other: "a \<notin> set (pq_elems q) \<Longrightarrow> pq_inv st b q \<Longrightarrow> pq_inv (st(a \<mapsto> c)) b q"
  unfolding pq_inv_def by (simp add: tsn_run_other bytes_of_other)

lemma fragments_other: "a \<notin> set as \<Longrightarrow> fragments_ok (st(a \<mapsto> c)) m as = fragments_ok st m as"
  by (induction as arbitrary: m) (auto simp: chunk_at_update)

lemma pend_inv_other:
  "a \<notin> set (pe_unorderedQueue q) \<Longrightarrow> a \<notin> set (pe_orderedQueue q) \<Longrightarrow> pend_inv st q \<Longrightarrow> pend_inv (st(a \<mapsto> c)) q"
  unfolding pend_inv_def by (auto simp: fragments_other bytes_of_other chunk_at_update)

section \<open>The invariant of the sender\<close>

definition heads_ok :: "store \<Rightarrow> bool" where
  "heads_ok st \<longleftrightarrow> (\<forall>p c. st p = Some c \<longrightarrow> pd_head c = nil \<or> valid_ptr st (pd_head c))"

definition pending_elems :: "pendingQueue \<Rightarrow> addr list" where
  "pending_elems q = pe_unorderedQueue q @ pe_orderedQueue q"

definition streams_ok :: "Association \<Rightarrow> bool" where
  "streams_ok a \<longleftrightarrow> (\<forall>(si, p) \<in> set (as_streams a). \<exists>s. as_streamStore a p = Some s \<and> sm_streamIdentifier s = si)"

text \<open>
  The chunks in flight have the TSNs from the cumulative ack point to the next TSN; pending chunks are
  whole messages; no chunk is in two places; pointers are valid.
\<close>

definition snd_inv :: "Association \<Rightarrow> bool" where
  "snd_inv a \<longleftrightarrow>
     pq_inv (as_store a) (as_cumulativeTSNAckPoint a + 1) (as_inflightQueue a) \<and>
     as_myNextTSN a = as_cumulativeTSNAckPoint a + 1 + of_nat (length (pq_elems (as_inflightQueue a))) \<and>
     pend_inv (as_store a) (as_pendingQueue a) \<and>
     distinct (pending_elems (as_pendingQueue a)) \<and>
     set (pending_elems (as_pendingQueue a)) \<inter> set (pq_elems (as_inflightQueue a)) = {} \<and>
     heads_ok (as_store a) \<and> streams_ok a"

lemma heads_same_core:
  assumes "same_core st st'" "heads_ok st"
  shows "heads_ok st'"
  unfolding heads_ok_def
proof (intro allI impI)
  fix p c assume c: "st' p = Some c"
  then obtain d where d: "st p = Some d" "core c = core d"
    using assms(1) by (cases "st p") (auto simp: same_core_def dest!: spec [of _ p])
  then show "pd_head c = nil \<or> valid_ptr st' (pd_head c)"
    using assms core_fields(6) [OF d(2)] same_core_valid [OF assms(1)] by (simp add: heads_ok_def)
qed

lemma heads_update: "heads_ok st \<Longrightarrow> pd_head c = pd_head (chunk_at st p) \<Longrightarrow> valid_ptr st p \<Longrightarrow> heads_ok (st(p \<mapsto> c))"
  unfolding heads_ok_def by (auto simp: valid_ptr_def chunk_at_def)

lemma setAbandoned_ok:
  assumes "valid_ptr st p" "heads_ok st"
  shows "\<exists>st'. setAbandoned st p b = ok st' \<and> same_core st st'"
proof -
  have "pd_head (chunk_at st p) = nil \<or> valid_ptr st (pd_head (chunk_at st p))"
    using assms by (auto simp: heads_ok_def valid_ptr_def chunk_at_def)
  then show ?thesis using assms(1)
    by (auto simp: setAbandoned_def core_def intro!: same_core_update)
qed

lemma setAllInflight_ok:
  assumes "valid_ptr st p" "heads_ok st"
  shows "\<exists>st'. setAllInflight st p = ok st' \<and> same_core st st'"
proof -
  have "pd_head (chunk_at st p) = nil \<or> valid_ptr st (pd_head (chunk_at st p))"
    using assms by (auto simp: heads_ok_def valid_ptr_def chunk_at_def)
  then show ?thesis using assms(1)
    by (auto simp: setAllInflight_def core_def intro!: same_core_update)
qed

lemma abandon_ok:
  assumes "valid_ptr (as_store a) p" "heads_ok (as_store a)"
  shows "\<exists>st. abandon a p = Some (a\<lparr>as_store := st\<rparr>) \<and> same_core (as_store a) st"
  using setAbandoned_ok [OF assms, of True] by (auto simp: abandon_def)

lemma self_store: "a = a\<lparr>as_store := as_store a\<rparr>"
  by simp

lemma checkPartialReliabilityStatus_ok:
  assumes "valid_ptr (as_store a) p" "heads_ok (as_store a)" "streams_ok a"
  shows "\<exists>st. checkPartialReliabilityStatus e a p = Some (a\<lparr>as_store := st\<rparr>) \<and> same_core (as_store a) st"
proof -
  have same: "\<exists>st. Some a = Some (a\<lparr>as_store := st\<rparr>) \<and> same_core (as_store a) st"
    using self_store [of a] by (intro exI [of _ "as_store a"]) simp
  note both = same abandon_ok [OF assms(1,2)]
  show ?thesis
  proof (cases "map_of (as_streams a) (pd_streamIdentifier (chunk_at (as_store a) p))")
    case None
    then show ?thesis using both assms(1) by (simp add: checkPartialReliabilityStatus_def)
  next
    case (Some sp)
    then obtain s where "as_streamStore a sp = Some s"
      using assms(3) map_of_SomeD [OF Some] by (auto simp: streams_ok_def)
    then show ?thesis using Some both assms(1) by (simp add: checkPartialReliabilityStatus_def Let_def)
  qed
qed

text \<open>Popping the chunk that \<^verbatim>\<open>peek\<close> offers.\<close>

lemma peek_pop_elems:
  assumes "pend_inv st q" "pendingQueue_peek q = p" "p \<noteq> nil"
  obtains q' where "pendingQueue_pop st q p = ok (None, q')" "pend_inv st q'" "valid_ptr st p"
    "set (pending_elems q) = insert p (set (pending_elems q'))" "length (pending_elems q) = Suc (length (pending_elems q'))"
    "distinct (pending_elems q) \<Longrightarrow> distinct (pending_elems q') \<and> p \<notin> set (pending_elems q')"
proof -
  from peek_pop [OF assms] obtain q' where q': "pendingQueue_pop st q p = ok (None, q')" "pend_inv st q'" "valid_ptr st p"
    "if pd_unordered (chunk_at st p)
     then pe_unorderedQueue q = p # pe_unorderedQueue q' \<and> pe_orderedQueue q' = pe_orderedQueue q
     else pe_orderedQueue q = p # pe_orderedQueue q' \<and> pe_unorderedQueue q' = pe_unorderedQueue q" by metis
  show ?thesis by (rule that [OF q'(1-3)]) (use q'(4) in \<open>auto simp: pending_elems_def split: if_splits\<close>)
qed

text \<open>The new numbering of a chunk keeps everything but the TSN.\<close>

definition numbered :: "env \<Rightarrow> u32 \<Rightarrow> chunkPayloadData \<Rightarrow> chunkPayloadData" where
  "numbered e tsn c = c\<lparr>pd_tsn := tsn, pd_since := en_now e, pd_nSent := 1\<rparr>"

lemma movePending_store:
  assumes "snd_inv a" "pendingQueue_peek (as_pendingQueue a) = p" "p \<noteq> nil"
  obtains q st st' where
    "movePendingDataChunkToInflightQueue e a p =
      map_option (\<lambda>iq. a\<lparr>as_pendingQueue := q, as_myNextTSN := as_myNextTSN a + 1, as_store := st', as_inflightQueue := iq\<rparr>)
        (returned (payloadQueue_pushNoCheck st' (as_inflightQueue a) p))"
    "same_core (as_store a) st" "same_core (st(p \<mapsto> numbered e (as_myNextTSN a) (chunk_at st p))) st'"
    "pend_inv (as_store a) q" "valid_ptr (as_store a) p"
    "set (pending_elems (as_pendingQueue a)) = insert p (set (pending_elems q))"
    "length (pending_elems (as_pendingQueue a)) = Suc (length (pending_elems q))"
    "distinct (pending_elems q)" "p \<notin> set (pending_elems q)"
proof -
  have inv: "pend_inv (as_store a) (as_pendingQueue a)" "heads_ok (as_store a)" "streams_ok a"
    "distinct (pending_elems (as_pendingQueue a))" using assms(1) by (simp_all add: snd_inv_def)
  from peek_pop_elems [OF inv(1) assms(2,3)] inv(4) obtain q where q: "pendingQueue_pop (as_store a) (as_pendingQueue a) p = ok (None, q)"
    "pend_inv (as_store a) q" "valid_ptr (as_store a) p" "set (pending_elems (as_pendingQueue a)) = insert p (set (pending_elems q))"
    "length (pending_elems (as_pendingQueue a)) = Suc (length (pending_elems q))" "distinct (pending_elems q)" "p \<notin> set (pending_elems q)"
    by metis
  let ?c = "chunk_at (as_store a) p"
  obtain st where st: "(if pd_endingFragment ?c then setAllInflight (as_store a) p else ok (as_store a)) = ok st" "same_core (as_store a) st"
    using setAllInflight_ok [OF q(3) inv(2)] by (cases "pd_endingFragment ?c") auto
  have v: "valid_ptr st p" using same_core_valid [OF st(2)] q(3) by simp
  let ?st = "st(p \<mapsto> numbered e (as_myNextTSN a) (chunk_at st p))"
  let ?b = "a\<lparr>as_pendingQueue := q, as_myNextTSN := as_myNextTSN a + 1, as_store := ?st\<rparr>"
  have "heads_ok ?st" by (rule heads_update [OF heads_same_core [OF st(2) inv(2)] _ v]) (simp add: numbered_def)
  moreover have "valid_ptr ?st p" using v by simp
  moreover have "streams_ok ?b" using inv(3) by (simp add: streams_ok_def)
  ultimately obtain st' where st': "checkPartialReliabilityStatus e ?b p = Some (?b\<lparr>as_store := st'\<rparr>)" "same_core ?st st'"
    using checkPartialReliabilityStatus_ok [of ?b p e] by auto
  have num: "(\<lambda>c. c\<lparr>pd_tsn := as_myNextTSN a, pd_since := en_now e, pd_nSent := 1\<rparr>) = numbered e (as_myNextTSN a)"
    by (simp add: numbered_def fun_eq_iff)
  have "movePendingDataChunkToInflightQueue e a p =
      map_option (\<lambda>iq. a\<lparr>as_pendingQueue := q, as_myNextTSN := as_myNextTSN a + 1, as_store := st', as_inflightQueue := iq\<rparr>)
        (returned (payloadQueue_pushNoCheck st' (as_inflightQueue a) p))"
    using q(1,3) st(1) st'(1) v
    by (cases "pd_endingFragment ?c"; cases "payloadQueue_pushNoCheck st' (as_inflightQueue a) p")
      (simp_all add: movePendingDataChunkToInflightQueue_def generateNextTSN_def modify_chunk_def num)
  then show ?thesis using that st(2) st'(2) q by blast
qed

lemma movePending_ok:
  assumes "snd_inv a" "pendingQueue_peek (as_pendingQueue a) = p" "p \<noteq> nil"
  obtains q st iq where
    "movePendingDataChunkToInflightQueue e a p =
      Some (a\<lparr>as_pendingQueue := q, as_myNextTSN := as_myNextTSN a + 1, as_store := st, as_inflightQueue := iq\<rparr>)"
    "snd_inv (a\<lparr>as_pendingQueue := q, as_myNextTSN := as_myNextTSN a + 1, as_store := st, as_inflightQueue := iq\<rparr>)"
    "pq_elems iq = pq_elems (as_inflightQueue a) @ [p]"
    "length (pending_elems (as_pendingQueue a)) = Suc (length (pending_elems q))"
    "pq_nBytes iq = pq_nBytes (as_inflightQueue a) + int (length (pd_userData (chunk_at (as_store a) p)))"
    "\<And>x. valid_ptr st x = valid_ptr (as_store a) x"
    "\<And>x. valid_ptr (as_store a) x \<Longrightarrow> pd_userData (chunk_at st x) = pd_userData (chunk_at (as_store a) x)"
    "set (pending_elems (as_pendingQueue a)) = insert p (set (pending_elems q))" "valid_ptr (as_store a) p"
proof -
  from movePending_store [OF assms, of e] obtain q st st' where m: "movePendingDataChunkToInflightQueue e a p =
      map_option (\<lambda>iq. a\<lparr>as_pendingQueue := q, as_myNextTSN := as_myNextTSN a + 1, as_store := st', as_inflightQueue := iq\<rparr>)
        (returned (payloadQueue_pushNoCheck st' (as_inflightQueue a) p))"
    and sc: "same_core (as_store a) st" "same_core (st(p \<mapsto> numbered e (as_myNextTSN a) (chunk_at st p))) st'"
    and q: "pend_inv (as_store a) q" "valid_ptr (as_store a) p"
      "set (pending_elems (as_pendingQueue a)) = insert p (set (pending_elems q))"
      "length (pending_elems (as_pendingQueue a)) = Suc (length (pending_elems q))" "distinct (pending_elems q)" "p \<notin> set (pending_elems q)" .
  let ?iq = "as_inflightQueue a" and ?b = "as_cumulativeTSNAckPoint a + 1" and ?c = "numbered e (as_myNextTSN a) (chunk_at st p)"
  have inv: "pq_inv (as_store a) ?b ?iq" "as_myNextTSN a = ?b + of_nat (length (pq_elems ?iq))" "heads_ok (as_store a)"
    "set (pending_elems (as_pendingQueue a)) \<inter> set (pq_elems ?iq) = {}" "streams_ok a" using assms(1) by (simp_all add: snd_inv_def)
  have v: "valid_ptr st p" using q(2) same_core_valid [OF sc(1)] by simp
  have fresh: "p \<notin> set (pq_elems ?iq)" using inv(4) q(3) by blast
  have pq: "pq_inv st' ?b ?iq"
    by (rule pq_inv_same_core [OF sc(2)], rule pq_inv_other [OF fresh], rule pq_inv_same_core [OF sc(1) inv(1)])
  have vs: "valid_ptr st' x = valid_ptr (as_store a) x" for x
    using same_core_valid [OF sc(2), of x] same_core_valid [OF sc(1), of x] v by (auto simp: valid_ptr_def)
  have core: "core (chunk_at st' x) = core (if x = p then ?c else chunk_at st x)" if "valid_ptr (as_store a) x" for x
    using same_core_chunk [OF sc(2), of x] that same_core_valid [OF sc(1), of x] by (simp add: chunk_at_update)
  have tsn: "pd_tsn (chunk_at st' p) = ?b + of_nat (length (pq_elems ?iq))"
    using core_fields(1) [OF core [OF q(2)]] inv(2) by (simp add: numbered_def)
  have data: "pd_userData (chunk_at st' x) = pd_userData (chunk_at (as_store a) x)" if "valid_ptr (as_store a) x" for x
    using core_fields(2) [OF core [OF that]] core_fields(2) [OF same_core_chunk [OF sc(1) that]] by (auto simp: numbered_def)
  obtain iq where iq: "payloadQueue_pushNoCheck st' ?iq p = ok iq" "pq_inv st' ?b iq" "pq_elems iq = pq_elems ?iq @ [p]"
    using pushNoCheck_ok [OF pq _ fresh tsn] vs q(2) by blast
  have "heads_ok st'"
    by (rule heads_same_core [OF sc(2)], rule heads_update [OF heads_same_core [OF sc(1) inv(3)] _ v]) (simp add: numbered_def)
  moreover have "pend_inv st' q"
    by (rule pend_inv_same_core [OF sc(2)], rule pend_inv_other)
      (use q(6) pend_inv_same_core [OF sc(1) q(1)] in \<open>simp_all add: pending_elems_def\<close>)
  ultimately have "snd_inv (a\<lparr>as_pendingQueue := q, as_myNextTSN := as_myNextTSN a + 1, as_store := st', as_inflightQueue := iq\<rparr>)"
    using iq inv q fresh by (auto simp: snd_inv_def streams_ok_def simp del: length_queue_elems)
  moreover have "pq_nBytes iq = pq_nBytes ?iq + int (length (pd_userData (chunk_at (as_store a) p)))"
    using iq pq data [OF q(2)] by (simp add: pq_inv_def)
  moreover have "movePendingDataChunkToInflightQueue e a p =
      Some (a\<lparr>as_pendingQueue := q, as_myNextTSN := as_myNextTSN a + 1, as_store := st', as_inflightQueue := iq\<rparr>)"
    using m iq(1) by simp
  ultimately show ?thesis using that iq(3) q(2,3,4) vs data by blast
qed

section \<open>Sending within the windows\<close>

lemma uint_of_int_small: "0 \<le> x \<Longrightarrow> x < 2 ^ 32 \<Longrightarrow> uint (of_int x :: u32) = x"
  by (simp add: uint_word_of_int_eq take_bit_int_eq_self)

lemma window_word:
  fixes w :: u32
  assumes "0 \<le> B" "B + int n < 2 ^ 32"
  shows "of_int B + of_nat n > w \<longleftrightarrow> B + int n > uint w" "(of_nat n :: u32) > w \<longleftrightarrow> int n > uint w"
    "(of_nat n :: u32) = 0 \<longleftrightarrow> n = 0"
proof -
  have "of_int B + of_nat n = (of_int (B + int n) :: u32)" by simp
  moreover have "uint (of_int (B + int n) :: u32) = B + int n" by (rule uint_of_int_small) (use assms in simp_all)
  ultimately show "of_int B + of_nat n > w \<longleftrightarrow> B + int n > uint w" unfolding word_less_def by simp
  have "(of_nat n :: u32) = of_int (int n)" by simp
  moreover have "uint (of_int (int n) :: u32) = int n" by (rule uint_of_int_small) (use assms in simp_all)
  ultimately have n: "uint (of_nat n :: u32) = int n" by simp
  then show "(of_nat n :: u32) > w \<longleftrightarrow> int n > uint w" unfolding word_less_def by simp
  have "n < 2 ^ LENGTH(32)" using assms by simp
  then show "(of_nat n :: u32) = 0 \<longleftrightarrow> n = 0" using of_nat_word_inj [of n 0, where 'w = 32] by simp
qed

text \<open>Only what sending changes is changed.\<close>

definition only_sends :: "Association \<Rightarrow> Association \<Rightarrow> bool" where
  "only_sends a b \<longleftrightarrow>
     b = a\<lparr>as_rwnd := as_rwnd b, as_pendingQueue := as_pendingQueue b, as_myNextTSN := as_myNextTSN b,
           as_store := as_store b, as_inflightQueue := as_inflightQueue b\<rparr>"

lemma only_sends_refl: "only_sends a a"
  by (simp add: only_sends_def)

lemma only_sends_trans: "only_sends a b \<Longrightarrow> only_sends b c \<Longrightarrow> only_sends a c"
  unfolding only_sends_def by (cases a; cases b; cases c) simp

lemma only_sends_updates:
  "only_sends a (a\<lparr>as_pendingQueue := q\<rparr>)" "only_sends a (a\<lparr>as_rwnd := r\<rparr>)"
  "only_sends a (a\<lparr>as_pendingQueue := q, as_myNextTSN := n, as_store := st, as_inflightQueue := iq\<rparr>)"
  by (simp_all add: only_sends_def)

lemma only_sends_fields:
  assumes "only_sends a b"
  shows "as_cwnd b = as_cwnd a" "as_streams b = as_streams a" "as_streamStore b = as_streamStore a"
    "as_cumulativeTSNAckPoint b = as_cumulativeTSNAckPoint a" "as_state b = as_state a" "as_mtu b = as_mtu a"
    "as_blockWrite b = as_blockWrite a"
  using assms unfolding only_sends_def by (cases a; cases b; simp)+

text \<open>Chunks \<open>cs\<close> have moved from the pending into the in-flight queue.\<close>

definition sent_from :: "Association \<Rightarrow> addr list \<Rightarrow> Association \<Rightarrow> bool" where
  "sent_from a cs b \<longleftrightarrow> only_sends a b \<and>
     pq_elems (as_inflightQueue b) = pq_elems (as_inflightQueue a) @ cs \<and>
     (\<forall>p \<in> set cs. valid_ptr (as_store a) p) \<and>
     set (pending_elems (as_pendingQueue b)) \<subseteq> set (pending_elems (as_pendingQueue a)) \<and>
     (\<forall>p \<in> set (pending_elems (as_pendingQueue a)).
        pd_userData (chunk_at (as_store a) p) \<noteq> [] \<longrightarrow> p \<in> set cs \<or> p \<in> set (pending_elems (as_pendingQueue b))) \<and>
     pq_nBytes (as_inflightQueue b) = pq_nBytes (as_inflightQueue a) + bytes_of (as_store a) cs \<and>
     (\<forall>x. valid_ptr (as_store b) x = valid_ptr (as_store a) x) \<and>
     (\<forall>x. valid_ptr (as_store a) x \<longrightarrow> pd_userData (chunk_at (as_store b) x) = pd_userData (chunk_at (as_store a) x))"

lemma bytes_of_data:
  assumes "\<And>x. x \<in> set cs \<Longrightarrow> pd_userData (chunk_at st' x) = pd_userData (chunk_at st x)"
  shows "bytes_of st' cs = bytes_of st cs"
  using assms by (induction cs) simp_all

lemma sent_from_refl: "sent_from a [] a"
  by (simp add: sent_from_def only_sends_refl)

lemma sent_from_trans:
  assumes "sent_from a cs b" "sent_from b ds c" "\<forall>p \<in> set (pending_elems (as_pendingQueue a)). valid_ptr (as_store a) p"
  shows "sent_from a (cs @ ds) c"
proof -
  have v: "\<forall>p \<in> set ds. valid_ptr (as_store a) p" using assms unfolding sent_from_def by metis
  then have "bytes_of (as_store b) ds = bytes_of (as_store a) ds"
    using assms(1) by (intro bytes_of_data) (simp add: sent_from_def)
  moreover have "p \<in> set (cs @ ds) \<or> p \<in> set (pending_elems (as_pendingQueue c))"
    if p: "p \<in> set (pending_elems (as_pendingQueue a))" "pd_userData (chunk_at (as_store a) p) \<noteq> []" for p
  proof -
    have "p \<in> set cs \<or> p \<in> set (pending_elems (as_pendingQueue b))" "pd_userData (chunk_at (as_store b) p) \<noteq> []"
      using assms(1,3) p by (simp_all add: sent_from_def)
    then show ?thesis using assms(2) by (auto simp: sent_from_def)
  qed
  ultimately show ?thesis
    using assms(1,2) v unfolding sent_from_def by (auto intro: only_sends_trans)
qed

text \<open>The data of every pending chunk window_fits into \<open>M\<close> bytes, and the windows leave room for \<open>M\<close> in 32 bits.\<close>

definition window_fits :: "nat \<Rightarrow> Association \<Rightarrow> bool" where
  "window_fits M a \<longleftrightarrow> uint (as_cwnd a) + int M < 2 ^ 32 \<and> pq_nBytes (as_inflightQueue a) + int M < 2 ^ 32 \<and>
     (\<forall>p \<in> set (pending_elems (as_pendingQueue a)). length (pd_userData (chunk_at (as_store a) p)) \<le> M)"

lemma pending_valid: "snd_inv a \<Longrightarrow> p \<in> set (pending_elems (as_pendingQueue a)) \<Longrightarrow> valid_ptr (as_store a) p"
  by (auto simp: snd_inv_def pend_inv_def pending_elems_def)

lemma peek_pending: "snd_inv a \<Longrightarrow> pendingQueue_peek (as_pendingQueue a) = p \<Longrightarrow> p \<noteq> nil \<Longrightarrow> p \<in> set (pending_elems (as_pendingQueue a))"
  using peek_pop_elems [of "as_store a" "as_pendingQueue a" p] by (metis insertI1 snd_inv_def)

lemma nBytes_nonneg: "snd_inv a \<Longrightarrow> 0 \<le> pq_nBytes (as_inflightQueue a)"
  by (auto simp: snd_inv_def pq_inv_def bytes_of_def intro!: sum_list_nonneg)

lemma snd_inv_rwnd [simp]: "snd_inv (a\<lparr>as_rwnd := r\<rparr>) = snd_inv a"
  by (simp add: snd_inv_def streams_ok_def)

lemma drop_pending:
  assumes "snd_inv a" "pendingQueue_peek (as_pendingQueue a) = p" "p \<noteq> nil" "pd_userData (chunk_at (as_store a) p) = []"
  obtains q where "pendingQueue_pop (as_store a) (as_pendingQueue a) p = ok (None, q)" "snd_inv (a\<lparr>as_pendingQueue := q\<rparr>)"
    "sent_from a [] (a\<lparr>as_pendingQueue := q\<rparr>)" "length (pending_elems (as_pendingQueue a)) = Suc (length (pending_elems q))"
proof -
  have inv: "pend_inv (as_store a) (as_pendingQueue a)" "distinct (pending_elems (as_pendingQueue a))"
    using assms(1) by (simp_all add: snd_inv_def)
  from peek_pop_elems [OF inv(1) assms(2,3)] inv(2) obtain q where q: "pendingQueue_pop (as_store a) (as_pendingQueue a) p = ok (None, q)"
    "pend_inv (as_store a) q" "set (pending_elems (as_pendingQueue a)) = insert p (set (pending_elems q))"
    "length (pending_elems (as_pendingQueue a)) = Suc (length (pending_elems q))" "distinct (pending_elems q)"
    by metis
  have "sent_from a [] (a\<lparr>as_pendingQueue := q\<rparr>)" using q(3) assms(4) by (auto simp: sent_from_def only_sends_updates)
  moreover have "snd_inv (a\<lparr>as_pendingQueue := q\<rparr>)" using assms(1) q by (auto simp: snd_inv_def streams_ok_def)
  ultimately show ?thesis using that q(1,4) by blast
qed

lemma move_sends:
  assumes "snd_inv a" "pendingQueue_peek (as_pendingQueue a) = p" "p \<noteq> nil"
  obtains b where "movePendingDataChunkToInflightQueue e a p = Some b" "snd_inv b" "sent_from a [p] b"
    "length (pending_elems (as_pendingQueue a)) = Suc (length (pending_elems (as_pendingQueue b)))" "as_rwnd b = as_rwnd a"
proof -
  from movePending_ok [OF assms, of e] obtain q st iq where m:
    "movePendingDataChunkToInflightQueue e a p =
      Some (a\<lparr>as_pendingQueue := q, as_myNextTSN := as_myNextTSN a + 1, as_store := st, as_inflightQueue := iq\<rparr>)"
    "snd_inv (a\<lparr>as_pendingQueue := q, as_myNextTSN := as_myNextTSN a + 1, as_store := st, as_inflightQueue := iq\<rparr>)"
    "pq_elems iq = pq_elems (as_inflightQueue a) @ [p]"
    "length (pending_elems (as_pendingQueue a)) = Suc (length (pending_elems q))"
    "pq_nBytes iq = pq_nBytes (as_inflightQueue a) + int (length (pd_userData (chunk_at (as_store a) p)))"
    "\<And>x. valid_ptr st x = valid_ptr (as_store a) x"
    "\<And>x. valid_ptr (as_store a) x \<Longrightarrow> pd_userData (chunk_at st x) = pd_userData (chunk_at (as_store a) x)"
    "set (pending_elems (as_pendingQueue a)) = insert p (set (pending_elems q))" "valid_ptr (as_store a) p" by metis
  have "sent_from a [p] (a\<lparr>as_pendingQueue := q, as_myNextTSN := as_myNextTSN a + 1, as_store := st, as_inflightQueue := iq\<rparr>)"
    using m(3,5-9) by (auto simp: sent_from_def only_sends_updates)
  then show ?thesis using that [OF m(1,2)] m(4) by simp
qed

lemma sent_from_rwnd: "sent_from (a\<lparr>as_rwnd := r\<rparr>) cs b = sent_from a cs b"
  by (simp add: sent_from_def only_sends_def)

lemma window_fits_sent:
  assumes "window_fits M a" "sent_from a cs b" "snd_inv a" "pq_nBytes (as_inflightQueue b) \<le> uint (as_cwnd a) \<or> cs = []"
  shows "window_fits M b"
proof -
  have "\<forall>p \<in> set (pending_elems (as_pendingQueue b)). length (pd_userData (chunk_at (as_store b) p)) \<le> M"
  proof
    fix p assume "p \<in> set (pending_elems (as_pendingQueue b))"
    then have p: "p \<in> set (pending_elems (as_pendingQueue a))" using assms(2) by (auto simp: sent_from_def)
    then have "pd_userData (chunk_at (as_store b) p) = pd_userData (chunk_at (as_store a) p)"
      using assms(2) pending_valid [OF assms(3)] by (simp add: sent_from_def)
    then show "length (pd_userData (chunk_at (as_store b) p)) \<le> M" using assms(1) p by (simp add: window_fits_def)
  qed
  moreover have "as_cwnd b = as_cwnd a" using assms(2) by (simp add: sent_from_def only_sends_fields)
  ultimately show ?thesis using assms(1,2,4) by (auto simp: window_fits_def sent_from_def)
qed

lemma rwnd_minus:
  fixes r :: u32
  assumes "int n \<le> uint r"
  shows "uint (r - of_nat n) = uint r - int n"
proof -
  have "r - of_nat n = of_int (uint r - int n)" by simp
  moreover have "uint r < 2 ^ 32" using uint_lt2p [of r] by simp
  ultimately show ?thesis using assms by (simp only:) (rule uint_of_int_small, simp_all)
qed

text \<open>
  The loop of \<^verbatim>\<open>popPendingDataChunksToSend\<close>: it returns, sends within both windows, and stops only at the end
  of the queue or at a chunk that exceeds a window.
\<close>

lemma pop_pending_loop_ok:
  assumes "snd_inv a" "window_fits M a"
  shows "\<exists>cs sis b. pop_pending_loop e a chunks sisToReset = Some (chunks @ cs, sisToReset @ sis, b) \<and>
    snd_inv b \<and> sent_from a cs b \<and> (pq_nBytes (as_inflightQueue b) \<le> uint (as_cwnd a) \<or> cs = []) \<and>
    uint (as_rwnd b) = uint (as_rwnd a) - bytes_of (as_store a) cs"
  using assms
proof (induction "length (pending_elems (as_pendingQueue a))" arbitrary: a chunks sisToReset rule: less_induct)
  case less
  let ?p = "pendingQueue_peek (as_pendingQueue a)" and ?st = "as_store a" and ?iq = "as_inflightQueue a"
  have stop: "\<exists>cs sis b. Some (chunks, sisToReset, a) = Some (chunks @ cs, sisToReset @ sis, b) \<and>
    snd_inv b \<and> sent_from a cs b \<and> (pq_nBytes (as_inflightQueue b) \<le> uint (as_cwnd a) \<or> cs = []) \<and>
    uint (as_rwnd b) = uint (as_rwnd a) - bytes_of (as_store a) cs"
    using less.prems(1) sent_from_refl [of a] by (intro exI [of _ "[]"] exI [of _ a]) simp
  show ?case
  proof (cases "?p = nil")
    case True
    then show ?thesis using stop by (subst pop_pending_loop.simps) simp
  next
    case False
    let ?n = "length (pd_userData (chunk_at ?st ?p))"
    have p: "?p \<in> set (pending_elems (as_pendingQueue a))" by (rule peek_pending [OF less.prems(1) refl False])
    then have v: "valid_ptr ?st ?p" by (rule pending_valid [OF less.prems(1)])
    have n: "?n \<le> M" "pq_nBytes ?iq + int ?n < 2 ^ 32" using less.prems(2) p by (auto simp: window_fits_def)
    note w = window_word [OF nBytes_nonneg [OF less.prems(1)] n(2)]
    show ?thesis
    proof (cases "?n = 0")
      case True
      obtain q where q: "pendingQueue_pop ?st (as_pendingQueue a) ?p = ok (None, q)" "snd_inv (a\<lparr>as_pendingQueue := q\<rparr>)"
        "sent_from a [] (a\<lparr>as_pendingQueue := q\<rparr>)" "length (pending_elems (as_pendingQueue a)) = Suc (length (pending_elems q))"
        using drop_pending [OF less.prems(1) refl False] True by blast
      let ?a = "a\<lparr>as_pendingQueue := q\<rparr>" and ?si = "pd_streamIdentifier (chunk_at ?st ?p)"
      have f: "window_fits M ?a" by (rule window_fits_sent [OF less.prems(2) q(3) less.prems(1)]) simp
      have shorter: "length (pending_elems (as_pendingQueue ?a)) < length (pending_elems (as_pendingQueue a))" using q(4) by simp
      have "pop_pending_loop e a chunks sisToReset = pop_pending_loop e ?a chunks (sisToReset @ [?si])"
        using False v True q(1) by (subst pop_pending_loop.simps) simp
      moreover from less.hyps [OF shorter q(2) f, of chunks "sisToReset @ [?si]"] obtain cs sis b where
        b: "pop_pending_loop e ?a chunks (sisToReset @ [?si]) = Some (chunks @ cs, (sisToReset @ [?si]) @ sis, b)" "snd_inv b"
        "sent_from ?a cs b" "pq_nBytes (as_inflightQueue b) \<le> uint (as_cwnd ?a) \<or> cs = []"
        "uint (as_rwnd b) = uint (as_rwnd ?a) - bytes_of (as_store ?a) cs" by blast
      moreover have "sent_from a cs b" using sent_from_trans [OF q(3) b(3)] pending_valid [OF less.prems(1)] by simp
      ultimately show ?thesis by (intro exI [of _ cs] exI [of _ "?si # sis"] exI [of _ b]) simp
    next
      case data: False
      show ?thesis
      proof (cases "pq_nBytes ?iq + int ?n > uint (as_cwnd a) \<or> int ?n > uint (as_rwnd a)")
        case True
        then show ?thesis using stop False v data w
          by (subst pop_pending_loop.simps) (auto simp add: payloadQueue_getNumBytes_def CWND_def RWND_def Let_def)
      next
        case room: False
        let ?r = "as_rwnd a - of_nat ?n"
        let ?a = "a\<lparr>as_rwnd := ?r\<rparr>"
        have "snd_inv ?a" "pendingQueue_peek (as_pendingQueue ?a) = ?p" using less.prems(1) by simp_all
        from move_sends [OF this False, of e] obtain b where b: "movePendingDataChunkToInflightQueue e ?a ?p = Some b"
          "snd_inv b" "sent_from a [?p] b" "length (pending_elems (as_pendingQueue a)) = Suc (length (pending_elems (as_pendingQueue b)))"
          "as_rwnd b = ?r" by (auto simp: sent_from_rwnd)
        have nb: "pq_nBytes (as_inflightQueue b) = pq_nBytes ?iq + int ?n" using b(3) by (simp add: sent_from_def)
        have f: "window_fits M b" by (rule window_fits_sent [OF less.prems(2) b(3) less.prems(1)]) (use nb room in simp)
        have cw: "as_cwnd b = as_cwnd a" using b(3) by (simp add: sent_from_def only_sends_fields)
        have shorter: "length (pending_elems (as_pendingQueue b)) < length (pending_elems (as_pendingQueue a))" using b(4) by simp
        from less.hyps [OF shorter b(2) f, of "chunks @ [?p]" sisToReset] obtain cs sis c where
          c: "pop_pending_loop e b (chunks @ [?p]) sisToReset = Some ((chunks @ [?p]) @ cs, sisToReset @ sis, c)"
          "snd_inv c" "sent_from b cs c" "pq_nBytes (as_inflightQueue c) \<le> uint (as_cwnd b) \<or> cs = []"
          "uint (as_rwnd c) = uint (as_rwnd b) - bytes_of (as_store b) cs" by blast
        have "pop_pending_loop e a chunks sisToReset = pop_pending_loop e b (chunks @ [?p]) sisToReset"
          using False v data room w b(1)
          by (subst pop_pending_loop.simps) (simp add: payloadQueue_getNumBytes_def CWND_def RWND_def setRWND_def Let_def)
        moreover have s: "sent_from a (?p # cs) c" using sent_from_trans [OF b(3) c(3)] pending_valid [OF less.prems(1)] by simp
        moreover have "bytes_of (as_store b) cs = bytes_of ?st cs"
          using b(3) s by (intro bytes_of_data) (simp add: sent_from_def)
        moreover have "uint (as_rwnd b) = uint (as_rwnd a) - int ?n" unfolding b(5) by (rule rwnd_minus) (use room in simp)
        moreover have "pq_nBytes (as_inflightQueue c) \<le> uint (as_cwnd a)"
          using c(3,4) nb room cw by (auto simp: sent_from_def)
        ultimately show ?thesis using c(1,2,5) by (intro exI [of _ "?p # cs"] exI [of _ sis] exI [of _ c]) simp
      qed
    qed
  qed
qed

lemma snd_inv_notify [simp]: "snd_inv (notifyBlockWritable a) = snd_inv a"
  by (simp add: snd_inv_def streams_ok_def notifyBlockWritable_def)

lemma pending_size: "pendingQueue_size q > 0 \<longleftrightarrow> pending_elems q \<noteq> []"
  by (cases "pe_unorderedQueue q"; cases "pe_orderedQueue q")
    (simp_all add: pendingQueue_size_def pendingBaseQueue_size_def pending_elems_def)

lemma inflight_size: "snd_inv a \<Longrightarrow> payloadQueue_size (as_inflightQueue a) = int (length (pq_elems (as_inflightQueue a)))"
  by (simp add: snd_inv_def pq_inv_def payloadQueue_size_def queue_Len_ok del: length_queue_elems)

lemma new_tsns:
  assumes "snd_inv b" "sent_from a cs b" "snd_inv a" "i < length cs"
  shows "pd_tsn (chunk_at (as_store b) (cs ! i)) = as_myNextTSN a + of_nat i"
proof -
  let ?n = "length (pq_elems (as_inflightQueue a))"
  have cum: "as_cumulativeTSNAckPoint b = as_cumulativeTSNAckPoint a" "pq_elems (as_inflightQueue b) = pq_elems (as_inflightQueue a) @ cs"
    using assms(2) by (simp_all add: sent_from_def only_sends_fields)
  have "tsn_run (as_store b) (as_cumulativeTSNAckPoint b + 1) (pq_elems (as_inflightQueue b))"
    using assms(1) by (simp add: snd_inv_def pq_inv_def)
  then have "tsn_run (as_store b) (as_cumulativeTSNAckPoint a + 1 + of_nat ?n) cs"
    unfolding cum tsn_run_append by blast
  moreover have "as_myNextTSN a = as_cumulativeTSNAckPoint a + 1 + of_nat ?n" using assms(3) by (simp add: snd_inv_def)
  ultimately show ?thesis using tsn_run_nth assms(4) by metis
qed

text \<open>The loop followed by the zero window probe.\<close>

lemma popPending_ok:
  assumes "snd_inv a" "window_fits M a"
  shows "\<exists>cs sis b c. popPendingDataChunksToSend e a = Some (cs, sis, c) \<and> (c = b \<or> c = notifyBlockWritable b) \<and>
    snd_inv b \<and> sent_from a cs b \<and>
    (cs = [] \<or> pq_nBytes (as_inflightQueue b) \<le> uint (as_cwnd a) \<and> bytes_of (as_store a) cs \<le> uint (as_rwnd a) \<or>
       length cs = 1 \<and> pq_elems (as_inflightQueue a) = []) \<and>
    (pq_elems (as_inflightQueue a) = [] \<and> cs = [] \<longrightarrow> pending_elems (as_pendingQueue b) = [])"
proof -
  let ?P = "\<lambda>cs b. snd_inv b \<and> sent_from a cs b \<and>
    (cs = [] \<or> pq_nBytes (as_inflightQueue b) \<le> uint (as_cwnd a) \<and> bytes_of (as_store a) cs \<le> uint (as_rwnd a) \<or>
       length cs = 1 \<and> pq_elems (as_inflightQueue a) = []) \<and>
    (pq_elems (as_inflightQueue a) = [] \<and> cs = [] \<longrightarrow> pending_elems (as_pendingQueue b) = [])"
  let ?q = "as_pendingQueue a"
  let ?body = "if pendingQueue_size ?q > 0 then do {
            (chunks, sisToReset, a) \<leftarrow> pop_pending_loop e a [] [];
            if chunks = [] \<and> payloadQueue_size (as_inflightQueue a) = 0 then
              let p = pendingQueue_peek (as_pendingQueue a)
              in if p \<noteq> nil then do {
                   a \<leftarrow> movePendingDataChunkToInflightQueue e a p;
                   Some (chunks @ [p], sisToReset, a)
                 }
                 else Some (chunks, sisToReset, a)
            else Some (chunks, sisToReset, a)
          }
          else Some ([], [], a)"
  have "\<exists>cs sis b. ?body = Some (cs, sis, b) \<and> ?P cs b"
  proof (cases "pending_elems ?q = []")
    case True
    then show ?thesis using assms(1) sent_from_refl [of a] pending_size [of ?q] by simp
  next
    case False
    obtain cs sis b where b: "pop_pending_loop e a [] [] = Some (cs, sis, b)" "snd_inv b" "sent_from a cs b"
      "pq_nBytes (as_inflightQueue b) \<le> uint (as_cwnd a) \<or> cs = []" "uint (as_rwnd b) = uint (as_rwnd a) - bytes_of (as_store a) cs"
      using pop_pending_loop_ok [OF assms, of e "[]" "[]"] by auto
    have bytes: "bytes_of (as_store a) cs \<le> uint (as_rwnd a)" using b(5) by (metis diff_ge_0_iff_ge uint_ge_0)
    have iq: "pq_elems (as_inflightQueue b) = pq_elems (as_inflightQueue a) @ cs" using b(3) by (simp add: sent_from_def)
    show ?thesis
    proof (cases "cs = [] \<and> pq_elems (as_inflightQueue b) = [] \<and> pendingQueue_peek (as_pendingQueue b) \<noteq> nil")
      case True
      let ?p = "pendingQueue_peek (as_pendingQueue b)"
      obtain c where c: "movePendingDataChunkToInflightQueue e b ?p = Some c" "snd_inv c" "sent_from b [?p] c"
        using move_sends [OF b(2) refl, of e] True by blast
      have "sent_from a [?p] c" using sent_from_trans [OF b(3) c(3)] pending_valid [OF assms(1)] True by simp
      then show ?thesis using True False b(1) c iq inflight_size [OF b(2)] pending_size [of ?q]
        by (simp del: length_queue_elems)
    next
      case no: False
      have "pending_elems (as_pendingQueue b) = []" if "pendingQueue_peek (as_pendingQueue b) = nil"
        using that peek_nil [of "as_store b" "as_pendingQueue b"] b(2) by (simp add: snd_inv_def pending_elems_def)
      then show ?thesis using no False b bytes iq inflight_size [OF b(2)] pending_size [of ?q]
        by (auto simp del: length_queue_elems)
    qed
  qed
  then obtain cs sis b where b: "?body = Some (cs, sis, b)" "?P cs b" by blast
  define c where "c = (if as_blockWrite b \<and> cs \<noteq> [] \<and> pendingQueue_size (as_pendingQueue b) = 0 then notifyBlockWritable b else b)"
  have "popPendingDataChunksToSend e a = Some (cs, sis, c)"
    unfolding popPendingDataChunksToSend_def b(1) c_def by simp
  moreover have "c = b \<or> c = notifyBlockWritable b" by (simp add: c_def)
  ultimately show ?thesis using b(2) by blast
qed

end
