(* ===== verification/Sctp_Sender.thy ===== *)
theory Sctp_Sender
  imports Sctp_Assoc_Send_Laws Sctp_Stream_Laws
begin

text \<open>
  The sender as a whole: the invariant that construction establishes and the operations of the sending half
  keep, what a write does on each of its branches, the windows that bound what is sent, and bundling.
\<close>

section \<open>Allocation\<close>

text \<open>Chunks and streams are allocated from the free address on; the sizes are those of \<^verbatim>\<open>createAssociation\<close>.\<close>

definition alloc_inv :: "Association \<Rightarrow> bool" where
  "alloc_inv a \<longleftrightarrow>
     as_freeChunk a \<noteq> nil \<and> (\<forall>p \<ge> as_freeChunk a. as_store a p = None) \<and>
     as_freeStream a \<noteq> nil \<and> (\<forall>p \<ge> as_freeStream a. as_streamStore a p = None) \<and>
     as_mtu a = initialMTU \<and> as_maxPayloadSize a = 1200 \<and>
     (\<forall>p c. as_store a p = Some c \<longrightarrow> length (pd_userData c) \<le> 1200)"

definition sender_inv :: "Association \<Rightarrow> bool" where
  "sender_inv a \<longleftrightarrow> snd_inv a \<and> alloc_inv a"

lemma tsn_run_cong: "\<forall>p \<in> set as. st' p = st p \<Longrightarrow> tsn_run st' b as = tsn_run st b as"
  by (induction as arbitrary: b) (auto simp: chunk_at_def)

lemma bytes_of_cong: "\<forall>p \<in> set as. st' p = st p \<Longrightarrow> bytes_of st' as = bytes_of st as"
  by (induction as) (auto simp: chunk_at_def)

lemma fragments_cong: "\<forall>p \<in> set as. st' p = st p \<Longrightarrow> fragments_ok st' m as = fragments_ok st m as"
  by (induction as arbitrary: m) (auto simp: chunk_at_def)

text \<open>A store with more chunks.\<close>

definition extends :: "store \<Rightarrow> store \<Rightarrow> bool" where
  "extends st st' \<longleftrightarrow> (\<forall>p. st p \<noteq> None \<longrightarrow> st' p = st p)"

lemma extends_same: "extends st st' \<Longrightarrow> valid_ptr st p \<Longrightarrow> st' p = st p"
  by (simp add: extends_def valid_ptr_def)

lemma extends_valid: "extends st st' \<Longrightarrow> valid_ptr st p \<Longrightarrow> valid_ptr st' p"
  by (simp add: extends_def valid_ptr_def)

lemma pq_inv_extends: "extends st st' \<Longrightarrow> pq_inv st b q \<Longrightarrow> pq_inv st' b q"
  unfolding pq_inv_def
  using tsn_run_cong [of "pq_elems q" st' st b] bytes_of_cong [of "pq_elems q" st' st]
  by (auto simp: extends_valid extends_same)

lemma pend_inv_extends:
  assumes "extends st st'" "pend_inv st q"
  shows "pend_inv st' q"
proof -
  have same: "\<forall>p \<in> set (pe_unorderedQueue q). st' p = st p" "\<forall>p \<in> set (pe_orderedQueue q). st' p = st p"
    using assms by (auto simp: pend_inv_def extends_same)
  note c = fragments_cong [OF same(1)] fragments_cong [OF same(2)] bytes_of_cong [OF same(1)] bytes_of_cong [OF same(2)]
  show ?thesis using assms(2) same unfolding pend_inv_def c by (auto simp: valid_ptr_def chunk_at_def)
qed

lemma place_eq: "place st p cs q = (if p \<le> q \<and> q < p + length cs then Some (cs ! (q - p)) else st q)"
  using place_nth [of "q - p" cs st p] place_below [of q p st cs] place_above [of p cs q st] by auto

lemma place_extends: "\<forall>q \<ge> p. st q = None \<Longrightarrow> extends st (place st p cs)"
  by (auto simp: extends_def place_eq)

section \<open>The fragments of a message in the store\<close>

lemma fragments_run:
  assumes "\<forall>i < n. pd_beginningFragment (chunk_at st (p + i)) = (i = 0 \<and> \<not> m) \<and> pd_endingFragment (chunk_at st (p + i)) = (i = n - 1)"
    "n = 0 \<longrightarrow> \<not> m"
  shows "fragments_ok st m [p..<p + n]"
  using assms
proof (induction n arbitrary: p m)
  case (Suc n)
  have e: "pd_endingFragment (chunk_at st p) = (n = 0)" "pd_beginningFragment (chunk_at st p) = (\<not> m)"
    using Suc.prems(1) [rule_format, of 0] by auto
  have "fragments_ok st (n \<noteq> 0) [Suc p..<Suc p + n]"
    by (rule Suc.IH) (use Suc.prems(1) [rule_format, of "Suc i" for i] in auto)
  then show ?case using e by (simp add: upt_conv_Cons del: upt_Suc)
qed simp

lemma fragments_placed:
  fixes s :: Stream and ppi :: u32 and free :: addr and raw :: bytes and st :: store and un :: bool and n :: nat
  assumes "0 < n" "free \<noteq> nil"
  defines "us \<equiv> split_message n raw"
  defines "st' \<equiv> place st free (fragment_chunks s ppi un nil True free us)"
  shows "is_message st' un [free..<free + length us]" "bytes_of st' [free..<free + length us] = int (length raw)"
    "\<And>p. free \<le> p \<Longrightarrow> p < free + length us \<Longrightarrow> valid_ptr st' p \<and> length (pd_userData (chunk_at st' p)) \<le> n \<and>
       pd_userData (chunk_at st' p) \<noteq> [] \<and> (pd_head (chunk_at st' p) = nil \<or> pd_head (chunk_at st' p) = free)"
proof -
  have c: "chunk_at st' (free + i) = fragment_chunk s ppi un (if i = 0 then nil else free) (i = 0) (i = length us - 1) (us ! i)"
    "valid_ptr st' (free + i)" if "i < length us" for i
    using that fragment_chunks_nth [OF that assms(2)] assms(2) by (simp_all add: st'_def chunk_at_def place_eq valid_ptr_def)
  have all: "valid_ptr st' p \<and> pd_unordered (chunk_at st' p) = un \<and> length (pd_userData (chunk_at st' p)) \<le> n \<and>
       pd_userData (chunk_at st' p) \<noteq> [] \<and> (pd_head (chunk_at st' p) = nil \<or> pd_head (chunk_at st' p) = free)"
    if p: "free \<le> p" "p < free + length us" for p
  proof -
    have "us ! (p - free) \<in> set us" using p by simp
    then have "us ! (p - free) \<noteq> [] \<and> length (us ! (p - free)) \<le> n" using split_message_sizes [OF assms(1)] unfolding us_def by blast
    then show ?thesis using c [of "p - free"] p by (simp add: fragment_chunk_def)
  qed
  then show "\<And>p. free \<le> p \<Longrightarrow> p < free + length us \<Longrightarrow> valid_ptr st' p \<and> length (pd_userData (chunk_at st' p)) \<le> n \<and>
       pd_userData (chunk_at st' p) \<noteq> [] \<and> (pd_head (chunk_at st' p) = nil \<or> pd_head (chunk_at st' p) = free)" by blast
  have "fragments_ok st' False [free..<free + length us]" by (rule fragments_run) (simp_all add: c fragment_chunk_def)
  then show "is_message st' un [free..<free + length us]" using all by (simp add: is_message_def)
  have "map (\<lambda>p. int (length (pd_userData (chunk_at st' p)))) [free..<free + length us] = map (\<lambda>u. int (length u)) us"
    by (rule nth_equalityI) (simp_all add: c fragment_chunk_def)
  then have "bytes_of st' [free..<free + length us] = (\<Sum>u\<leftarrow>us. int (length u))" by (simp only: bytes_of_def)
  also have "\<dots> = int (length (concat us))" by (induction us) simp_all
  finally show "bytes_of st' [free..<free + length us] = int (length raw)" by (simp add: us_def concat_split_message)
qed

lemma push_pending_message:
  "push_pending a cs = map_option (\<lambda>q. a\<lparr>as_pendingQueue := q\<rparr>) (returned (push_message (as_store a) (as_pendingQueue a) cs))"
proof (induction cs arbitrary: a)
  case (Cons c cs)
  then show ?case by (cases "pendingQueue_push (as_store a) (as_pendingQueue a) c") simp_all
qed simp

section \<open>Construction and writing\<close>

lemma pending_elems_new [simp]: "pending_elems newPendingQueue = []"
  by (simp add: pending_elems_def newPendingQueue_def newPendingBaseQueue_def)

lemma sender_inv_create: "sender_inv (createAssociation tsn tag config)"
  by (simp add: sender_inv_def snd_inv_def alloc_inv_def createAssociation_def setCWND_def Let_def pq_inv_new pend_inv_new
      heads_ok_def streams_ok_def initialMTU_def commonHeaderSize_def dataChunkHeaderSize_def)

lemma update_stream_snd: 
  assumes "snd_inv a" "as_streamStore a p = Some s" "sm_streamIdentifier s' = sm_streamIdentifier s"
  shows "snd_inv (update_stream a p s')"
  using assms by (fastforce simp: snd_inv_def update_stream_def streams_ok_def)

lemma update_stream_sender:
  assumes "sender_inv a" "as_streamStore a p = Some s" "sm_streamIdentifier s' = sm_streamIdentifier s"
  shows "sender_inv (update_stream a p s')"
  using update_stream_snd [of a p s s'] assms by (auto simp: sender_inv_def alloc_inv_def update_stream_def)

text \<open>The chunks of a message are allocated.\<close>

lemma place_sender:
  fixes s :: Stream and ppi :: u32 and raw :: bytes
  assumes "sender_inv a"
  defines "us \<equiv> split_message 1200 raw"
  shows "sender_inv (a\<lparr>as_store := place (as_store a) (as_freeChunk a) (fragment_chunks s ppi un nil True (as_freeChunk a) us),
    as_freeChunk := as_freeChunk a + length us\<rparr>)"
proof -
  let ?f = "as_freeChunk a"
  let ?cs = "fragment_chunks s ppi un nil True ?f us"
  let ?st = "place (as_store a) ?f ?cs"
  have al: "?f \<noteq> nil" "\<forall>p \<ge> ?f. as_store a p = None" using assms(1) by (simp_all add: sender_inv_def alloc_inv_def)
  have ext: "extends (as_store a) ?st" by (rule place_extends [OF al(2)])
  note new = fragments_placed(3) [where n = 1200 and free = ?f and raw = raw and st = "as_store a" and s = s and ppi = ppi and un = un, folded us_def]
  have "heads_ok ?st"
    unfolding heads_ok_def
  proof (intro allI impI)
    fix p c assume c: "?st p = Some c"
    show "pd_head c = nil \<or> valid_ptr ?st (pd_head c)"
    proof (cases "?f \<le> p \<and> p < ?f + length us")
      case True
      moreover have "us \<noteq> []" using True by auto
      ultimately have "pd_head c = nil \<or> pd_head c = ?f" "valid_ptr ?st ?f"
        using new [of p] new [of ?f] c al(1) by (auto simp: chunk_at_def)
      then show ?thesis by auto
    next
      case False
      then have "as_store a p = Some c" using c by (auto simp: place_eq split: if_splits)
      then show ?thesis using assms(1) extends_valid [OF ext] by (auto simp: sender_inv_def snd_inv_def heads_ok_def)
    qed
  qed
  moreover have "length (pd_userData c) \<le> 1200" if c: "?st p = Some c" for p c
  proof (cases "?f \<le> p \<and> p < ?f + length us")
    case True
    then show ?thesis using new [of p] c al(1) by (simp add: chunk_at_def)
  next
    case False
    then have "as_store a p = Some c" using c by (auto simp: place_eq split: if_splits)
    then show ?thesis using assms(1) by (simp add: sender_inv_def alloc_inv_def)
  qed
  ultimately show ?thesis
    using assms(1) ext unfolding sender_inv_def snd_inv_def alloc_inv_def
    by (auto intro: pq_inv_extends pend_inv_extends simp: streams_ok_def place_eq)
qed

text \<open>A message in the store that no queue holds is pushed.\<close>

lemma push_sender:
  assumes "sender_inv a" "is_message (as_store a) un cs" "distinct cs"
    "set cs \<inter> set (pending_elems (as_pendingQueue a)) = {}" "set cs \<inter> set (pq_elems (as_inflightQueue a)) = {}"
  obtains q where "push_pending a cs = Some (a\<lparr>as_pendingQueue := q\<rparr>)" "sender_inv (a\<lparr>as_pendingQueue := q\<rparr>)"
    "set (pending_elems q) = set (pending_elems (as_pendingQueue a)) \<union> set cs"
    "pe_nBytes q = pe_nBytes (as_pendingQueue a) + bytes_of (as_store a) cs"
proof -
  have "pend_inv (as_store a) (as_pendingQueue a)" using assms(1) by (simp add: sender_inv_def snd_inv_def)
  from push_message_ok [OF this assms(2)] obtain q where q: "push_message (as_store a) (as_pendingQueue a) cs = ok q" "pend_inv (as_store a) q"
    "pe_unorderedQueue q = pe_unorderedQueue (as_pendingQueue a) @ (if un then cs else [])"
    "pe_orderedQueue q = pe_orderedQueue (as_pendingQueue a) @ (if un then [] else cs)" by metis
  have "set (pending_elems q) = set (pending_elems (as_pendingQueue a)) \<union> set cs" "distinct (pending_elems q)"
    using q(3,4) assms(1,3,4) by (auto simp: pending_elems_def sender_inv_def snd_inv_def)
  moreover have "pe_nBytes q = pe_nBytes (as_pendingQueue a) + bytes_of (as_store a) cs"
    using q(2,3,4) assms(1) by (simp add: pend_inv_def sender_inv_def snd_inv_def)
  ultimately show ?thesis
    using that [of q] q(1,2) assms by (auto simp: push_pending_message sender_inv_def snd_inv_def alloc_inv_def streams_ok_def)
qed

text \<open>What the result of a write says.\<close>

definition write_outcome :: "Association \<Rightarrow> addr \<Rightarrow> Stream \<Rightarrow> bytes \<Rightarrow> write_result \<Rightarrow> Association \<Rightarrow> bool" where
  "write_outcome a p s raw r b \<longleftrightarrow>
     as_inflightQueue b = as_inflightQueue a \<and>
     (case r of
        Written n None \<Rightarrow>
          n = length raw \<and> uint (MaxMessageSize a) \<ge> int n \<and> Stream_State s = StreamStateOpen \<and> getState a = Established \<and>
          pendingQueue_getNumBytes (as_pendingQueue b) = pendingQueue_getNumBytes (as_pendingQueue a) + int n \<and>
          set (pending_elems (as_pendingQueue a)) \<subseteq> set (pending_elems (as_pendingQueue b))
      | Written n (Some err) \<Rightarrow>
          n = 0 \<and> as_pendingQueue b = as_pendingQueue a \<and> as_streamStore b = as_streamStore a \<and>
          err = AssocE (if int (length raw) > uint (MaxMessageSize a) then ErrOutboundPacketTooLarge
            else if Stream_State s \<noteq> StreamStateOpen then ErrStreamClosed else ErrPayloadDataStateNotExist)
      | WriteBlocked cs n un \<Rightarrow>
          n = length raw \<and> as_pendingQueue b = as_pendingQueue a \<and> as_blockWrite a \<and> as_writePending a \<and>
          is_message (as_store b) un cs \<and> bytes_of (as_store b) cs = int n)"

lemma undo_write_undoes:
  "undo_write ((if un then s else s\<lparr>sm_sequenceNumber := sm_sequenceNumber s + 1\<rparr>)
     \<lparr>sm_bufferedAmount := sm_bufferedAmount s + of_nat n\<rparr>) n un = s"
  by (cases un) (simp_all add: undo_write_def Let_def)

lemma sender_inv_flags [simp]:
  "sender_inv (a\<lparr>as_writePending := w\<rparr>) = sender_inv a" "sender_inv (awakeWriteLoop a) = sender_inv a"
  by (simp_all add: sender_inv_def snd_inv_def alloc_inv_def streams_ok_def awakeWriteLoop_def)

lemma push_and_wake_ok:
  assumes "sender_inv a" "is_message (as_store a) un cs" "distinct cs"
    "set cs \<inter> set (pending_elems (as_pendingQueue a)) = {}" "set cs \<inter> set (pq_elems (as_inflightQueue a)) = {}"
  obtains q where "push_and_wake a cs = Some (SendOk, awakeWriteLoop (a\<lparr>as_pendingQueue := q\<rparr>))"
    "sender_inv (a\<lparr>as_pendingQueue := q\<rparr>)" "set (pending_elems q) = set (pending_elems (as_pendingQueue a)) \<union> set cs"
    "pe_nBytes q = pe_nBytes (as_pendingQueue a) + bytes_of (as_store a) cs"
proof -
  from push_sender [OF assms] obtain q where "push_pending a cs = Some (a\<lparr>as_pendingQueue := q\<rparr>)"
    "sender_inv (a\<lparr>as_pendingQueue := q\<rparr>)" "set (pending_elems q) = set (pending_elems (as_pendingQueue a)) \<union> set cs"
    "pe_nBytes q = pe_nBytes (as_pendingQueue a) + bytes_of (as_store a) cs" .
  then show ?thesis by (intro that [of q]) (simp_all add: push_and_wake_def)
qed

lemma WriteSCTP_ok:
  assumes "sender_inv a" "as_streamStore a p = Some s"
  shows "\<exists>r b. WriteSCTP a p raw ppi = Some (r, b) \<and> sender_inv b \<and> write_outcome a p s raw r b"
proof (cases "int (length raw) > uint (MaxMessageSize a) \<or> Stream_State s \<noteq> StreamStateOpen")
  case True
  then show ?thesis using assms by (auto simp: WriteSCTP_def write_outcome_def)
next
  case False
  let ?us = "split_message 1200 raw" and ?f = "as_freeChunk a"
  let ?un = "ppi \<noteq> PayloadTypeWebRTCDCEP \<and> sm_unordered s"
  let ?st = "place (as_store a) ?f (fragment_chunks s ppi ?un nil True ?f ?us)"
  let ?s = "(if ?un then s else s\<lparr>sm_sequenceNumber := sm_sequenceNumber s + 1\<rparr>)
     \<lparr>sm_bufferedAmount := sm_bufferedAmount s + of_nat (length raw)\<rparr>"
  let ?new = "a\<lparr>as_store := ?st, as_freeChunk := ?f + length ?us\<rparr>"
  let ?a = "update_stream ?new p ?s" and ?cs = "[?f..<?f + length ?us]"
  have al: "?f \<noteq> nil" "as_maxPayloadSize a = 1200" "\<forall>p \<ge> ?f. as_store a p = None"
    using assms(1) by (auto simp: sender_inv_def alloc_inv_def)
  have size: "(0 :: u32) < 1200" "length raw < 2 ^ 32" "unat (1200 :: u32) = 1200"
    using False uint_lt2p [of "MaxMessageSize a"] by simp_all
  have pk: "packetize 1200 s raw ppi (as_store a) ?f = Some (Inr (?cs, ?un, ?s, ?st, ?f + length ?us))"
    using packetize_split [OF size(1,2), of s ppi "as_store a" ?f] unfolding size(3) .
  have "sender_inv ?new" by (rule place_sender [OF assms(1)])
  then have inv: "sender_inv ?a" by (rule update_stream_sender [where s = s]) (simp_all add: assms(2))
  note msg = fragments_placed [where n = 1200 and free = ?f and raw = raw and st = "as_store a" and s = s and ppi = ppi and un = ?un]
  have m: "is_message (as_store ?a) ?un ?cs" "bytes_of (as_store ?a) ?cs = int (length raw)"
    using msg al(1) by (simp_all add: update_stream_def)
  have old: "x < ?f" if "x \<in> set (pending_elems (as_pendingQueue a)) \<union> set (pq_elems (as_inflightQueue a))" for x
  proof (rule ccontr)
    assume "\<not> x < ?f"
    then have "as_store a x = None" using al(3) by simp
    then show False using that assms(1) by (auto simp: sender_inv_def snd_inv_def pq_inv_def pend_inv_def pending_elems_def valid_ptr_def)
  qed
  have dis: "set ?cs \<inter> set (pending_elems (as_pendingQueue ?a)) = {}" "set ?cs \<inter> set (pq_elems (as_inflightQueue ?a)) = {}"
    using old by (fastforce simp: update_stream_def)+
  have w: "WriteSCTP a p raw ppi = do { ra \<leftarrow> sendPayloadData ?a ?cs; finish_write p ?cs (length raw) ?un ra }"
    using False by (simp add: WriteSCTP_def assms(2) al(2) pk)
  show ?thesis
  proof (cases "getState a = Established")
    case no: False
    have "finish_write p ?cs (length raw) ?un (SendErr (AssocE ErrPayloadDataStateNotExist), ?a) =
        Some (Written 0 (Some (AssocE ErrPayloadDataStateNotExist)), update_stream ?a p s)"
      unfolding finish_write_def using undo_write_undoes [where un = ?un and s = s and n = "length raw"] by (simp add: update_stream_def)
    moreover have "sender_inv (update_stream ?a p s)" by (rule update_stream_sender [OF inv, where s = ?s]) (simp_all add: update_stream_def)
    moreover have "write_outcome a p s raw (Written 0 (Some (AssocE ErrPayloadDataStateNotExist))) (update_stream ?a p s)"
      using False assms(2) by (auto simp: write_outcome_def update_stream_def fun_upd_idem)
    moreover have "sendPayloadData ?a ?cs = Some (SendErr (AssocE ErrPayloadDataStateNotExist), ?a)"
      using no by (simp add: sendPayloadData_def getState_def update_stream_def)
    ultimately show ?thesis unfolding w by simp
  next
    case est: True
    have done': "\<exists>r b. do { ra \<leftarrow> push_and_wake c ?cs; finish_write p ?cs (length raw) ?un ra } = Some (r, b) \<and> sender_inv b \<and>
        write_outcome a p s raw r b" if c: "c = ?a \<or> c = ?a\<lparr>as_writePending := True\<rparr>" for c
    proof -
      have "sender_inv c" "as_store c = ?st" "as_pendingQueue c = as_pendingQueue a" "as_inflightQueue c = as_inflightQueue a"
        using c inv by (auto simp: update_stream_def)
      moreover from this push_and_wake_ok [of c ?un ?cs] m(1) dis obtain q where
        "push_and_wake c ?cs = Some (SendOk, awakeWriteLoop (c\<lparr>as_pendingQueue := q\<rparr>))" "sender_inv (c\<lparr>as_pendingQueue := q\<rparr>)"
        "set (pending_elems q) = set (pending_elems (as_pendingQueue a)) \<union> set ?cs"
        "pe_nBytes q = pe_nBytes (as_pendingQueue a) + bytes_of ?st ?cs" by (auto simp: update_stream_def)
      ultimately show ?thesis using False est m(2)
        by (auto simp: finish_write_def write_outcome_def awakeWriteLoop_def [of "c\<lparr>as_pendingQueue := q\<rparr>"]
            pendingQueue_getNumBytes_def update_stream_def sender_inv_flags(2) [unfolded awakeWriteLoop_def])
    qed
    show ?thesis
    proof (cases "as_blockWrite a \<and> as_writePending a")
      case True
      then have "sendPayloadData ?a ?cs = Some (SendWait, ?a)"
        using est by (simp add: sendPayloadData_def getState_def update_stream_def)
      then show ?thesis unfolding w using inv True m
        by (simp add: finish_write_def write_outcome_def) (simp add: update_stream_def)
    next
      case False
      then have "sendPayloadData ?a ?cs = push_and_wake ?a ?cs \<or>
          sendPayloadData ?a ?cs = push_and_wake (?a\<lparr>as_writePending := True\<rparr>) ?cs"
        using est by (auto simp: sendPayloadData_def getState_def update_stream_def)
      then show ?thesis unfolding w using done' [of ?a] done' [of "?a\<lparr>as_writePending := True\<rparr>"] by metis
    qed
  qed
qed

section \<open>Bundling\<close>

text \<open>The chunk that carries \<open>p\<close> and the bytes it takes in a packet.\<close>

definition wire_chunk :: "Association \<Rightarrow> addr \<Rightarrow> chunk" where
  "wire_chunk a p = new_chunk (ChunkPayloadData (chunk_at (as_store a) p))"

definition wire_size :: "Association \<Rightarrow> addr \<Rightarrow> nat" where
  "wire_size a p = (let n = 16 + length (pd_userData (chunk_at (as_store a) p)) in n + getPadding n)"

definition packet_of :: "Association \<Rightarrow> addr list \<Rightarrow> packet" where
  "packet_of a ps = createPacket a (map (wire_chunk a) ps)"

definition packet_size :: "Association \<Rightarrow> addr list \<Rightarrow> nat" where
  "packet_size a ps = 12 + (\<Sum>p\<leftarrow>ps. wire_size a p)"

lemma packet_size_simps [simp]:
  "packet_size a [] = 12" "packet_size a (ps @ [p]) = packet_size a ps + wire_size a p"
  by (simp_all add: packet_size_def)

lemma wire_size_bound: "length (pd_userData (chunk_at (as_store a) p)) \<le> 1200 \<Longrightarrow> wire_size a p \<le> 1216"
proof -
  have aligned: "n + g \<le> 1216" if "(n + g) mod 4 = 0" "g < 4" "n \<le> 1216" for n g :: nat using that by presburger
  assume "length (pd_userData (chunk_at (as_store a) p)) \<le> 1200"
  then have "16 + length (pd_userData (chunk_at (as_store a) p)) \<le> 1216" by simp
  then show "wire_size a p \<le> 1216" unfolding wire_size_def Let_def by (rule aligned [OF getPadding_aligned getPadding_less])
qed

lemma packet_append_wire:
  "4 dvd length raw \<Longrightarrow> \<exists>enc. packet_append raw (map (wire_chunk a) ps) = ok (raw @ enc) \<and>
     length enc = (\<Sum>p\<leftarrow>ps. wire_size a p)"
proof (induction ps arbitrary: raw)
  case (Cons p ps)
  let ?n = "16 + length (pd_userData (chunk_at (as_store a) p))"
  obtain b where b: "chunk_marshal (wire_chunk a p) = ok b" "length b = ?n"
    by (simp add: wire_chunk_def chunkPayloadData_marshal_def chunkHeader_marshal_def)
  let ?p = "b @ replicate (getPadding (length b)) 0"
  have "4 dvd length (raw @ ?p)" using Cons.prems getPadding_dvd [of "length b"] by simp
  from Cons.IH [OF this] obtain enc where "packet_append (raw @ ?p) (map (wire_chunk a) ps) = ok ((raw @ ?p) @ enc)"
    "length enc = (\<Sum>p\<leftarrow>ps. wire_size a p)" by blast
  moreover have "length ?p = wire_size a p" using b(2) by (simp add: wire_size_def Let_def)
  ultimately show ?case
    using packet_append_Cons [OF b(1) Cons.prems, of "map (wire_chunk a) ps"]
    by (intro exI [of _ "?p @ enc"]) (simp del: packet_append.simps)
qed simp

lemma marshal_packet_of: "\<exists>raw. marshalPacket z (packet_of a ps) = ok raw \<and> length raw = packet_size a ps"
proof -
  let ?hdr = "put_be16 (as_sourcePort a) @ put_be16 (as_destinationPort a) @ put_be32 (as_peerVerificationTag a) @ [0, 0, 0, 0]"
  from packet_append_wire [of ?hdr a ps] obtain enc where
    "packet_append ?hdr (map (wire_chunk a) ps) = ok (?hdr @ enc)" "length enc = (\<Sum>p\<leftarrow>ps. wire_size a p)" by auto
  then show ?thesis
    by (simp add: marshalPacket_def packet_marshal_def packet_of_def createPacket_def packet_size_def generatePacketChecksum_eq)
qed

lemma bundle_loop_ok:
  assumes "as_mtu a = initialMTU" "\<forall>p \<in> set ps. valid_ptr (as_store a) p \<and> length (pd_userData (chunk_at (as_store a) p)) \<le> 1200"
    "packet_size a qs \<le> 1228"
  shows "\<exists>qss qs'. bundle_loop a ps packets (map (wire_chunk a) qs) (int (packet_size a qs)) =
      Some (packets @ map (packet_of a) qss, map (wire_chunk a) qs') \<and>
    concat qss @ qs' = qs @ ps \<and> (\<forall>q \<in> set qss. q \<noteq> [] \<and> packet_size a q \<le> 1228) \<and> packet_size a qs' \<le> 1228"
  using assms(2,3)
proof (induction ps arbitrary: packets qs)
  case Nil
  then show ?case by (intro exI [of _ "[]"] exI [of _ qs]) simp
next
  case (Cons p ps)
  have w: "wire_size a p \<le> 1216" using Cons.prems(1) by (intro wire_size_bound) simp
  have step: "bundle_loop a (p # ps) packets (map (wire_chunk a) qs) (int (packet_size a qs)) =
      (if packet_size a qs + wire_size a p > 1228
       then bundle_loop a ps (packets @ [packet_of a qs]) (map (wire_chunk a) [p]) (int (packet_size a [p]))
       else bundle_loop a ps packets (map (wire_chunk a) (qs @ [p])) (int (packet_size a (qs @ [p]))))"
    using Cons.prems(1) assms(1) packet_size_simps(2) [of a "[]" p]
    by (simp add: wire_size_def wire_chunk_def packet_of_def MTU_def initialMTU_def dataChunkHeaderSize_def commonHeaderSize_def Let_def)
  show ?case
  proof (cases "packet_size a qs + wire_size a p > 1228")
    case True
    then have "qs \<noteq> []" using w by auto
    moreover have "packet_size a [p] \<le> 1228" using w packet_size_simps(2) [of a "[]" p] by simp
    from Cons.IH [OF _ this, of "packets @ [packet_of a qs]"] Cons.prems(1) obtain qss qs' where
      "bundle_loop a ps (packets @ [packet_of a qs]) (map (wire_chunk a) [p]) (int (packet_size a [p])) =
        Some ((packets @ [packet_of a qs]) @ map (packet_of a) qss, map (wire_chunk a) qs')"
      "concat qss @ qs' = [p] @ ps" "\<forall>q \<in> set qss. q \<noteq> [] \<and> packet_size a q \<le> 1228" "packet_size a qs' \<le> 1228" by auto
    ultimately show ?thesis using True step Cons.prems(2) by (intro exI [of _ "qs # qss"] exI [of _ qs']) simp
  next
    case False
    then show ?thesis using Cons.IH [of "qs @ [p]" packets] Cons.prems step by auto
  qed
qed

lemma append_all_packets:
  "\<exists>raws. append_all a raws' (map (packet_of b) qss) = Some (raws' @ raws) \<and> map length raws = map (packet_size b) qss"
proof (induction qss arbitrary: raws')
  case (Cons qs qss)
  obtain raw where raw: "marshalPacket (as_sendZeroChecksum a) (packet_of b qs) = ok raw" "length raw = packet_size b qs"
    using marshal_packet_of by blast
  from Cons.IH [of "raws' @ [raw]"] obtain raws where "append_all a (raws' @ [raw]) (map (packet_of b) qss) = Some ((raws' @ [raw]) @ raws)"
    "map length raws = map (packet_size b) qss" by blast
  then show ?case using raw by (intro exI [of _ "raw # raws"]) (simp add: append_marshalled_def)
qed simp

lemma bundle_ok:
  assumes "as_mtu a = initialMTU" "\<forall>p \<in> set ps. valid_ptr (as_store a) p \<and> length (pd_userData (chunk_at (as_store a) p)) \<le> 1200"
  shows "\<exists>qss. bundleDataChunksIntoPackets a ps = Some (map (packet_of a) qss) \<and> concat qss = ps \<and>
    (\<forall>q \<in> set qss. q \<noteq> [] \<and> packet_size a q \<le> 1228)"
proof -
  have "packet_size a [] \<le> 1228" "uint commonHeaderSize = int (packet_size a [])" by (simp_all add: commonHeaderSize_def)
  then obtain qss qs where "bundle_loop a ps [] [] (uint commonHeaderSize) = Some (map (packet_of a) qss, map (wire_chunk a) qs)"
    "concat qss @ qs = ps" "\<forall>q \<in> set qss. q \<noteq> [] \<and> packet_size a q \<le> 1228" "packet_size a qs \<le> 1228"
    using bundle_loop_ok [OF assms, of "[]" "[]"] by auto
  then show ?thesis
    by (intro exI [of _ "if qs = [] then qss else qss @ [qs]"]) (auto simp: bundleDataChunksIntoPackets_def packet_of_def)
qed

end
