(* ===== verification/Sctp_Assoc_Recv.thy ===== *)
theory Sctp_Assoc_Recv
  imports Sctp_Assoc_Send
begin

text \<open>
  The receiving half of \<^verbatim>\<open>sctp/association.go\<close>: the handlers of the chunk types, the dispatch of a packet,
  the callbacks of the timers and the read loop.
\<close>

section \<open>The handshake\<close>

definition checkPacket :: "packet \<Rightarrow> sctp_err option" where
  "checkPacket pkt =
     (if pk_sourcePort pkt = 0 then Some (AssocE ErrSCTPPacketSourcePortZero)
      else if pk_destinationPort pkt = 0 then Some (AssocE ErrSCTPPacketDestinationPortZero)
      else if list_ex (\<lambda>c. case snd c of ChunkInit i \<Rightarrow> True | _ \<Rightarrow> False) (pk_chunks pkt) then
        if length (pk_chunks pkt) \<noteq> 1 then Some (AssocE ErrInitChunkBundled)
        else if pk_verificationTag pkt \<noteq> 0 then Some (AssocE ErrInitChunkVerifyTagNotZero)
        else None
      else None)"

fun apply_param :: "Association \<Rightarrow> param_body \<Rightarrow> Association" where
  "apply_param a (ParamSupportedExtensions ts) =
     (if ctForwardTSN \<in> set ts then a\<lparr>as_useForwardTSN := True\<rparr> else a)"
| "apply_param a (ParamZeroChecksumAcceptable edmid) = a\<lparr>as_sendZeroChecksum := (edmid = dtlsErrorDetectionMethod)\<rparr>"
| "apply_param a p = a"

definition handleInit :: "env \<Rightarrow> Association \<Rightarrow> packet \<Rightarrow> chunkInitCommon \<Rightarrow> (sctp_err + packet list) \<times> Association" where
  "handleInit e a pkt initChunk =
     (if getState a \<notin> {Closed, CookieWait, CookieEchoed} then (Inl (AssocE ErrHandleInitState), a)
      else
        let a = a\<lparr>as_myMaxNumInboundStreams := min16 (ic_numInboundStreams initChunk) (as_myMaxNumInboundStreams a),
                  as_myMaxNumOutboundStreams := min16 (ic_numOutboundStreams initChunk) (as_myMaxNumOutboundStreams a),
                  as_peerVerificationTag := ic_initiateTag initChunk,
                  as_sourcePort := pk_destinationPort pkt, as_destinationPort := pk_sourcePort pkt,
                  as_payloadQueue := receivePayloadQueue_init (as_payloadQueue a) (ic_initialTSN initChunk - 1)\<rparr>;
            a = setRWND a (ic_advertisedReceiverWindowCredit initChunk);
            a = foldl apply_param a (ic_params initChunk);
            initAck = zero_init\<lparr>ic_initialTSN := as_myNextTSN a, ic_numOutboundStreams := as_myMaxNumOutboundStreams a,
              ic_numInboundStreams := as_myMaxNumInboundStreams a, ic_initiateTag := as_myVerificationTag a,
              ic_advertisedReceiverWindowCredit := as_maxReceiveBufferSize a\<rparr>;
            a = (if as_myCookie a = None then a\<lparr>as_myCookie := en_cookie e\<rparr> else a)
        in case as_myCookie a of
             None \<Rightarrow> (Inl (ConnE ''rand''), a)
           | Some cookie \<Rightarrow>
               let initAck = initAck\<lparr>ic_params := [ParamStateCookie cookie]\<rparr>;
                   initAck = (if as_recvZeroChecksum a
                     then initAck\<lparr>ic_params := ic_params initAck @ [ParamZeroChecksumAcceptable dtlsErrorDetectionMethod]\<rparr>
                     else initAck);
                   initAck = setSupportedExtensions initAck
               in (Inr (pack (createPacket a [new_chunk (ChunkInitAck initAck)])), a))"

text \<open>The last state cookie among the parameters.\<close>

fun find_cookie :: "bytes option \<Rightarrow> param_body list \<Rightarrow> bytes option" where
  "find_cookie found [] = found"
| "find_cookie found (ParamStateCookie c # ps) = find_cookie (Some c) ps"
| "find_cookie found (p # ps) = find_cookie found ps"

definition handleInitAck :: "Association \<Rightarrow> packet \<Rightarrow> chunkInitCommon \<Rightarrow> sctp_err option \<times> Association" where
  "handleInitAck a pkt initChunkAck =
     (if getState a \<noteq> CookieWait then (None, a)
      else
        let a = a\<lparr>as_myMaxNumInboundStreams := min16 (ic_numInboundStreams initChunkAck) (as_myMaxNumInboundStreams a),
                  as_myMaxNumOutboundStreams := min16 (ic_numOutboundStreams initChunkAck) (as_myMaxNumOutboundStreams a),
                  as_peerVerificationTag := ic_initiateTag initChunkAck,
                  as_payloadQueue := receivePayloadQueue_init (as_payloadQueue a) (ic_initialTSN initChunkAck - 1)\<rparr>
        in if as_sourcePort a \<noteq> pk_destinationPort pkt \<or> as_destinationPort a \<noteq> pk_sourcePort pkt then (None, a)
           else
             let a = setRWND a (ic_advertisedReceiverWindowCredit initChunkAck);
                 a = a\<lparr>as_ssthresh := RWND a\<rparr>;
                 a = a\<lparr>as_t1Init := rtxTimer_stop (as_t1Init a), as_storedInit := None\<rparr>;
                 a = foldl apply_param a (ic_params initChunkAck)
             in case find_cookie None (ic_params initChunkAck) of
                  None \<Rightarrow> (Some (AssocE ErrInitAckNoCookie), a)
                | Some cookie \<Rightarrow>
                    let a = a\<lparr>as_storedCookieEcho := Some cookie\<rparr>;
                        a = snd (sendCookieEcho a);
                        a = a\<lparr>as_t1Cookie := snd (rtxTimer_start (as_t1Cookie a) (getRTO (as_rtoMgr a)))\<rparr>
                    in (None, setState a CookieEchoed))"

definition handleHeartbeat :: "Association \<Rightarrow> param_body list \<Rightarrow> packet list option" where
  "handleHeartbeat a params =
     (case params of
        ParamHeartbeatInfo info # _ \<Rightarrow>
          Some (pack (createPacket a [new_chunk (ChunkHeartbeatAck [ParamHeartbeatInfo info])]))
      | _ \<Rightarrow> None)"

definition handleCookieEcho :: "env \<Rightarrow> Association \<Rightarrow> bytes \<Rightarrow> (packet list \<times> Association) option" where
  "handleCookieEcho e a cookie =
     (case as_myCookie a of
        None \<Rightarrow> Some ([], a)
      | Some myCookie \<Rightarrow>
          let reply = (\<lambda>a. pack (createPacket a [new_chunk ChunkCookieAck]))
          in if getState a = Established then
               if myCookie \<noteq> cookie then Some ([], a) else Some (reply a, a)
             else if getState a \<in> {Closed, CookieWait, CookieEchoed} then
               if myCookie \<noteq> cookie then Some ([], a)
               else
                 let a = a\<lparr>as_t1Init := rtxTimer_stop (as_t1Init a), as_storedInit := None,
                           as_t1Cookie := rtxTimer_stop (as_t1Cookie a), as_storedCookieEcho := None\<rparr>;
                     a = setState a Established
                 in do {
                      (sent, a) \<leftarrow> completeHandshake e a None;
                      Some (if sent then reply a else [], a)
                    }
             else Some ([], a))"

definition handleCookieAck :: "env \<Rightarrow> Association \<Rightarrow> Association option" where
  "handleCookieAck e a =
     (if getState a \<noteq> CookieEchoed then Some a
      else
        let a = a\<lparr>as_t1Cookie := rtxTimer_stop (as_t1Cookie a), as_storedCookieEcho := None\<rparr>;
            a = setState a Established
        in map_option snd (completeHandshake e a None))"

section \<open>Resetting streams\<close>

fun reset_streams :: "Association \<Rightarrow> u16 list \<Rightarrow> Association option" where
  "reset_streams a [] = Some a"
| "reset_streams a (sid # ids) =
     (case map_of (as_streams a) sid of
        None \<Rightarrow> reset_streams a ids
      | Some p \<Rightarrow>
          do {
            s \<leftarrow> as_streamStore a p;
            let a = update_stream a p (onInboundStreamReset s);
            reset_streams (a\<lparr>as_streams := AList.delete (sm_streamIdentifier s) (as_streams a)\<rparr>) ids
          })"

definition resetStreamsIfAny :: "Association \<Rightarrow> resetRequest \<Rightarrow> (packet \<times> Association) option" where
  "resetStreamsIfAny a resetRequest =
     (case resetRequest of (rsn, _, senderLastTSN, streamIdentifiers) \<Rightarrow>
        do {
          (result, a) \<leftarrow>
            (if sna32LTE senderLastTSN (peerLastTSN a) then do {
               a \<leftarrow> reset_streams a streamIdentifiers;
               Some (reconfigResultSuccessPerformed, a\<lparr>as_reconfigRequests := AList.delete rsn (as_reconfigRequests a)\<rparr>)
             }
             else Some (reconfigResultInProgress, a));
          Some (createPacket a [new_chunk (ChunkReconfig (ParamReconfigResponse rsn result) None)], a)
        })"

fun reset_requests :: "Association \<Rightarrow> (u32 \<times> resetRequest) list \<Rightarrow> packet list \<Rightarrow> (packet list \<times> Association) option" where
  "reset_requests a [] reply = Some (reply, a)"
| "reset_requests a ((rsn, rstReq) # rs) reply =
     do { (resp, a) \<leftarrow> resetStreamsIfAny a rstReq; reset_requests a rs (reply @ [resp]) }"

definition handleReconfigParam :: "Association \<Rightarrow> param_body \<Rightarrow> ((sctp_err + packet option) \<times> Association) option" where
  "handleReconfigParam a raw =
     (case raw of
        ParamOutgoingResetRequest rsn resp senderLastTSN ids \<Rightarrow>
          if peerLastTSN a < senderLastTSN \<and> length (as_reconfigRequests a) \<ge> maxReconfigRequests
          then Some (Inl (AssocE ErrTooManyReconfigRequests), a)
          else do {
            let par = (rsn, resp, senderLastTSN, ids);
            let a = a\<lparr>as_reconfigRequests := AList.update rsn par (as_reconfigRequests a)\<rparr>;
            (pkt, a) \<leftarrow> resetStreamsIfAny a par;
            Some (Inr (Some pkt), a)
          }
      | ParamReconfigResponse rsn result \<Rightarrow>
          if result = reconfigResultInProgress then
            if map_of (as_reconfigs a) rsn \<noteq> None then
              let a = a\<lparr>as_tReconfig := rtxTimer_stop (as_tReconfig a)\<rparr>
              in Some (Inr None, a\<lparr>as_tReconfig := snd (rtxTimer_start (as_tReconfig a) (getRTO (as_rtoMgr a)))\<rparr>)
            else Some (Inr None, a)
          else
            let a = a\<lparr>as_reconfigs := AList.delete rsn (as_reconfigs a)\<rparr>
            in Some (Inr None, if as_reconfigs a = [] then a\<lparr>as_tReconfig := rtxTimer_stop (as_tReconfig a)\<rparr> else a)
      | _ \<Rightarrow> Some (Inl (AssocE ErrParamterType), a))"

definition handleReconfig ::
  "Association \<Rightarrow> param_body \<Rightarrow> param_body option \<Rightarrow> ((sctp_err + packet list) \<times> Association) option" where
  "handleReconfig a paramA paramB =
     do {
       (r, a) \<leftarrow> handleReconfigParam a paramA;
       (case r of
          Inl err \<Rightarrow> Some (Inl err, a)
        | Inr pkt \<Rightarrow>
            let pp = (case pkt of None \<Rightarrow> [] | Some p \<Rightarrow> [p])
            in (case paramB of
                  None \<Rightarrow> Some (Inr pp, a)
                | Some par \<Rightarrow>
                    do {
                      (r, a) \<leftarrow> handleReconfigParam a par;
                      (case r of
                         Inl err \<Rightarrow> Some (Inl err, a)
                       | Inr pkt \<Rightarrow> Some (Inr (pp @ (case pkt of None \<Rightarrow> [] | Some p \<Rightarrow> [p])), a))
                    }))
     }"

section \<open>Receiving data\<close>

partial_function (option) advance_loop :: "Association \<Rightarrow> packet list \<Rightarrow> (packet list \<times> Association) option" where
  "advance_loop a reply =
     do {
       (popOk, q) \<leftarrow> returned (receivePayloadQueue_pop (as_payloadQueue a) False);
       let a = a\<lparr>as_payloadQueue := q\<rparr>;
       if \<not> popOk then Some (reply, a)
       else do {
         (reply, a) \<leftarrow> reset_requests a (as_reconfigRequests a) reply;
         advance_loop a reply
       }
     }"

definition handlePeerLastTSNAndAcknowledgement :: "Association \<Rightarrow> bool \<Rightarrow> (packet list \<times> Association) option" where
  "handlePeerLastTSNAndAcknowledgement a sackImmediately =
     do {
       (reply, a) \<leftarrow> advance_loop a [];
       let hasPacketLoss = (receivePayloadQueue_size (as_payloadQueue a) > 0);
       let a =
         (if (as_ackState a \<noteq> AckStateImmediate \<and> \<not> sackImmediately \<and> \<not> hasPacketLoss \<and> as_ackMode a = AckModeNormal) \<or>
             as_ackMode a = AckModeAlwaysDelay
          then if as_ackState a = AckStateIdle then a\<lparr>as_delayedAckTriggered := True\<rparr>
               else a\<lparr>as_immediateAckTriggered := True\<rparr>
          else a\<lparr>as_immediateAckTriggered := True\<rparr>);
       Some (reply, a)
     }"

text \<open>The two branches of \<^verbatim>\<open>handleData\<close> that accept the chunk.\<close>

definition accept_data :: "Association \<Rightarrow> addr \<Rightarrow> chunkPayloadData \<Rightarrow> Association option" where
  "accept_data a p chunkPayload =
     do {
       (_, q) \<leftarrow> returned (receivePayloadQueue_push (as_payloadQueue a) (pd_tsn chunkPayload));
       s \<leftarrow> as_streamStore a p;
       s \<leftarrow> returned (Stream_handleData s chunkPayload);
       Some (update_stream (a\<lparr>as_payloadQueue := q\<rparr>) p s)
     }"

definition handleData :: "Association \<Rightarrow> chunkPayloadData \<Rightarrow> (packet list \<times> Association) option" where
  "handleData a chunkPayload =
     do {
       let a = a\<lparr>as_stats := incDATAs (as_stats a)\<rparr>;
       can \<leftarrow> returned (canPush (as_payloadQueue a) (pd_tsn chunkPayload));
       (if can then do {
          (p, a) \<leftarrow> getOrCreateStream a (pd_streamIdentifier chunkPayload) True 0;
          if p = nil then Some ([], a)
          else do {
            credit \<leftarrow> getMyReceiverWindowCredit a;
            a \<leftarrow> (if credit > 0 then accept_data a p chunkPayload
                  else (case getLastTSNReceived (as_payloadQueue a) of
                    Some lastTSN \<Rightarrow>
                      if sna32LT (pd_tsn chunkPayload) lastTSN then accept_data a p chunkPayload else Some a
                  | None \<Rightarrow> Some a));
            handlePeerLastTSNAndAcknowledgement a (pd_immediateSack chunkPayload)
          }
        }
        else handlePeerLastTSNAndAcknowledgement a (pd_immediateSack chunkPayload))
     }"

partial_function (option) skip_loop :: "Association \<Rightarrow> u32 \<Rightarrow> Association option" where
  "skip_loop a newCumulativeTSN =
     (if sna32LT (peerLastTSN a) newCumulativeTSN then do {
        (_, q) \<leftarrow> returned (receivePayloadQueue_pop (as_payloadQueue a) True);
        skip_loop (a\<lparr>as_payloadQueue := q\<rparr>) newCumulativeTSN
      }
      else Some a)"

fun forward_ordered :: "Association \<Rightarrow> chunkForwardTSNStream list \<Rightarrow> Association option" where
  "forward_ordered a [] = Some a"
| "forward_ordered a ((identifier, sequence) # fs) =
     (case map_of (as_streams a) identifier of
        None \<Rightarrow> forward_ordered a fs
      | Some p \<Rightarrow>
          do {
            s \<leftarrow> as_streamStore a p;
            forward_ordered (update_stream a p (handleForwardTSNForOrdered s sequence)) fs
          })"

fun forward_unordered :: "Association \<Rightarrow> (u16 \<times> addr) list \<Rightarrow> u32 \<Rightarrow> Association option" where
  "forward_unordered a [] newCumulativeTSN = Some a"
| "forward_unordered a ((si, p) # ss) newCumulativeTSN =
     do {
       s \<leftarrow> as_streamStore a p;
       forward_unordered (update_stream a p (handleForwardTSNForUnordered s newCumulativeTSN)) ss newCumulativeTSN
     }"

definition handleForwardTSN ::
  "Association \<Rightarrow> u32 \<Rightarrow> chunkForwardTSNStream list \<Rightarrow> (packet list \<times> Association) option" where
  "handleForwardTSN a newCumulativeTSN streams =
     (if \<not> as_useForwardTSN a then
        Some ([createPacket a [new_chunk (ChunkError
          [(\<lparr>ec_code = 0, ec_len = 0, ec_raw = []\<rparr>, UnrecognizedChunkType [])])]], a)
      else if sna32LTE newCumulativeTSN (peerLastTSN a) then
        Some ([], awakeWriteLoop (a\<lparr>as_ackState := AckStateImmediate, as_ackTimer := ackTimer_stop (as_ackTimer a)\<rparr>))
      else do {
        a \<leftarrow> skip_loop a newCumulativeTSN;
        a \<leftarrow> forward_ordered a streams;
        a \<leftarrow> forward_unordered a (as_streams a) newCumulativeTSN;
        handlePeerLastTSNAndAcknowledgement a False
      })"

section \<open>Receiving acknowledgements\<close>

definition add_acked :: "(u16 \<times> int) list \<Rightarrow> u16 \<Rightarrow> int \<Rightarrow> (u16 \<times> int) list" where
  "add_acked m si n = AList.update si (case map_of m si of Some amount \<Rightarrow> amount + n | None \<Rightarrow> n) m"

definition measure_rtt :: "env \<Rightarrow> Association \<Rightarrow> chunkPayloadData \<Rightarrow> Association" where
  "measure_rtt e a c =
     (let a = a\<lparr>as_minTSN2MeasureRTT := as_myNextTSN a\<rparr>;
          rtt = of_int (int (en_now e) - int (pd_since c));
          (srtt, mgr) = setNewRTT (as_rtoMgr a) rtt
      in a\<lparr>as_rtoMgr := mgr, as_srtt := srtt\<rparr>)"

partial_function (option) cum_ack_loop ::
  "env \<Rightarrow> Association \<Rightarrow> u32 \<Rightarrow> u32 \<Rightarrow> (u16 \<times> int) list \<Rightarrow> ((sctp_err + (u16 \<times> int) list) \<times> Association) option" where
  "cum_ack_loop e a i cumulativeTSNAck acked =
     (if sna32LTE i cumulativeTSNAck then do {
        (r, iq) \<leftarrow> returned (payloadQueue_pop (as_store a) (as_inflightQueue a) i);
        let a = a\<lparr>as_inflightQueue := iq\<rparr>;
        (case r of
           None \<Rightarrow> Some (Inl (AssocE ErrInflightQueueTSNPop), a)
         | Some p \<Rightarrow>
             do {
               c \<leftarrow> returned (deref (as_store a) p);
               let (acked, a) =
                 (if \<not> pd_acked c then
                    let a = (if i = as_cumulativeTSNAckPoint a + 1 then a\<lparr>as_t3RTX := rtxTimer_stop (as_t3RTX a)\<rparr> else a);
                        acked = add_acked acked (pd_streamIdentifier c) (int (length (pd_userData c)));
                        a = (if pd_nSent c = 1 \<and> sna32GTE (pd_tsn c) (as_minTSN2MeasureRTT a) then measure_rtt e a c else a)
                    in (acked, a)
                  else (acked, a));
               let a = (if as_inFastRecovery a \<and> pd_tsn c = as_fastRecoverExitPoint a
                        then a\<lparr>as_inFastRecovery := False\<rparr> else a);
               cum_ack_loop e a (i + 1) cumulativeTSNAck acked
             })
      }
      else Some (Inr acked, a))"

partial_function (option) gap_ack_loop ::
  "env \<Rightarrow> Association \<Rightarrow> u32 \<Rightarrow> u16 \<Rightarrow> u16 \<Rightarrow> (u16 \<times> int) list \<Rightarrow> u32 \<Rightarrow>
    ((sctp_err + (u16 \<times> int) list \<times> u32) \<times> Association) option" where
  "gap_ack_loop e a cumulativeTSNAck i end' acked htna =
     (if i \<le> end' then do {
        let tsn = cumulativeTSNAck + ucast i;
        r \<leftarrow> returned (payloadQueue_get (as_store a) (as_inflightQueue a) tsn);
        (case r of
           None \<Rightarrow> Some (Inl (AssocE ErrTSNRequestNotExist), a)
         | Some p \<Rightarrow>
             do {
               c \<leftarrow> returned (deref (as_store a) p);
               if \<not> pd_acked c then do {
                 (nBytesAcked, st, iq) \<leftarrow> returned (payloadQueue_markAsAcked (as_store a) (as_inflightQueue a) tsn);
                 let a = a\<lparr>as_store := st, as_inflightQueue := iq\<rparr>;
                 let acked = add_acked acked (pd_streamIdentifier c) nBytesAcked;
                 let a = (if pd_nSent c = 1 then measure_rtt e a c else a);
                 gap_ack_loop e a cumulativeTSNAck (i + 1) end' acked (if sna32LT htna tsn then tsn else htna)
               }
               else gap_ack_loop e a cumulativeTSNAck (i + 1) end' acked htna
             })
      }
      else Some (Inr (acked, htna), a))"

fun gap_blocks_loop ::
  "env \<Rightarrow> Association \<Rightarrow> u32 \<Rightarrow> gapAckBlock list \<Rightarrow> (u16 \<times> int) list \<Rightarrow> u32 \<Rightarrow>
    ((sctp_err + (u16 \<times> int) list \<times> u32) \<times> Association) option" where
  "gap_blocks_loop e a cumulativeTSNAck [] acked htna = Some (Inr (acked, htna), a)"
| "gap_blocks_loop e a cumulativeTSNAck ((start, end') # gs) acked htna =
     do {
       (r, a) \<leftarrow> gap_ack_loop e a cumulativeTSNAck start end' acked htna;
       (case r of
          Inl err \<Rightarrow> Some (Inl err, a)
        | Inr (acked, htna) \<Rightarrow> gap_blocks_loop e a cumulativeTSNAck gs acked htna)
     }"

definition processSelectiveAck ::
  "env \<Rightarrow> Association \<Rightarrow> chunkSelectiveAck \<Rightarrow> ((sctp_err + (u16 \<times> int) list \<times> u32) \<times> Association) option" where
  "processSelectiveAck e a d =
     do {
       (r, a) \<leftarrow> cum_ack_loop e a (as_cumulativeTSNAckPoint a + 1) (sa_cumulativeTSNAck d) [];
       (case r of
          Inl err \<Rightarrow> Some (Inl err, a)
        | Inr acked \<Rightarrow>
            gap_blocks_loop e a (sa_cumulativeTSNAck d) (sa_gapAckBlocks d) acked (sa_cumulativeTSNAck d))
     }"

definition onCumulativeTSNAckPointAdvanced :: "Association \<Rightarrow> int \<Rightarrow> Association" where
  "onCumulativeTSNAckPointAdvanced a totalBytesAcked =
     (let a = (if payloadQueue_size (as_inflightQueue a) = 0 then a\<lparr>as_t3RTX := rtxTimer_stop (as_t3RTX a)\<rparr>
               else start_t3 a)
      in if CWND a \<le> as_ssthresh a then
           if \<not> as_inFastRecovery a \<and> pendingQueue_size (as_pendingQueue a) > 0
           then setCWND a (CWND a + min32 (of_int totalBytesAcked) (CWND a)) else a
         else
           let a = a\<lparr>as_partialBytesAcked := as_partialBytesAcked a + of_int totalBytesAcked\<rparr>
           in if as_partialBytesAcked a \<ge> CWND a \<and> pendingQueue_size (as_pendingQueue a) > 0 then
                let a = a\<lparr>as_partialBytesAcked := as_partialBytesAcked a - CWND a\<rparr>;
                    step = MTU a;
                    step = (if step < as_cwndCAStep a then as_cwndCAStep a else step)
                in setCWND a (CWND a + step)
              else a)"

definition enter_fast_recovery :: "Association \<Rightarrow> u32 \<Rightarrow> Association" where
  "enter_fast_recovery a htna =
     (let a = a\<lparr>as_inFastRecovery := True, as_fastRecoverExitPoint := htna\<rparr>;
          a = a\<lparr>as_ssthresh := max32 (CWND a div 2) (4 * MTU a)\<rparr>;
          a = setCWND a (as_ssthresh a)
      in a\<lparr>as_partialBytesAcked := 0, as_willRetransmitFast := True\<rparr>)"

partial_function (option) miss_loop ::
  "Association \<Rightarrow> u32 \<Rightarrow> u32 \<Rightarrow> u32 \<Rightarrow> (sctp_err option \<times> Association) option" where
  "miss_loop a tsn maxTSN htna =
     (if sna32LT tsn maxTSN then do {
        r \<leftarrow> returned (payloadQueue_get (as_store a) (as_inflightQueue a) tsn);
        (case r of
           None \<Rightarrow> Some (Some (AssocE ErrTSNRequestNotExist), a)
         | Some p \<Rightarrow>
             do {
               c \<leftarrow> returned (deref (as_store a) p);
               skip \<leftarrow> (if pd_acked c then Some True else returned (abandoned (as_store a) p));
               if \<not> skip \<and> pd_missIndicator c < 3 then do {
                 a \<leftarrow> modify_chunk a p (\<lambda>c. c\<lparr>pd_missIndicator := pd_missIndicator c + 1\<rparr>);
                 let a = (if pd_missIndicator c + 1 = 3 \<and> \<not> as_inFastRecovery a then enter_fast_recovery a htna else a);
                 miss_loop a (tsn + 1) maxTSN htna
               }
               else miss_loop a (tsn + 1) maxTSN htna
             })
      }
      else Some (None, a))"

definition processFastRetransmission ::
  "Association \<Rightarrow> u32 \<Rightarrow> gapAckBlock list \<Rightarrow> u32 \<Rightarrow> bool \<Rightarrow> (sctp_err option \<times> Association) option" where
  "processFastRetransmission a cumTSNAckPoint gapAckBlocks htna cumTSNAckPointAdvanced =
     do {
       (err, a) \<leftarrow>
         (if \<not> as_inFastRecovery a \<or> (as_inFastRecovery a \<and> cumTSNAckPointAdvanced) then
            let maxTSN =
              (if \<not> as_inFastRecovery a then htna
               else if gapAckBlocks \<noteq> [] then cumTSNAckPoint + ucast (snd (last gapAckBlocks)) else cumTSNAckPoint)
            in miss_loop a (cumTSNAckPoint + 1) maxTSN htna
          else Some (None, a));
       if err \<noteq> None then Some (err, a)
       else Some (None, if as_inFastRecovery a \<and> cumTSNAckPointAdvanced then a\<lparr>as_willRetransmitFast := True\<rparr> else a)
     }"

text \<open>RFC 3758 C2: the loop that \<^verbatim>\<open>handleSack\<close> and \<^verbatim>\<open>onRetransmissionTimeout\<close> share.\<close>

partial_function (option) advance_peer_loop :: "Association \<Rightarrow> u32 \<Rightarrow> Association option" where
  "advance_peer_loop a i =
     do {
       r \<leftarrow> returned (payloadQueue_get (as_store a) (as_inflightQueue a) i);
       (case r of
          None \<Rightarrow> Some a
        | Some p \<Rightarrow>
            do {
              ab \<leftarrow> returned (abandoned (as_store a) p);
              if \<not> ab then Some a
              else advance_peer_loop (a\<lparr>as_advancedPeerTSNAckPoint := i\<rparr>) (i + 1)
            })
     }"

definition mark_forward :: "Association \<Rightarrow> Association" where
  "mark_forward a =
     (if sna32GT (as_advancedPeerTSNAckPoint a) (as_cumulativeTSNAckPoint a) then a\<lparr>as_willSendForwardTSN := True\<rparr> else a)"

fun release_buffers :: "Association \<Rightarrow> (u16 \<times> int) list \<Rightarrow> Association option" where
  "release_buffers a [] = Some a"
| "release_buffers a ((si, nBytesAcked) # rest) =
     (case map_of (as_streams a) si of
        None \<Rightarrow> release_buffers a rest
      | Some p \<Rightarrow>
          do {
            s \<leftarrow> as_streamStore a p;
            release_buffers (update_stream a p (snd (onBufferReleased s nBytesAcked))) rest
          })"

definition postprocessSack :: "Association \<Rightarrow> assocState \<Rightarrow> bool \<Rightarrow> Association" where
  "postprocessSack a state shouldAwakeWriteLoop =
     (let (shouldAwakeWriteLoop, a) =
        (if payloadQueue_size (as_inflightQueue a) > 0 then (shouldAwakeWriteLoop, start_t3 a)
         else if state = ShutdownPending then (True, setState (a\<lparr>as_willSendShutdown := True\<rparr>) ShutdownSent)
         else if state = ShutdownReceived then (True, setState (a\<lparr>as_willSendShutdownAck := True\<rparr>) ShutdownAckSent)
         else (shouldAwakeWriteLoop, a))
      in if shouldAwakeWriteLoop then awakeWriteLoop a else a)"

definition handleSack :: "env \<Rightarrow> Association \<Rightarrow> chunkSelectiveAck \<Rightarrow> (sctp_err option \<times> Association) option" where
  "handleSack e a d =
     (let state = getState a
      in if state \<notin> {Established, ShutdownPending, ShutdownReceived} then Some (None, a)
         else
           let a = a\<lparr>as_stats := incSACKsReceived (as_stats a)\<rparr>
           in if sna32GT (as_cumulativeTSNAckPoint a) (sa_cumulativeTSNAck d) then Some (None, a)
              else do {
                (r, a) \<leftarrow> processSelectiveAck e a d;
                (case r of
                   Inl err \<Rightarrow> Some (Some err, a)
                 | Inr (bytesAckedPerStream, htna) \<Rightarrow>
                     do {
                       let totalBytesAcked = sum_list (map snd bytesAckedPerStream);
                       let cumTSNAckPointAdvanced = sna32LT (as_cumulativeTSNAckPoint a) (sa_cumulativeTSNAck d);
                       let a = (if cumTSNAckPointAdvanced then
                                  onCumulativeTSNAckPointAdvanced
                                    (a\<lparr>as_cumulativeTSNAckPoint := sa_cumulativeTSNAck d\<rparr>) totalBytesAcked
                                else a);
                       a \<leftarrow> release_buffers a bytesAckedPerStream;
                       let bytesOutstanding = (of_int (payloadQueue_getNumBytes (as_inflightQueue a)) :: u32);
                       let a = (if bytesOutstanding \<ge> sa_advertisedReceiverWindowCredit d then setRWND a 0
                                else setRWND a (sa_advertisedReceiverWindowCredit d - bytesOutstanding));
                       (err, a) \<leftarrow> processFastRetransmission a (sa_cumulativeTSNAck d) (sa_gapAckBlocks d) htna
                                    cumTSNAckPointAdvanced;
                       if err \<noteq> None then Some (err, a)
                       else do {
                         a \<leftarrow> (if as_useForwardTSN a then do {
                                let a = (if sna32LT (as_advancedPeerTSNAckPoint a) (as_cumulativeTSNAckPoint a)
                                         then a\<lparr>as_advancedPeerTSNAckPoint := as_cumulativeTSNAckPoint a\<rparr> else a);
                                a \<leftarrow> advance_peer_loop a (as_advancedPeerTSNAckPoint a + 1);
                                Some (awakeWriteLoop (mark_forward a))
                              }
                              else Some a);
                         Some (None, postprocessSack a state cumTSNAckPointAdvanced)
                       }
                     })
              })"

section \<open>Closing\<close>

definition handleShutdown :: "Association \<Rightarrow> Association" where
  "handleShutdown a =
     (case getState a of
        Established \<Rightarrow>
          if payloadQueue_size (as_inflightQueue a) > 0 then setState a ShutdownReceived
          else awakeWriteLoop (setState (a\<lparr>as_willSendShutdownAck := True\<rparr>) ShutdownAckSent)
      | ShutdownSent \<Rightarrow> awakeWriteLoop (setState (a\<lparr>as_willSendShutdownAck := True\<rparr>) ShutdownAckSent)
      | _ \<Rightarrow> a)"

definition handleShutdownAck :: "Association \<Rightarrow> Association" where
  "handleShutdownAck a =
     (if getState a = ShutdownSent \<or> getState a = ShutdownAckSent
      then awakeWriteLoop (a\<lparr>as_t2Shutdown := rtxTimer_stop (as_t2Shutdown a), as_willSendShutdownComplete := True\<rparr>)
      else a)"

definition handleShutdownComplete :: "env \<Rightarrow> Association \<Rightarrow> sctp_err option \<times> Association" where
  "handleShutdownComplete e a =
     (if getState a = ShutdownAckSent
      then association_close e (a\<lparr>as_t2Shutdown := rtxTimer_stop (as_t2Shutdown a)\<rparr>)
      else (None, a))"

definition handleAbort :: "env \<Rightarrow> Association \<Rightarrow> sctp_err \<times> Association" where
  "handleAbort e a = (AssocE ErrChunk, snd (association_close e a))"

section \<open>Dispatch\<close>

definition handleChunksStart :: "Association \<Rightarrow> Association" where
  "handleChunksStart a =
     a\<lparr>as_stats := incPacketsReceived (as_stats a), as_delayedAckTriggered := False, as_immediateAckTriggered := False\<rparr>"

definition handleChunksEnd :: "Association \<Rightarrow> Association" where
  "handleChunksEnd a =
     (if as_immediateAckTriggered a
      then awakeWriteLoop (a\<lparr>as_ackState := AckStateImmediate, as_ackTimer := ackTimer_stop (as_ackTimer a)\<rparr>)
      else if as_delayedAckTriggered a
      then a\<lparr>as_ackState := AckStateDelay, as_ackTimer := snd (ackTimer_start (as_ackTimer a))\<rparr>
      else a)"

text \<open>The switch of \<^verbatim>\<open>handleChunk\<close>: the packets to send or the error of the handler.\<close>

definition dispatch :: "env \<Rightarrow> Association \<Rightarrow> packet \<Rightarrow> chunk_body \<Rightarrow> ((sctp_err + packet list) \<times> Association) option" where
  "dispatch e a pkt c =
     (let status = (\<lambda>(err, a). ((case err of None \<Rightarrow> Inr [] | Some x \<Rightarrow> Inl x), a));
          packets = (\<lambda>(ps, a). (Inr ps, a))
      in case c of
        ChunkInit i \<Rightarrow> Some (handleInit e a pkt i)
      | ChunkInitAck i \<Rightarrow> Some (status (handleInitAck a pkt i))
      | ChunkAbort causes \<Rightarrow> Some (case handleAbort e a of (err, a) \<Rightarrow> (Inl err, a))
      | ChunkError causes \<Rightarrow> Some (Inr [], a)
      | ChunkHeartbeat params \<Rightarrow> do { ps \<leftarrow> handleHeartbeat a params; Some (Inr ps, a) }
      | ChunkCookieEcho cookie \<Rightarrow> map_option packets (handleCookieEcho e a cookie)
      | ChunkCookieAck \<Rightarrow> do { a \<leftarrow> handleCookieAck e a; Some (Inr [], a) }
      | ChunkPayloadData d \<Rightarrow> map_option packets (handleData a d)
      | ChunkSelectiveAck d \<Rightarrow> map_option status (handleSack e a d)
      | ChunkReconfig p q \<Rightarrow> handleReconfig a p q
      | ChunkForwardTSN tsn ss \<Rightarrow> map_option packets (handleForwardTSN a tsn ss)
      | ChunkShutdown _ \<Rightarrow> Some (Inr [], handleShutdown a)
      | ChunkShutdownAck \<Rightarrow> Some (Inr [], handleShutdownAck a)
      | ChunkShutdownComplete \<Rightarrow> Some (status (handleShutdownComplete e a))
      | ChunkHeartbeatAck params \<Rightarrow> Some (Inl (AssocE ErrChunkTypeUnhandled), a))"

definition handleChunk :: "env \<Rightarrow> Association \<Rightarrow> packet \<Rightarrow> chunk \<Rightarrow> (sctp_err option \<times> Association) option" where
  "handleChunk e a receivedPacket receivedChunk =
     (if snd (chunk_check (snd receivedChunk)) \<noteq> None then Some (None, a)
      else do {
        let isAbort = (case snd receivedChunk of ChunkAbort _ \<Rightarrow> True | _ \<Rightarrow> False);
        (r, a) \<leftarrow> dispatch e a receivedPacket (snd receivedChunk);
        (case r of
           Inl err \<Rightarrow> Some (if isAbort then Some err else None, a)
         | Inr packets \<Rightarrow>
             if packets \<noteq> []
             then Some (None, awakeWriteLoop (a\<lparr>as_controlQueue := controlQueue_pushAll (as_controlQueue a) packets\<rparr>))
             else Some (None, a))
      })"

fun handle_chunks :: "env \<Rightarrow> Association \<Rightarrow> packet \<Rightarrow> chunk list \<Rightarrow> (sctp_err option \<times> Association) option" where
  "handle_chunks e a pkt [] = Some (None, a)"
| "handle_chunks e a pkt (c # cs) =
     do {
       (err, a) \<leftarrow> handleChunk e a pkt c;
       if err \<noteq> None then Some (err, a) else handle_chunks e a pkt cs
     }"

definition handleInbound :: "env \<Rightarrow> Association \<Rightarrow> bytes \<Rightarrow> (sctp_err option \<times> Association) option" where
  "handleInbound e a raw =
     (case unmarshalPacket (as_recvZeroChecksum a) raw of
        Inl Panic \<Rightarrow> None
      | Inl (Err _) \<Rightarrow> Some (None, a)
      | Inr pkt \<Rightarrow>
          if checkPacket pkt \<noteq> None then Some (None, a)
          else do {
            (err, a) \<leftarrow> handle_chunks e (handleChunksStart a) pkt (pk_chunks pkt);
            if err \<noteq> None then Some (err, a) else Some (None, handleChunksEnd a)
          })"

text \<open>One round of \<^verbatim>\<open>readLoop\<close>, with the result of the read from the connection, and its deferred function.\<close>

definition readLoop_exit :: "Association \<Rightarrow> sctp_err \<Rightarrow> Association option" where
  "readLoop_exit a closeErr =
     do {
       let a = setState (a\<lparr>as_closeWriteLoop := True\<rparr>) Closed;
       a \<leftarrow> unregister_all a (as_streams a) closeErr;
       Some (a\<lparr>as_acceptClosed := True, as_readLoopClosed := True\<rparr>)
     }"

definition readLoop_round :: "env \<Rightarrow> Association \<Rightarrow> sctp_err + bytes \<Rightarrow> (bool \<times> Association) option" where
  "readLoop_round e a r =
     (case r of
        Inl err \<Rightarrow> map_option (Pair False) (readLoop_exit a err)
      | Inr inbound \<Rightarrow>
          do {
            let a = a\<lparr>as_bytesReceived := as_bytesReceived a + of_nat (length inbound)\<rparr>;
            (err, a) \<leftarrow> handleInbound e a inbound;
            (case err of
               Some closeErr \<Rightarrow> map_option (Pair False) (readLoop_exit a closeErr)
             | None \<Rightarrow> Some (True, a))
          })"

section \<open>Timers\<close>

definition onRetransmissionTimeout :: "Association \<Rightarrow> timerId \<Rightarrow> nat \<Rightarrow> Association option" where
  "onRetransmissionTimeout a tid nRtos =
     (let a = (if as_cumulativeTSNAckPoint a + 1 = as_initialTSN a \<and> nRtos mod 3 = 0
               then a\<lparr>as_sendZeroChecksum := \<not> as_sendZeroChecksum a\<rparr> else a)
      in case tid of
           TimerT1Init \<Rightarrow> Some (snd (sendInit a))
         | TimerT1Cookie \<Rightarrow> Some (snd (sendCookieEcho a))
         | TimerT2Shutdown \<Rightarrow>
             (case getState a of
                ShutdownSent \<Rightarrow> Some (awakeWriteLoop (a\<lparr>as_willSendShutdown := True\<rparr>))
              | ShutdownAckSent \<Rightarrow> Some (awakeWriteLoop (a\<lparr>as_willSendShutdownAck := True\<rparr>))
              | _ \<Rightarrow> Some a)
         | TimerT3RTX \<Rightarrow>
             do {
               let a = a\<lparr>as_stats := incT3Timeouts (as_stats a)\<rparr>;
               let a = a\<lparr>as_ssthresh := max32 (CWND a div 2) (4 * MTU a)\<rparr>;
               let a = setCWND a (MTU a);
               a \<leftarrow> (if as_useForwardTSN a
                     then map_option mark_forward (advance_peer_loop a (as_advancedPeerTSNAckPoint a + 1))
                     else Some a);
               st \<leftarrow> returned (payloadQueue_markAllToRetrasmit (as_store a) (as_inflightQueue a));
               Some (awakeWriteLoop (a\<lparr>as_store := st\<rparr>))
             }
         | TimerReconfig \<Rightarrow> Some (awakeWriteLoop (a\<lparr>as_willRetransmitReconfig := True\<rparr>)))"

definition onRetransmissionFailure :: "env \<Rightarrow> Association \<Rightarrow> timerId \<Rightarrow> Association option" where
  "onRetransmissionFailure e a tid =
     (case tid of
        TimerT1Init \<Rightarrow> map_option snd (completeHandshake e a (Some (AssocE ErrHandshakeInitAck)))
      | TimerT1Cookie \<Rightarrow> map_option snd (completeHandshake e a (Some (AssocE ErrHandshakeCookieEcho)))
      | _ \<Rightarrow> Some a)"

definition onAckTimeout :: "Association \<Rightarrow> Association" where
  "onAckTimeout a = awakeWriteLoop (a\<lparr>as_stats := incAckTimeouts (as_stats a), as_ackState := AckStateImmediate\<rparr>)"

end
