(* ===== verification/Sctp_Assoc_Inv.thy ===== *)
theory Sctp_Assoc_Inv
  imports Sctp_Sender Sctp_Assoc_Recv
begin

text \<open>
  The invariant of the sender over the whole association: every method, handler, timer and round of the
  loops keeps it, so it holds in every state that is reached from construction.
\<close>

section \<open>Frames\<close>

text \<open>What the invariant reads.\<close>

definition sender_part :: "Association \<Rightarrow> _" where
  "sender_part a = ((as_store a, as_freeChunk a, as_inflightQueue a, as_pendingQueue a, as_myNextTSN a, as_cumulativeTSNAckPoint a),
     (as_streams a, as_streamStore a, as_freeStream a, as_mtu a, as_maxPayloadSize a))"

lemma sender_part_eq: "sender_part b = sender_part a \<Longrightarrow> sender_inv b = sender_inv a"
  by (simp add: sender_part_def sender_inv_def snd_inv_def alloc_inv_def streams_ok_def)

named_theorems frames

lemma sender_part_sets [frames]:
  "sender_part (setState a s) = sender_part a" "sender_part (setCWND a w) = sender_part a" "sender_part (setRWND a w) = sender_part a"
  "sender_part (awakeWriteLoop a) = sender_part a" "sender_part (notifyBlockWritable a) = sender_part a"
  "sender_part (closeAllTimers a) = sender_part a" "sender_part (start_t3 a) = sender_part a" "sender_part (start_t2 a) = sender_part a"
  by (simp_all add: sender_part_def setState_def setCWND_def setRWND_def awakeWriteLoop_def notifyBlockWritable_def closeAllTimers_def
      start_t3_def start_t2_def Let_def)

lemma sender_part_updates [frames]:
  "sender_part (a\<lparr>as_stats := x1\<rparr>) = sender_part a" "sender_part (a\<lparr>as_payloadQueue := x2\<rparr>) = sender_part a"
  "sender_part (a\<lparr>as_reconfigRequests := x3\<rparr>) = sender_part a" "sender_part (a\<lparr>as_reconfigs := x4\<rparr>) = sender_part a"
  "sender_part (a\<lparr>as_controlQueue := x5\<rparr>) = sender_part a" "sender_part (a\<lparr>as_tReconfig := x6\<rparr>) = sender_part a"
  "sender_part (a\<lparr>as_acceptCh := x7\<rparr>) = sender_part a" "sender_part (a\<lparr>as_rwnd := x8\<rparr>) = sender_part a"
  "sender_part (a\<lparr>as_t3RTX := x9\<rparr>) = sender_part a" "sender_part (a\<lparr>as_inFastRecovery := x10\<rparr>) = sender_part a"
  "sender_part (a\<lparr>as_advancedPeerTSNAckPoint := x11\<rparr>) = sender_part a" "sender_part (a\<lparr>as_willRetransmitFast := x12\<rparr>) = sender_part a"
  "sender_part (a\<lparr>as_willSendForwardTSN := x13\<rparr>) = sender_part a" "sender_part (a\<lparr>as_willRetransmitReconfig := x14\<rparr>) = sender_part a"
  "sender_part (a\<lparr>as_ackState := x15\<rparr>) = sender_part a" "sender_part (a\<lparr>as_delayedAckTriggered := x16\<rparr>) = sender_part a"
  "sender_part (a\<lparr>as_immediateAckTriggered := x17\<rparr>) = sender_part a" "sender_part (a\<lparr>as_partialBytesAcked := x18\<rparr>) = sender_part a"
  "sender_part (a\<lparr>as_sendZeroChecksum := x19\<rparr>) = sender_part a" "sender_part (a\<lparr>as_ssthresh := x20\<rparr>) = sender_part a"
  "sender_part (a\<lparr>as_useForwardTSN := x21\<rparr>) = sender_part a" "sender_part (a\<lparr>as_closeWriteLoop := x22\<rparr>) = sender_part a"
  "sender_part (a\<lparr>as_ackTimer := x23\<rparr>) = sender_part a"
  by (simp_all add: sender_part_def)

lemmas sender_frames = frames [THEN sender_part_eq]

lemma returned_Some [simp]: "returned r = Some x \<longleftrightarrow> r = Inr x"
  by (auto simp: returned_def split: sum.splits)

lemmas split_cases = sum.split_asm option.split_asm if_split_asm prod.split_asm

section \<open>Streams\<close>

lemma stream_ids [simp]:
  "sm_streamIdentifier (onInboundStreamReset s) = sm_streamIdentifier s"
  "sm_streamIdentifier (handleForwardTSNForOrdered s ssn) = sm_streamIdentifier s"
  "sm_streamIdentifier (handleForwardTSNForUnordered s tsn) = sm_streamIdentifier s"
  "sm_streamIdentifier (snd (onBufferReleased s n)) = sm_streamIdentifier s"
  "sm_streamIdentifier (SetDefaultPayloadType s ppi) = sm_streamIdentifier s"
  "sm_streamIdentifier (Cond_Broadcast s) = sm_streamIdentifier s"
  "sm_streamIdentifier (new_stream si) = si"
  by (auto simp: onInboundStreamReset_def handleForwardTSNForOrdered_def handleForwardTSNForUnordered_def onBufferReleased_def
      SetDefaultPayloadType_def Cond_Broadcast_def Cond_Signal_def new_stream_def Let_def)

lemma update_stream_keeps [simp]:
  "as_streamStore a p = Some s \<Longrightarrow> sm_streamIdentifier s' = sm_streamIdentifier s \<Longrightarrow> sender_inv a \<Longrightarrow> sender_inv (update_stream a p s')"
  by (rule update_stream_sender)

lemma handleData_id: "Stream_handleData s c = ok s' \<Longrightarrow> sm_streamIdentifier s' = sm_streamIdentifier s"
  by (auto simp: Stream_handleData_def Cond_Signal_def Let_def bind_res_def split: sum.splits if_splits prod.splits)

lemma delete_stream_sender: "sender_inv a \<Longrightarrow> sender_inv (a\<lparr>as_streams := AList.delete si (as_streams a)\<rparr>)"
  by (auto simp: sender_inv_def snd_inv_def alloc_inv_def streams_ok_def AList.delete_eq)

lemma createStream_sender:
  assumes "sender_inv a" "createStream a si acc = Some (p, b)"
  shows "sender_inv b" "p \<noteq> nil \<longrightarrow> as_streamStore b p \<noteq> None"
proof -
  have sub: "set (AList.update k v al) \<subseteq> insert (k, v) (set al)" for k :: u16 and v :: addr and al
    by (induction al) auto
  have old: "q \<noteq> as_freeStream a" if "(sj, q) \<in> set (as_streams a)" for sj q
    using that assms(1) by (force simp: sender_inv_def snd_inv_def alloc_inv_def streams_ok_def)
  let ?c = "\<lambda>ch. a\<lparr>as_streamStore := (as_streamStore a)(as_freeStream a \<mapsto> new_stream si), as_freeStream := as_freeStream a + 1,
    as_acceptCh := ch, as_streams := AList.update si (as_freeStream a) (as_streams a)\<rparr>"
  let ?d = "a\<lparr>as_streamStore := (as_streamStore a)(as_freeStream a \<mapsto> new_stream si), as_freeStream := as_freeStream a + 1,
    as_streams := AList.update si (as_freeStream a) (as_streams a)\<rparr>"
  have inv: "sender_inv ?d"
    using assms(1) old sub [of si "as_freeStream a" "as_streams a"]
    by (auto simp: sender_inv_def snd_inv_def alloc_inv_def streams_ok_def)
  moreover have "sender_part (?c ch) = sender_part ?d" for ch by (simp add: sender_part_def)
  then have "sender_inv (?c ch)" for ch using inv sender_part_eq by blast
  moreover have "(b = a \<and> p = nil) \<or> (p = as_freeStream a \<and> (b = ?d \<or> (\<exists>ch. b = ?c ch)))"
    using assms(2) by (auto simp: createStream_def update_stream_def Let_def split: if_splits)
  ultimately show "sender_inv b" "p \<noteq> nil \<longrightarrow> as_streamStore b p \<noteq> None" using assms(1) by auto
qed

lemma getOrCreateStream_sender:
  assumes "sender_inv a" "getOrCreateStream a si acc ppi = Some (p, b)"
  shows "sender_inv b"
proof (cases "map_of (as_streams a) si")
  case None
  obtain c where c: "createStream a si acc = Some (p, c)" "b = c \<or> (\<exists>s. as_streamStore c p = Some s \<and> b = update_stream c p (SetDefaultPayloadType s ppi))"
    using assms(2) None by (auto simp: getOrCreateStream_def Let_def bind_eq_Some_conv split: if_splits)
  then show ?thesis using createStream_sender(1) [OF assms(1) c(1)] by (auto intro: update_stream_sender)
next
  case (Some q)
  then show ?thesis using assms by (auto simp: getOrCreateStream_def Let_def bind_eq_Some_conv intro: update_stream_sender)
qed

lemma OpenStream_sender: "sender_inv a \<Longrightarrow> OpenStream a si ppi = Some (r, b) \<Longrightarrow> sender_inv b"
  by (auto simp: OpenStream_def bind_eq_Some_conv split: if_splits intro: getOrCreateStream_sender)

lemma AcceptStream_sender: "sender_inv a \<Longrightarrow> AcceptStream a = Some (r, b) \<Longrightarrow> sender_inv b"
  by (auto simp: AcceptStream_def sender_frames split: list.splits if_splits)

lemma unregisterStream_sender: "sender_inv a \<Longrightarrow> unregisterStream a p err = Some b \<Longrightarrow> sender_inv b"
  by (auto simp: unregisterStream_def bind_eq_Some_conv Let_def intro!: update_stream_sender delete_stream_sender)

lemma unregister_all_sender: "sender_inv a \<Longrightarrow> unregister_all a ss err = Some b \<Longrightarrow> sender_inv b"
  by (induction a ss err rule: unregister_all.induct) (auto simp: bind_eq_Some_conv intro: unregisterStream_sender)

lemma reset_streams_sender: "sender_inv a \<Longrightarrow> reset_streams a ids = Some b \<Longrightarrow> sender_inv b"
proof (induction a ids rule: reset_streams.induct)
  case (2 a sid ids)
  show ?case
  proof (cases "map_of (as_streams a) sid")
    case None
    then show ?thesis using 2 by simp
  next
    case (Some p)
    then obtain s where s: "as_streamStore a p = Some s" using "2.prems"(2) by (auto simp: bind_eq_Some_conv)
    let ?b = "update_stream a p (onInboundStreamReset s)"
    have "sender_inv ?b" by (rule update_stream_sender [OF "2.prems"(1) s]) simp
    then show ?thesis using 2 Some s delete_stream_sender [of ?b] by (simp add: Let_def)
  qed
qed simp

lemma resetStreamsIfAny_sender: "sender_inv a \<Longrightarrow> resetStreamsIfAny a r = Some (pkt, b) \<Longrightarrow> sender_inv b"
  by (auto simp: resetStreamsIfAny_def bind_eq_Some_conv sender_frames split: if_splits prod.splits dest: reset_streams_sender)

lemma reset_requests_sender: "sender_inv a \<Longrightarrow> reset_requests a rs reply = Some (reply', b) \<Longrightarrow> sender_inv b"
  by (induction a rs reply arbitrary: reply' b rule: reset_requests.induct)
    (auto simp: bind_eq_Some_conv dest: resetStreamsIfAny_sender)

lemma handleReconfigParam_sender: "sender_inv a \<Longrightarrow> handleReconfigParam a par = Some (r, b) \<Longrightarrow> sender_inv b"
  by (auto simp: handleReconfigParam_def bind_eq_Some_conv sender_frames Let_def
      split: param_body.splits if_splits dest!: resetStreamsIfAny_sender [rotated])

lemma handleReconfig_sender:
  assumes "sender_inv a" "handleReconfig a p q = Some (r, b)"
  shows "sender_inv b"
proof -
  obtain r' c where c: "handleReconfigParam a p = Some (r', c)" using assms(2) by (auto simp: handleReconfig_def bind_eq_Some_conv)
  have inv: "sender_inv c" by (rule handleReconfigParam_sender [OF assms(1) c])
  show ?thesis
  proof (cases r')
    case (Inl err)
    then show ?thesis using assms(2) c inv by (simp add: handleReconfig_def)
  next
    case pkt: (Inr pkt)
    show ?thesis
    proof (cases q)
      case None
      then show ?thesis using assms(2) c inv pkt by (auto simp: handleReconfig_def)
    next
      case (Some par)
      then obtain r2 d where d: "handleReconfigParam c par = Some (r2, d)"
        using assms(2) c pkt by (auto simp: handleReconfig_def Let_def bind_eq_Some_conv)
      then show ?thesis using assms(2) c pkt Some handleReconfigParam_sender [OF inv d]
        by (cases r2) (auto simp: handleReconfig_def Let_def)
    qed
  qed
qed

section \<open>Receiving data\<close>

lemma advance_loop_sender:
  assumes "advance_loop a reply = Some r" "sender_inv a"
  shows "sender_inv (snd r)"
proof -
  have "sender_inv a \<longrightarrow> sender_inv (snd r)"
    by (rule advance_loop.raw_induct [where P = "\<lambda>a reply r. sender_inv a \<longrightarrow> sender_inv (snd r)", OF _ assms(1)])
      (auto simp: bind_eq_Some_conv sender_frames Let_def split: if_splits dest!: reset_requests_sender [rotated])
  then show ?thesis using assms(2) by blast
qed

lemma handlePeerLastTSN_sender:
  assumes "handlePeerLastTSNAndAcknowledgement a im = Some (r, b)" "sender_inv a"
  shows "sender_inv b"
proof (cases "advance_loop a []")
  case (Some rc)
  have "sender_inv (snd rc)" by (rule advance_loop_sender [OF Some assms(2)])
  then show ?thesis using assms(1) Some
    by (cases rc) (clarsimp simp: handlePeerLastTSNAndAcknowledgement_def Let_def if_distrib [of sender_inv] sender_frames)
qed (use assms(1) in \<open>simp add: handlePeerLastTSNAndAcknowledgement_def\<close>)

lemma accept_data_sender: "accept_data a p c = Some b \<Longrightarrow> sender_inv a \<Longrightarrow> sender_inv b"
  by (auto simp: accept_data_def bind_eq_Some_conv sender_frames handleData_id split: prod.split_asm)

lemma handleData_sender:
  assumes "handleData a c = Some (r, b)" "sender_inv a"
  shows "sender_inv b"
proof -
  let ?a = "a\<lparr>as_stats := incDATAs (as_stats a)\<rparr>"
  have inv: "sender_inv ?a" using assms(2) by (simp add: sender_frames)
  have rest: "sender_inv b" if "handlePeerLastTSNAndAcknowledgement d (pd_immediateSack c) = Some (r, b)" "sender_inv d" for d
    using that handlePeerLastTSN_sender by blast
  from assms(1) obtain can where can: "canPush (as_payloadQueue ?a) (pd_tsn c) = ok can" by (auto simp: handleData_def Let_def bind_eq_Some_conv)
  show ?thesis
  proof (cases can)
    case False
    then show ?thesis using assms(1) can inv by (simp add: handleData_def Let_def rest)
  next
    case True
    then obtain p d where d: "getOrCreateStream ?a (pd_streamIdentifier c) True 0 = Some (p, d)"
      using assms(1) can by (auto simp: handleData_def Let_def bind_eq_Some_conv)
    have inv: "sender_inv d" by (rule getOrCreateStream_sender [OF inv d])
    show ?thesis
    proof (cases "p = nil")
      case nil: False
      then obtain d' where d': "handlePeerLastTSNAndAcknowledgement d' (pd_immediateSack c) = Some (r, b)" "d' = d \<or> accept_data d p c = Some d'"
        using assms(1) can True d by (auto simp: handleData_def Let_def bind_eq_Some_conv split: if_split_asm option.split_asm)
      then show ?thesis using rest [OF d'(1)] inv accept_data_sender by blast
    qed (use assms(1) can True d inv in \<open>simp add: handleData_def Let_def\<close>)
  qed
qed

lemma skip_loop_sender:
  assumes "skip_loop a tsn = Some b" "sender_inv a"
  shows "sender_inv b"
proof -
  have "sender_inv a \<longrightarrow> sender_inv b"
    by (rule skip_loop.raw_induct [where P = "\<lambda>a tsn b. sender_inv a \<longrightarrow> sender_inv b", OF _ assms(1)])
      (auto simp: bind_eq_Some_conv sender_frames split: split_cases)
  then show ?thesis using assms(2) by blast
qed

lemma forward_ordered_sender: "sender_inv a \<Longrightarrow> forward_ordered a fs = Some b \<Longrightarrow> sender_inv b"
  by (induction a fs rule: forward_ordered.induct) (auto simp: bind_eq_Some_conv split: option.split_asm)

lemma forward_unordered_sender: "sender_inv a \<Longrightarrow> forward_unordered a ss tsn = Some b \<Longrightarrow> sender_inv b"
  by (induction a ss tsn rule: forward_unordered.induct) (auto simp: bind_eq_Some_conv)

lemma handleForwardTSN_sender: "handleForwardTSN a tsn ss = Some (r, b) \<Longrightarrow> sender_inv a \<Longrightarrow> sender_inv b"
  by (auto simp: handleForwardTSN_def bind_eq_Some_conv sender_frames split: if_split_asm
      dest!: handlePeerLastTSN_sender skip_loop_sender forward_ordered_sender [rotated] forward_unordered_sender [rotated])

section \<open>The handshake and closing\<close>

lemma sender_part_sends [frames]: "sender_part (snd (sendInit a)) = sender_part a" "sender_part (snd (sendCookieEcho a)) = sender_part a"
  by (simp_all add: sendInit_def sendCookieEcho_def sender_part_def awakeWriteLoop_def Let_def split: option.split)

lemma apply_params_part [frames]: "sender_part (foldl apply_param a ps) = sender_part a"
proof (induction ps arbitrary: a)
  case (Cons p ps)
  have "sender_part (apply_param a p) = sender_part a" by (cases p) (simp_all add: sender_part_def)
  then show ?case using Cons by simp
qed simp

lemma association_init_part [frames]: "sender_part (association_init a c) = sender_part a"
  by (simp add: association_init_def sender_part_def sendInit_def awakeWriteLoop_def setState_def Let_def)

lemma handleInit_part [frames]: "sender_part (snd (handleInit e a pkt i)) = sender_part a"
proof (cases "getState a \<notin> {Closed, CookieWait, CookieEchoed}")
  case False
  let ?b = "a\<lparr>as_myMaxNumInboundStreams := min16 (ic_numInboundStreams i) (as_myMaxNumInboundStreams a),
                  as_myMaxNumOutboundStreams := min16 (ic_numOutboundStreams i) (as_myMaxNumOutboundStreams a),
                  as_peerVerificationTag := ic_initiateTag i,
                  as_sourcePort := pk_destinationPort pkt, as_destinationPort := pk_sourcePort pkt,
                  as_payloadQueue := receivePayloadQueue_init (as_payloadQueue a) (ic_initialTSN i - 1)\<rparr>"
  let ?c = "foldl apply_param (setRWND ?b (ic_advertisedReceiverWindowCredit i)) (ic_params i)"
  have "sender_part ?b = sender_part a" by (simp add: sender_part_def)
  then have c: "sender_part ?c = sender_part a" using apply_params_part sender_part_sets(3) by metis
  have d: "sender_part (?c\<lparr>as_myCookie := x\<rparr>) = sender_part ?c" for x by (simp add: sender_part_def)
  have "snd (handleInit e a pkt i) = (if as_myCookie ?c = None then ?c\<lparr>as_myCookie := en_cookie e\<rparr> else ?c)"
    unfolding handleInit_def Let_def if_not_P [OF False] option.case_eq_if if_distrib [of snd] prod.sel if_cancel ..
  then show ?thesis using c d by simp
qed (simp add: handleInit_def)

lemma handleInitAck_part [frames]: "sender_part (snd (handleInitAck a pkt i)) = sender_part a"
proof -
  let ?b = "a\<lparr>as_myMaxNumInboundStreams := min16 (ic_numInboundStreams i) (as_myMaxNumInboundStreams a),
                  as_myMaxNumOutboundStreams := min16 (ic_numOutboundStreams i) (as_myMaxNumOutboundStreams a),
                  as_peerVerificationTag := ic_initiateTag i,
                  as_payloadQueue := receivePayloadQueue_init (as_payloadQueue a) (ic_initialTSN i - 1)\<rparr>"
  let ?c = "setRWND ?b (ic_advertisedReceiverWindowCredit i)"
  let ?d = "?c\<lparr>as_ssthresh := RWND ?c, as_t1Init := rtxTimer_stop (as_t1Init ?c), as_storedInit := None\<rparr>"
  let ?f = "foldl apply_param ?d (ic_params i)"
  have b: "sender_part ?b = sender_part a" and d: "sender_part ?d = sender_part a" by (simp_all add: sender_part_def setRWND_def)
  have f: "sender_part ?f = sender_part a" using d apply_params_part by metis
  show ?thesis
  proof (cases "find_cookie None (ic_params i)")
    case None
    then show ?thesis using b f by (simp add: handleInitAck_def Let_def)
  next
    case (Some cookie)
    have "sender_part (setState ((snd (sendCookieEcho (?f\<lparr>as_storedCookieEcho := Some cookie\<rparr>)))\<lparr>as_t1Cookie := t\<rparr>) CookieEchoed) = sender_part ?f" for t
      by (simp add: sender_part_def setState_def sendCookieEcho_def awakeWriteLoop_def Let_def)
    then show ?thesis using b f Some by (simp add: handleInitAck_def Let_def)
  qed
qed

lemma completeHandshake_part: "completeHandshake e a r = Some (x, b) \<Longrightarrow> sender_part b = sender_part a"
  by (auto simp: completeHandshake_def sender_part_def Let_def split: if_split_asm)

lemma handleCookieEcho_part: "handleCookieEcho e a c = Some (r, b) \<Longrightarrow> sender_part b = sender_part a"
  by (auto simp: handleCookieEcho_def Let_def bind_eq_Some_conv split: option.split_asm if_split_asm dest!: completeHandshake_part)
    (simp_all add: sender_part_def setState_def)

lemma handleCookieAck_part: "handleCookieAck e a = Some b \<Longrightarrow> sender_part b = sender_part a"
  by (auto simp: handleCookieAck_def Let_def split: if_split_asm dest!: completeHandshake_part)
    (simp_all add: sender_part_def setState_def)

lemma closing_parts [frames]:
  "sender_part (snd (association_close e a)) = sender_part a" "sender_part (snd (Shutdown a)) = sender_part a"
  "sender_part (Abort a reason) = sender_part a" "sender_part (handleShutdown a) = sender_part a"
  "sender_part (handleShutdownAck a) = sender_part a" "sender_part (snd (handleShutdownComplete e a)) = sender_part a"
  "sender_part (snd (handleAbort e a)) = sender_part a"
  by (simp_all add: sender_part_def association_close_def Shutdown_def Abort_def handleShutdown_def handleShutdownAck_def
      handleShutdownComplete_def handleAbort_def setState_def awakeWriteLoop_def closeAllTimers_def Let_def split: assocState.split)

lemma loop_parts [frames]:
  "sender_part (handleChunksStart a) = sender_part a" "sender_part (handleChunksEnd a) = sender_part a"
  "sender_part (onAckTimeout a) = sender_part a" "sender_part (count_sent a raw) = sender_part a"
  by (simp_all add: sender_part_def handleChunksStart_def handleChunksEnd_def onAckTimeout_def count_sent_def awakeWriteLoop_def)

section \<open>Receiving acknowledgements\<close>

text \<open>While a SACK is processed, the queue begins at a TSN that is not yet the cumulative ack point.\<close>

definition inv_from :: "u32 \<Rightarrow> Association \<Rightarrow> bool" where
  "inv_from i a \<longleftrightarrow> sender_inv (a\<lparr>as_cumulativeTSNAckPoint := i - 1\<rparr>)"

lemma inv_from_cum: "inv_from (as_cumulativeTSNAckPoint a + 1) a = sender_inv a"
  by (simp add: inv_from_def)

lemma inv_from_part: "sender_part b = sender_part a \<Longrightarrow> inv_from i b = inv_from i a"
  unfolding inv_from_def by (rule sender_part_eq) (simp add: sender_part_def)

lemma same_core_sender:
  assumes "sender_inv a" "same_core (as_store a) st"
  shows "sender_inv (a\<lparr>as_store := st\<rparr>)"
proof -
  have none: "st p = None" if "as_store a p = None" for p
    using assms(2) that unfolding same_core_def by (metis map_option_is_None)
  have len: "length (pd_userData c) \<le> 1200" if "st p = Some c" for p c
  proof -
    have "map_option core (as_store a p) = Some (core c)" using assms(2) that unfolding same_core_def by (metis option.simps(9))
    then obtain d where "as_store a p = Some d" "core c = core d" by auto
    then show ?thesis using assms(1) core_fields(2) [of c d] by (simp add: sender_inv_def alloc_inv_def)
  qed
  show ?thesis
    using assms(1) none len pq_inv_same_core [OF assms(2)] pend_inv_same_core [OF assms(2)] heads_same_core [OF assms(2)]
    by (simp add: sender_inv_def snd_inv_def alloc_inv_def streams_ok_def)
qed

lemma pop_inflight_sender:
  assumes "inv_from i a" "payloadQueue_pop (as_store a) (as_inflightQueue a) i = ok (Some p, iq)"
  shows "inv_from (i + 1) (a\<lparr>as_inflightQueue := iq\<rparr>)" "valid_ptr (as_store a) p"
proof -
  have inv: "pq_inv (as_store a) i (as_inflightQueue a)" using assms(1) by (simp add: inv_from_def sender_inv_def snd_inv_def)
  then obtain ps where el: "pq_elems (as_inflightQueue a) = p # ps"
    using assms(2) payloadQueue_pop_none [OF inv, of i] payloadQueue_pop_ok [OF inv] by (cases "pq_elems (as_inflightQueue a)") auto
  then have iq: "pq_inv (as_store a) (i + 1) iq" "pq_elems iq = ps" using payloadQueue_pop_ok [OF inv el] assms(2) by auto
  show "valid_ptr (as_store a) p" using inv el by (simp add: pq_inv_def)
  show "inv_from (i + 1) (a\<lparr>as_inflightQueue := iq\<rparr>)"
    using assms(1) iq el by (simp add: inv_from_def sender_inv_def snd_inv_def alloc_inv_def streams_ok_def del: length_queue_elems)
qed

lemma measure_rtt_part [frames]: "sender_part (measure_rtt e a c) = sender_part a"
  by (simp add: measure_rtt_def sender_part_def Let_def split: prod.split)

lemma cum_part: "sender_part b = sender_part a \<Longrightarrow> as_cumulativeTSNAckPoint b = as_cumulativeTSNAckPoint a"
  by (simp add: sender_part_def)

text \<open>The loop over the acknowledged chunks removes exactly them, or reports that there are fewer.\<close>

definition ack_part :: "Association \<Rightarrow> Association \<Rightarrow> bool" where
  "ack_part a b \<longleftrightarrow> sender_part b = sender_part (a\<lparr>as_inflightQueue := as_inflightQueue b\<rparr>)"

lemma ack_partI: "sender_part b = sender_part (a\<lparr>as_inflightQueue := iq\<rparr>) \<Longrightarrow> ack_part a b"
  by (simp add: ack_part_def sender_part_def)

lemma ack_part_trans: "ack_part a b \<Longrightarrow> ack_part b c \<Longrightarrow> ack_part a c"
  by (simp add: ack_part_def sender_part_def)

lemma cum_ack_step:
  assumes "inv_from i a" "pq_elems (as_inflightQueue a) = p # ps" "sna32LTE i cumAck"
  shows "\<exists>b acked'. cum_ack_loop e a i cumAck acked = cum_ack_loop e b (i + 1) cumAck acked' \<and> ack_part a b \<and>
    inv_from (i + 1) b \<and> pq_elems (as_inflightQueue b) = ps"
proof -
  have "pq_inv (as_store a) i (as_inflightQueue a)" using assms(1) by (simp add: inv_from_def sender_inv_def snd_inv_def)
  from payloadQueue_pop_ok [OF this assms(2)] obtain iq where
    iq: "payloadQueue_pop (as_store a) (as_inflightQueue a) i = ok (Some p, iq)" "pq_elems iq = ps" by blast
  let ?a = "a\<lparr>as_inflightQueue := iq\<rparr>" and ?c = "chunk_at (as_store a) p"
  have inv: "inv_from (i + 1) ?a" and v: "valid_ptr (as_store a) p" by (rule pop_inflight_sender [OF assms(1) iq(1)])+
  have d: "returned (deref (as_store ?a) p) = Some ?c" using v by simp
  define a1 where "a1 = (if i = as_cumulativeTSNAckPoint ?a + 1 then ?a\<lparr>as_t3RTX := rtxTimer_stop (as_t3RTX ?a)\<rparr> else ?a)"
  define a2 where "a2 = (if pd_nSent ?c = 1 \<and> sna32GTE (pd_tsn ?c) (as_minTSN2MeasureRTT a1) then measure_rtt e a1 ?c else a1)"
  define acked' where "acked' = add_acked acked (pd_streamIdentifier ?c) (int (length (pd_userData ?c)))"
  define r where "r = (if \<not> pd_acked ?c then (acked', a2) else (acked, ?a))"
  define b where "b = (if as_inFastRecovery (snd r) \<and> pd_tsn ?c = as_fastRecoverExitPoint (snd r) then (snd r)\<lparr>as_inFastRecovery := False\<rparr> else snd r)"
  have "sender_part a1 = sender_part ?a" by (simp add: a1_def sender_part_def)
  moreover have "sender_part a2 = sender_part a1" by (simp add: a2_def frames)
  ultimately have "sender_part (snd r) = sender_part ?a" by (simp add: r_def)
  then have part: "sender_part b = sender_part ?a" by (simp add: b_def frames)
  have "cum_ack_loop e a i cumAck acked = cum_ack_loop e b (i + 1) cumAck (fst r)"
    unfolding cum_ack_loop.simps [of e a i] if_P [OF assms(3)] iq(1) returned_simps Option.bind.bind_lunit prod.case
    unfolding Let_def option.case d Option.bind.bind_lunit
    unfolding a1_def [symmetric] a2_def [symmetric] acked'_def [symmetric] r_def [symmetric]
    unfolding b_def by (simp only: split_beta)
  moreover have "inv_from (i + 1) b" using inv inv_from_part [OF part] by simp
  moreover have "pq_elems (as_inflightQueue b) = ps" using part iq(2) by (simp add: sender_part_def)
  ultimately show ?thesis using ack_partI [OF part] by blast
qed

lemma cum_ack_loop_ok:
  assumes "inv_from i a" "cumAck + 1 = i + of_nat n" "n \<le> 2 ^ 31"
  shows "\<exists>r b. cum_ack_loop e a i cumAck acked = Some (r, b) \<and> (\<exists>x. r = (if n \<le> length (pq_elems (as_inflightQueue a)) then Inr x else Inl (AssocE ErrInflightQueueTSNPop))) \<and>
    (n \<le> length (pq_elems (as_inflightQueue a)) \<longrightarrow>
      inv_from (cumAck + 1) b \<and> ack_part a b \<and> pq_elems (as_inflightQueue b) = drop n (pq_elems (as_inflightQueue a)))"
  using assms
proof (induction n arbitrary: a i acked)
  case 0
  have "i - cumAck = 1" using "0.prems"(2) by (simp add: algebra_simps)
  then have "sna32GTE i cumAck" "i \<noteq> cumAck" by (auto simp: sna32GTE_def sna32GT_dist)
  then have "\<not> sna32LTE i cumAck" by (simp add: sna32LTE_def sna32.gte_iff_not_lt)
  then show ?case using 0 by (subst cum_ack_loop.simps) (simp add: ack_part_def)
next
  case (Suc n)
  have "cumAck - i = of_nat n" using Suc.prems(2) by (simp add: algebra_simps)
  moreover have "unat (of_nat n :: u32) = n" by (rule unat_of_nat_small) (use Suc.prems(3) in simp)
  ultimately have le: "sna32LTE i cumAck" using Suc.prems(3) unat_eq_zero [of "cumAck - i"] by (auto simp: sna32LTE_def sna32LT_dist)
  show ?case
  proof (cases "pq_elems (as_inflightQueue a)")
    case Nil
    have "pq_inv (as_store a) i (as_inflightQueue a)" using Suc.prems(1) by (simp add: inv_from_def sender_inv_def snd_inv_def)
    from payloadQueue_pop_none [OF this, of i] Nil
    have "payloadQueue_pop (as_store a) (as_inflightQueue a) i = ok (None, as_inflightQueue a)" by blast
    then show ?thesis using Nil le by (subst cum_ack_loop.simps) (simp add: Let_def del: length_queue_elems)
  next
    case (Cons p ps)
    from cum_ack_step [OF Suc.prems(1) Cons le, of e acked] obtain b acked' where
      b: "cum_ack_loop e a i cumAck acked = cum_ack_loop e b (i + 1) cumAck acked'" "ack_part a b" "inv_from (i + 1) b"
      "pq_elems (as_inflightQueue b) = ps" by blast
    have "cumAck + 1 = (i + 1) + of_nat n" "n \<le> 2 ^ 31" using Suc.prems(2,3) by (simp_all add: algebra_simps)
    from Suc.IH [OF b(3) this, of acked'] show ?thesis
      unfolding b(1,4) using b(2) Cons by (auto intro: ack_part_trans simp del: length_queue_elems)
  qed
qed

text \<open>Gap blocks mark chunks in place.\<close>

lemma markAsAcked_sender:
  assumes "sender_inv a" "payloadQueue_markAsAcked (as_store a) (as_inflightQueue a) tsn = ok (n, st, iq)"
  shows "sender_inv (a\<lparr>as_store := st, as_inflightQueue := iq\<rparr>)"
proof -
  let ?b = "as_cumulativeTSNAckPoint a + 1"
  have inv: "pq_inv (as_store a) ?b (as_inflightQueue a)" "heads_ok (as_store a)" "pend_inv (as_store a) (as_pendingQueue a)"
    "set (pending_elems (as_pendingQueue a)) \<inter> set (pq_elems (as_inflightQueue a)) = {}"
    using assms(1) by (simp_all add: sender_inv_def snd_inv_def)
  note new = markAsAcked_inv [OF inv(1) assms(2)]
  obtain r where r: "payloadQueue_get (as_store a) (as_inflightQueue a) tsn = ok r" using payloadQueue_get_no_panic [OF inv(1)] by blast
  show ?thesis
  proof (cases r)
    case None
    then have "st = as_store a" "iq = as_inflightQueue a" using assms(2) r by (auto simp: markAsAcked_eq [OF inv(1)])
    then show ?thesis using assms(1) by simp
  next
    case (Some p)
    let ?c = "(chunk_at (as_store a) p)\<lparr>pd_acked := True, pd_retransmit := False, pd_userData := []\<rparr>"
    have p: "p \<in> set (pq_elems (as_inflightQueue a))" "valid_ptr (as_store a) p"
      using payloadQueue_get_sound [OF inv(1), of tsn p] r Some by auto
    have st: "st = (as_store a)(p \<mapsto> ?c)" using assms(2) r Some by (auto simp: markAsAcked_eq [OF inv(1)])
    have "p \<notin> set (pending_elems (as_pendingQueue a))" using p inv(4) by blast
    then have "pend_inv st (as_pendingQueue a)" unfolding st by (intro pend_inv_other) (simp_all add: pending_elems_def inv(3))
    moreover have "heads_ok st" unfolding st by (rule heads_update [OF inv(2) _ p(2)]) simp
    moreover have "as_store a p \<noteq> None" using p(2) by (simp add: valid_ptr_def)
    then have "alloc_inv (a\<lparr>as_store := st, as_inflightQueue := iq\<rparr>)"
      using assms(1) by (force simp: sender_inv_def alloc_inv_def st)
    ultimately show ?thesis using assms(1) new by (simp add: sender_inv_def snd_inv_def streams_ok_def del: length_queue_elems)
  qed
qed

lemma markAsAcked_from:
  assumes "inv_from x a" "payloadQueue_markAsAcked (as_store a) (as_inflightQueue a) tsn = ok (n, st, iq)"
  shows "inv_from x (a\<lparr>as_store := st, as_inflightQueue := iq\<rparr>)"
proof -
  have "sender_inv (a\<lparr>as_cumulativeTSNAckPoint := x - 1, as_store := st, as_inflightQueue := iq\<rparr>)"
    using markAsAcked_sender [of "a\<lparr>as_cumulativeTSNAckPoint := x - 1\<rparr>" tsn n st iq] assms by (simp add: inv_from_def)
  then show ?thesis unfolding inv_from_def by (rule sender_part_eq [THEN iffD1, rotated]) (simp add: sender_part_def)
qed

text \<open>The invariant from a TSN on and the cumulative ack point, which the loops leave alone.\<close>

definition kept :: "u32 \<Rightarrow> Association \<Rightarrow> Association \<Rightarrow> bool" where
  "kept x a b \<longleftrightarrow> (inv_from x a \<longrightarrow> inv_from x b) \<and> as_cumulativeTSNAckPoint b = as_cumulativeTSNAckPoint a"

lemma kept_refl [simp]: "kept x a a"
  by (simp add: kept_def)

lemma kept_trans: "kept x a b \<Longrightarrow> kept x b c \<Longrightarrow> kept x a c"
  by (simp add: kept_def)

lemma kept_part: "sender_part b = sender_part a \<Longrightarrow> kept x a b"
  unfolding kept_def using inv_from_part [of b a] cum_part [of b a] by blast

lemma gap_ack_loop_kept:
  assumes "gap_ack_loop e a cumAck i end' acked htna = Some r"
  shows "kept x a (snd r)"
proof (rule gap_ack_loop.raw_induct [where P = "\<lambda>e a cumAck i end' acked htna r. kept x a (snd r)", OF _ assms], goal_cases)
  case (1 loop e a cumAck i end' acked htna r)
  note IH = 1(1) and eq = 1(2)
  have marked: "kept x a (if b then measure_rtt e (a\<lparr>as_store := st, as_inflightQueue := iq\<rparr>) c else a\<lparr>as_store := st, as_inflightQueue := iq\<rparr>)"
    if "payloadQueue_markAsAcked (as_store a) (as_inflightQueue a) (cumAck + ucast i) = ok (n, st, iq)" for n st iq b c
  proof -
    let ?m = "a\<lparr>as_store := st, as_inflightQueue := iq\<rparr>"
    have "kept x ?m (if b then measure_rtt e ?m c else ?m)" by (simp add: kept_part measure_rtt_part)
    moreover have "kept x a ?m" using markAsAcked_from [OF _ that] by (simp add: kept_def)
    ultimately show ?thesis by (blast intro: kept_trans)
  qed
  show ?case
  proof (cases "i \<le> end'")
    case True
    let ?get = "payloadQueue_get (as_store a) (as_inflightQueue a) (cumAck + ucast i)"
    note eq1 = eq [unfolded if_P [OF True] Let_def]
    obtain o' where o': "?get = ok o'" by (cases ?get) (use eq1 in \<open>auto simp only: returned_simps Option.bind.bind_lzero option.distinct\<close>)
    note eq2 = eq1 [unfolded o' returned_simps Option.bind.bind_lunit]
    show ?thesis
    proof (cases o')
      case None
      then have "r = (Inl (AssocE ErrTSNRequestNotExist), a)" using eq2 by (simp only: option.case option.inject)
      then show ?thesis by simp
    next
      case (Some p)
      note eq3 = eq2 [unfolded Some option.case]
      obtain c where c: "deref (as_store a) p = ok c" by (cases "deref (as_store a) p") (use eq3 in \<open>auto simp only: returned_simps Option.bind.bind_lzero option.distinct\<close>)
      note eq4 = eq3 [unfolded c returned_simps Option.bind.bind_lunit]
      show ?thesis
      proof (cases "pd_acked c")
        case acked: True
        then have "loop e a cumAck (i + 1) end' acked htna = Some r" using eq4 by (simp only: not_True_eq_False if_False)
        then show ?thesis by (rule IH)
      next
        case False
        let ?mark = "payloadQueue_markAsAcked (as_store a) (as_inflightQueue a) (cumAck + ucast i)"
        note eq5 = eq4 [unfolded if_P [OF False]]
        obtain m where m: "?mark = ok m" by (cases ?mark) (use eq5 in \<open>auto simp only: returned_simps Option.bind.bind_lzero option.distinct\<close>)
        obtain n st iq where nst: "m = (n, st, iq)" by (cases m)
        show ?thesis
          by (rule kept_trans [OF marked [OF m [unfolded nst], of "pd_nSent c = 1" c] IH])
            (use eq5 in \<open>simp only: m nst returned_simps Option.bind.bind_lunit prod.case\<close>)
      qed
    qed
  qed (use eq in auto)
qed

end
