(* ===== verification/Sctp_Sender_Spec.thy ===== *)
theory Sctp_Sender_Spec
  imports Sctp_Sender
begin

text \<open>
  What the sending half promises: every write is accepted as a whole or leaves no trace, what is sent stays
  within the windows, and packets fit into the MTU.
\<close>

section \<open>Writing\<close>

text \<open>
  C6: a write on a stream of an association returns, and keeps the sender's invariant. If it is accepted, all of
  its bytes are in the pending queue; if it is refused, because the message is too large, the stream is not
  open or the association is not established, then the error says so and the queues and every stream,
  with its sequence number and its buffered amount, are as before; if it waits, nothing is queued yet.
\<close>

theorem WriteSCTP_all_or_nothing:
  assumes "sender_inv a" "as_streamStore a p = Some s"
  shows "\<exists>r b. WriteSCTP a p raw ppi = Some (r, b) \<and> sender_inv b \<and> write_outcome a p s raw r b"
  using assms by (rule WriteSCTP_ok)

definition sample_config :: Config where
  "sample_config = \<lparr>cf_MaxReceiveBufferSize = 0, cf_MaxMessageSize = 0, cf_EnableZeroChecksum = False, cf_BlockWrite = False,
     cf_RTOMax = 0, cf_MinCwnd = 0, cf_FastRtxWnd = 0, cf_CwndCAStep = 0\<rparr>"

text \<open>An established association with one open stream.\<close>

definition sample_sender :: Association where
  "sample_sender = (createAssociation 7 1 sample_config)\<lparr>as_state := Established, as_rwnd := 2,
     as_streams := [(3, 1)], as_streamStore := [1 \<mapsto> new_stream 3], as_freeStream := 2\<rparr>"

lemma sample_sender_inv: "sender_inv sample_sender" "as_streamStore sample_sender 1 = Some (new_stream 3)"
proof -
  let ?a = "createAssociation 7 1 sample_config"
  have "as_streams ?a = []" by (simp add: createAssociation_def setCWND_def Let_def)
  then show "sender_inv sample_sender" using sender_inv_create [of 7 1 sample_config]
    by (simp add: sample_sender_def sender_inv_def snd_inv_def alloc_inv_def streams_ok_def new_stream_def)
qed (simp add: sample_sender_def)

theorem WriteSCTP_all_or_nothing_witness:
  "\<exists>r b. WriteSCTP sample_sender 1 [1, 2, 3] 51 = Some (r, b) \<and> sender_inv b \<and>
     write_outcome sample_sender 1 (new_stream 3) [1, 2, 3] r b"
  by (rule WriteSCTP_all_or_nothing [OF sample_sender_inv])

section \<open>Windows\<close>

text \<open>
  C7: moving pending chunks into flight returns, keeps the invariant, gives the chunks the next TSNs in order,
  and respects both windows: afterwards the bytes in flight are within the congestion window and the bytes
  just sent were within the receiver's window, except that a single chunk may probe when nothing was in
  flight. If nothing was in flight and there is data, then something is sent.
\<close>

theorem popPending_within_windows:
  assumes "snd_inv a" "window_fits M a"
  shows "\<exists>cs sis b. popPendingDataChunksToSend e a = Some (cs, sis, b) \<and> snd_inv b \<and>
    pq_elems (as_inflightQueue b) = pq_elems (as_inflightQueue a) @ cs \<and>
    (\<forall>i < length cs. pd_tsn (chunk_at (as_store b) (cs ! i)) = as_myNextTSN a + of_nat i) \<and>
    (cs = [] \<or> payloadQueue_getNumBytes (as_inflightQueue b) \<le> uint (CWND a) \<and> bytes_of (as_store a) cs \<le> uint (RWND a) \<or>
       length cs = 1 \<and> pq_elems (as_inflightQueue a) = []) \<and>
    (pq_elems (as_inflightQueue a) = [] \<and>
       (\<exists>p \<in> set (pending_elems (as_pendingQueue a)). pd_userData (chunk_at (as_store a) p) \<noteq> []) \<longrightarrow> cs \<noteq> [])"
proof -
  from popPending_ok [OF assms, of e] obtain cs sis b c where
    c: "popPendingDataChunksToSend e a = Some (cs, sis, c)" "c = b \<or> c = notifyBlockWritable b" and
    b: "snd_inv b" "sent_from a cs b"
    "cs = [] \<or> pq_nBytes (as_inflightQueue b) \<le> uint (as_cwnd a) \<and> bytes_of (as_store a) cs \<le> uint (as_rwnd a) \<or>
       length cs = 1 \<and> pq_elems (as_inflightQueue a) = []"
    "pq_elems (as_inflightQueue a) = [] \<and> cs = [] \<longrightarrow> pending_elems (as_pendingQueue b) = []" by blast
  have same: "as_store c = as_store b" "as_inflightQueue c = as_inflightQueue b" "snd_inv c"
    using c(2) b(1) by (auto simp: notifyBlockWritable_def snd_inv_notify [unfolded notifyBlockWritable_def])
  have "cs \<noteq> []" if "pq_elems (as_inflightQueue a) = []" "p \<in> set (pending_elems (as_pendingQueue a))"
    "pd_userData (chunk_at (as_store a) p) \<noteq> []" for p
    using that b(2,4) unfolding sent_from_def by fastforce
  moreover have "pq_elems (as_inflightQueue b) = pq_elems (as_inflightQueue a) @ cs" using b(2) by (simp add: sent_from_def)
  ultimately show ?thesis using c(1) b(3) same new_tsns [OF b(1,2) assms(1)]
    by (intro exI [of _ cs] exI [of _ sis] exI [of _ c]) (auto simp: payloadQueue_getNumBytes_def CWND_def RWND_def)
qed

text \<open>A message of three bytes waits, and the receiver has room for two.\<close>

definition sample_pending :: Association where
  "sample_pending = sample_sender\<lparr>
     as_store := [5 \<mapsto> zero_payload\<lparr>pd_streamIdentifier := 3, pd_beginningFragment := True, pd_endingFragment := True, pd_userData := [1, 2, 3]\<rparr>],
     as_freeChunk := 6, as_pendingQueue := newPendingQueue\<lparr>pe_orderedQueue := [5], pe_nBytes := 3\<rparr>\<rparr>"

lemma sample_pending_part:
  "as_inflightQueue sample_pending = newPayloadQueue" "as_cwnd sample_pending = 4380" "as_myNextTSN sample_pending = 7"
  "as_cumulativeTSNAckPoint sample_pending = 6" "as_streams sample_pending = [(3, 1)]"
  "as_streamStore sample_pending = [1 \<mapsto> new_stream 3]" "as_mtu sample_pending = 1228"
  by (simp_all add: sample_pending_def sample_sender_def createAssociation_def setCWND_def sample_config_def Let_def MTU_def
      min32_def max32_def initialMTU_def)

lemma sample_pending_queues:
  "pending_elems (as_pendingQueue sample_pending) = [5]" "pd_userData (chunk_at (as_store sample_pending) 5) = [1, 2, 3]"
  "valid_ptr (as_store sample_pending) 5"
  by (simp_all add: sample_pending_def pending_elems_def newPendingQueue_def newPendingBaseQueue_def chunk_at_def valid_ptr_def)

lemma sample_pending_inv: "snd_inv sample_pending" "window_fits 1200 sample_pending"
proof -
  have "pend_inv (as_store sample_pending) (as_pendingQueue sample_pending)" "heads_ok (as_store sample_pending)"
    by (auto simp: sample_pending_def pend_inv_def heads_ok_def chunk_at_def valid_ptr_def newPendingQueue_def newPendingBaseQueue_def
        zero_payload_def)
  then show "snd_inv sample_pending"
    by (simp add: snd_inv_def sample_pending_part sample_pending_queues pq_inv_new streams_ok_def new_stream_def)
  show "window_fits 1200 sample_pending"
    by (simp add: window_fits_def sample_pending_part sample_pending_queues newPayloadQueue_def)
qed

theorem popPending_within_windows_witness:
  "\<exists>cs sis b. popPendingDataChunksToSend \<lparr>en_now = 0, en_cookie = None, en_closeErr = None, en_select = True\<rparr> sample_pending = Some (cs, sis, b) \<and>
     snd_inv b \<and> pq_elems (as_inflightQueue b) = cs \<and> cs \<noteq> []"
  using popPending_within_windows [OF sample_pending_inv, of "\<lparr>en_now = 0, en_cookie = None, en_closeErr = None, en_select = True\<rparr>"]
  by (auto simp: sample_pending_part(1) sample_pending_queues pq_inv_new(2))

section \<open>Bundling\<close>

text \<open>
  C8: bundling returns packets that carry the chunks in their order, each once, with at least one chunk per
  packet; all packets can be serialized, and none of them is longer than the MTU on the wire.
\<close>

theorem bundling_within_mtu:
  assumes "sender_inv a" "\<forall>p \<in> set ps. valid_ptr (as_store a) p"
  shows "\<exists>qss raws. bundleDataChunksIntoPackets a ps = Some (map (packet_of a) qss) \<and> concat qss = ps \<and> [] \<notin> set qss \<and>
    append_all a [] (map (packet_of a) qss) = Some raws \<and> length raws = length qss \<and>
    (\<forall>raw \<in> set raws. int (length raw) \<le> uint (MTU a))"
proof -
  have "length (pd_userData (chunk_at (as_store a) p)) \<le> 1200" if p: "p \<in> set ps" for p
  proof -
    obtain c where "as_store a p = Some c" using bspec [OF assms(2) p] by (auto simp: valid_ptr_def)
    then show ?thesis using assms(1) by (simp add: sender_inv_def alloc_inv_def chunk_at_def)
  qed
  moreover have mtu: "as_mtu a = initialMTU" using assms(1) by (simp add: sender_inv_def alloc_inv_def)
  ultimately obtain qss where qss: "bundleDataChunksIntoPackets a ps = Some (map (packet_of a) qss)" "concat qss = ps"
    "\<forall>q \<in> set qss. q \<noteq> [] \<and> packet_size a q \<le> 1228" using bundle_ok [of a ps] assms(2) by blast
  from append_all_packets [of a "[]" a qss] obtain raws where raws: "append_all a [] (map (packet_of a) qss) = Some raws"
    "map length raws = map (packet_size a) qss" by auto
  have "length raw \<le> 1228" if "raw \<in> set raws" for raw
  proof -
    have "length raw \<in> set (map (packet_size a) qss)" using that raws(2) by (metis imageI set_map)
    then show ?thesis using qss(3) by auto
  qed
  then have "\<forall>raw \<in> set raws. int (length raw) \<le> uint (MTU a)" by (force simp: MTU_def mtu initialMTU_def)
  moreover have "length raws = length qss" using raws(2) by (metis length_map)
  ultimately show ?thesis using qss raws(1) by (intro exI [of _ qss] exI [of _ raws]) auto
qed

theorem bundling_within_mtu_witness:
  "\<exists>qss raws. bundleDataChunksIntoPackets sample_pending [5, 5] = Some (map (packet_of sample_pending) qss) \<and> concat qss = [5, 5] \<and>
     append_all sample_pending [] (map (packet_of sample_pending) qss) = Some raws \<and> (\<forall>raw \<in> set raws. length raw \<le> 1228)"
proof -
  have "alloc_inv sample_pending"
    using sample_sender_inv(1) by (auto simp: sender_inv_def alloc_inv_def sample_pending_def)
  then have "sender_inv sample_pending" using sample_pending_inv(1) by (simp add: sender_inv_def)
  then show ?thesis using bundling_within_mtu [of sample_pending "[5, 5]"] sample_pending_queues(3)
    by (fastforce simp: MTU_def sample_pending_part)
qed

end
