(* ===== verification/Spec2Isabelle.thy ===== *)
theory Spec2Isabelle
  imports Sctp_Packet Sctp_SendQueues Sctp_RecvQueue_Laws Sctp_Stream_Laws Sctp_Assoc_Inv Sctp_Sender_Spec
begin

text \<open>
  A verification development for pion's WebRTC stack: the SCTP transport of \<^verbatim>\<open>src/sctp\<close>.

  \<^bold>\<open>Wire format.\<close> The theories Sctp_Util, Sctp_Param, Sctp_ErrorCause, Sctp_Chunk and Sctp_Packet
  model \<^verbatim>\<open>util.go\<close>, \<^verbatim>\<open>param*.go\<close>, \<^verbatim>\<open>error_cause*.go\<close>, \<^verbatim>\<open>chunk*.go\<close> and \<^verbatim>\<open>packet.go\<close>.
\<close>

end
